(* ===== verification/Prelude.thy ===== *)
theory Prelude
  imports Main "HOL-Library.Word"
begin

text \<open>
  Shared vocabulary of the development: the C integer types, the outcome of a piece of C code
  run on some state, byte strings, and the generic facts on words and lists that the component
  theories use. The collections \<open>outcome_simps\<close> (evaluating sequenced code) and
  \<open>word_bits\<close> (reasoning on words bit by bit) are filled here and in the components.
\<close>

unbundle bit_operations_syntax

type_synonym u8 = "8 word"
type_synonym u16 = "16 word"
type_synonym u32 = "32 word"
type_synonym u64 = "64 word"

named_theorems outcome_simps
named_theorems word_bits

section \<open>Outcomes\<close>

text \<open>
  What can become of a C function: it returns a value in a new state, it polls a device for
  ever, an access faults, it leaves the bounds of an array (undefined behaviour), or it hands
  control to code at an absolute address and does not come back.
\<close>

datatype fault =
    Load_Misaligned u32
  | Store_Misaligned u32
  | Out_Of_Bounds

datatype ('s, 'a) outcome =
    Done 'a 's
  | Stuck 's
  | Fault fault 's
  | Jumped u32 's

text \<open>Sequencing: the statement after a call runs only when the call returns.\<close>

fun andthen :: "('s, 'a) outcome \<Rightarrow> ('a \<Rightarrow> 's \<Rightarrow> ('s, 'b) outcome) \<Rightarrow> ('s, 'b) outcome" where
  "andthen (Done a s) f = f a s"
| "andthen (Stuck s) f = Stuck s"
| "andthen (Fault e s) f = Fault e s"
| "andthen (Jumped a s) f = Jumped a s"

lemma andthen_cong [fundef_cong]:
  "x = y \<Longrightarrow> (\<And>a s. y = Done a s \<Longrightarrow> f a s = g a s) \<Longrightarrow> andthen x f = andthen y g"
  by (cases y) simp_all

lemma andthen_Done_iff:
  "andthen x f = Done b t \<longleftrightarrow> (\<exists>a s. x = Done a s \<and> f a s = Done b t)"
  by (cases x) simp_all

lemma andthen_assoc [outcome_simps]:
  "andthen (andthen x f) g = andthen x (\<lambda>a s. andthen (f a s) g)"
  by (cases x) simp_all

lemma andthen_Done_right [simp]: "andthen x Done = x"
  by (cases x) simp_all

lemma andthen_if [outcome_simps]:
  "andthen (if c then x else y) f = (if c then andthen x f else andthen y f)"
  by simp

fun final_state :: "('s, 'a) outcome \<Rightarrow> 's" where
  "final_state (Done a s) = s"
| "final_state (Stuck s) = s"
| "final_state (Fault e s) = s"
| "final_state (Jumped a s) = s"

text \<open>A piece of code that may run for ever without waiting for input has an outcome or none.\<close>

definition andthen_opt :: "('s, 'a) outcome option \<Rightarrow> ('a \<Rightarrow> 's \<Rightarrow> ('s, 'b) outcome option)
    \<Rightarrow> ('s, 'b) outcome option" where
  "andthen_opt x f = (case x of
       None \<Rightarrow> None
     | Some (Done a s) \<Rightarrow> f a s
     | Some (Stuck s) \<Rightarrow> Some (Stuck s)
     | Some (Fault e s) \<Rightarrow> Some (Fault e s)
     | Some (Jumped a s) \<Rightarrow> Some (Jumped a s))"

lemma andthen_opt_simps [simp]:
  "andthen_opt None f = None" "andthen_opt (Some (Done a s)) f = f a s"
  "andthen_opt (Some (Stuck s)) f = Some (Stuck s)"
  "andthen_opt (Some (Fault e s)) f = Some (Fault e s)"
  "andthen_opt (Some (Jumped t s)) f = Some (Jumped t s)"
  by (simp_all add: andthen_opt_def)

section \<open>Byte strings\<close>

text \<open>The string a zero-terminated array holds, and the comparisons of the C library.\<close>

definition c_str :: "u8 list \<Rightarrow> u8 list" where
  "c_str buf = takeWhile (\<lambda>c. c \<noteq> 0) buf"

lemma c_str_terminated [simp]: "0 \<notin> set s \<Longrightarrow> c_str (s @ 0 # t) = s"
  by (induction s) (auto simp: c_str_def)


text \<open>C character data are bytes; \<open>bytes ''abc''\<close> is the byte list of a literal.\<close>

definition bytes :: "string \<Rightarrow> u8 list" where
  "bytes s = map of_char s"

definition str_eq :: "u8 list \<Rightarrow> string \<Rightarrow> bool" where
  "str_eq buf s \<longleftrightarrow> c_str buf = bytes s"

definition strn_eq :: "nat \<Rightarrow> u8 list \<Rightarrow> string \<Rightarrow> bool" where
  "strn_eq n buf s \<longleftrightarrow> take n (c_str buf) = take n (bytes s)"

lemma bytes_Nil [simp]: "bytes [] = []"
  by (simp add: bytes_def)

lemma bytes_Cons [simp]: "bytes (c # s) = of_char c # bytes s"
  by (simp add: bytes_def)

lemma bytes_append: "bytes (s @ t) = bytes s @ bytes t"
  by (simp add: bytes_def)

lemma length_bytes [simp]: "length (bytes s) = length s"
  by (simp add: bytes_def)

section \<open>Lists\<close>

lemma upt_0_Suc: "[0..<Suc n] = 0 # map Suc [0..<n]"
proof -
  have "[0..<Suc n] = 0 # [Suc 0..<Suc n]" by (rule upt_conv_Cons) simp
  then show ?thesis by (simp only: map_Suc_upt)
qed

text \<open>Consecutive addresses.\<close>

lemma map_upt_word:
  fixes p :: "'a::len word"
  shows "map (\<lambda>i. g (p + of_nat i)) [0..<Suc n] = g p # map (\<lambda>i. g (p + 1 + of_nat i)) [0..<n]"
  unfolding upt_0_Suc by (simp add: o_def add.assoc del: map_Suc_upt)

lemma list_all_upt_word:
  fixes p :: "'a::len word"
  shows "list_all (\<lambda>i. P (p + of_nat i)) [0..<Suc n]
    \<longleftrightarrow> P p \<and> list_all (\<lambda>i. P (p + 1 + of_nat i)) [0..<n]"
  unfolding upt_0_Suc by (simp add: list.pred_map o_def add.assoc del: map_Suc_upt)

section \<open>Words\<close>

lemma and_4_eq_0_iff [word_bits]: "(x::'a::len word) AND 4 = 0 \<longleftrightarrow> \<not> bit x 2"
  using and_exp_eq_0_iff_not_bit [of x 2] by simp

lemma and_16_eq_0_iff [word_bits]: "(x::'a::len word) AND 16 = 0 \<longleftrightarrow> \<not> bit x 4"
  using and_exp_eq_0_iff_not_bit [of x 4] by simp

lemma ucast_u8_u32_u8 [simp]: "ucast (ucast (c::u8) :: u32) = c"
  by (rule bit_word_eqI) (simp add: bit_simps)

lemma unat_ucast_u8_u32 [simp]: "unat (ucast (c::u8) :: u32) = unat c"
proof -
  have "unat c < 2 ^ 32"
    using unsigned_less [of c, where 'a = nat] by simp
  then show ?thesis
    by (simp add: unsigned_ucast_eq take_bit_nat_eq_self_iff)
qed

end
