(* ===== verification/Ctype.thy ===== *)
theory Ctype
  imports Prelude
begin

text \<open>
  The character functions of the C library in the C locale (\<open>isdigit\<close>, \<open>isxdigit\<close>,
  \<open>isspace\<close>, \<open>isprint\<close>, \<open>tolower\<close>, \<open>toupper\<close>) on bytes, the value of a hexadecimal digit,
  and hexadecimal numerals in both directions with their round trip. Every parser and printer
  of the sources is built on these.
\<close>

section \<open>Character classes\<close>

definition is_digit :: "u8 \<Rightarrow> bool" where
  "is_digit c \<longleftrightarrow> 48 \<le> c \<and> c \<le> 57"

definition is_xdigit :: "u8 \<Rightarrow> bool" where
  "is_xdigit c \<longleftrightarrow> is_digit c \<or> (65 \<le> c \<and> c \<le> 70) \<or> (97 \<le> c \<and> c \<le> 102)"

definition is_space :: "u8 \<Rightarrow> bool" where
  "is_space c \<longleftrightarrow> c = 32 \<or> (9 \<le> c \<and> c \<le> 13)"

definition is_print :: "u8 \<Rightarrow> bool" where
  "is_print c \<longleftrightarrow> 32 \<le> c \<and> c \<le> 126"

definition to_lower :: "u8 \<Rightarrow> u8" where
  "to_lower c = (if 65 \<le> c \<and> c \<le> 90 then c + 32 else c)"

definition to_upper :: "u8 \<Rightarrow> u8" where
  "to_upper c = (if 97 \<le> c \<and> c \<le> 122 then c - 32 else c)"

lemmas ctype_defs = is_digit_def is_xdigit_def is_space_def is_print_def
  to_lower_def to_upper_def

lemma is_xdigit_0 [simp]: "\<not> is_xdigit 0" and is_space_0 [simp]: "\<not> is_space 0"
  by (simp_all add: ctype_defs)

section \<open>Hexadecimal digits\<close>

text \<open>The value the parsers of the target add for one hexadecimal character.\<close>

definition hexval :: "u8 \<Rightarrow> u32" where
  "hexval c = (if is_digit c then ucast c - 48 else ucast (to_lower c) - 97 + 10)"

text \<open>The character of a digit value below 16; \<open>b\<close> is the code of the letter for ten.\<close>

definition hexdig :: "u8 \<Rightarrow> u8 \<Rightarrow> u8" where
  "hexdig b d = (if d < 10 then 48 + d else b + (d - 10))"

lemma nibble_cases:
  assumes "(d::u8) < 16"
  shows "d \<in> set [0, 1, 2, 3, 4, 5, 6, 7, 8, 9, 10, 11, 12, 13, 14, 15]"
proof -
  have "unat d < 16" using assms by (simp add: word_less_nat_alt)
  then have "unat d \<in> set [0..<16]" by simp
  then have "(of_nat (unat d) :: u8) \<in> of_nat ` set [0..<16]" by (rule imageI)
  then show ?thesis by (simp add: upt_rec)
qed

definition hexdig_ok :: "u8 \<Rightarrow> u8 \<Rightarrow> bool" where
  "hexdig_ok b d \<longleftrightarrow> is_xdigit (hexdig b d) \<and> hexval (hexdig b d) = ucast d
     \<and> \<not> is_space (hexdig b d) \<and> hexdig b d \<noteq> 0 \<and> hexdig b d \<noteq> 10 \<and> is_print (hexdig b d)"

lemma hexdig_ok_all:
  "list_all (hexdig_ok 65) [0, 1, 2, 3, 4, 5, 6, 7, 8, 9, 10, 11, 12, 13, 14, 15]"
  "list_all (hexdig_ok 97) [0, 1, 2, 3, 4, 5, 6, 7, 8, 9, 10, 11, 12, 13, 14, 15]"
  by code_simp+

lemma hexdig_ok:
  assumes "d < 16" and "b = 65 \<or> b = 97"
  shows "hexdig_ok b d"
  using assms(2)
proof
  assume b: "b = 65"
  show ?thesis
    unfolding b using hexdig_ok_all(1) nibble_cases [OF assms(1)] unfolding list_all_iff by (rule bspec)
next
  assume b: "b = 97"
  show ?thesis
    unfolding b using hexdig_ok_all(2) nibble_cases [OF assms(1)] unfolding list_all_iff by (rule bspec)
qed

lemma hexdig_props:
  assumes "d < 16" and "b = 65 \<or> b = 97"
  shows "is_xdigit (hexdig b d)" and "hexval (hexdig b d) = ucast d"
    and "\<not> is_space (hexdig b d)" and "hexdig b d \<noteq> 0" and "hexdig b d \<noteq> 10"
    and "is_print (hexdig b d)"
  using hexdig_ok [OF assms] by (simp_all add: hexdig_ok_def)

section \<open>Hexadecimal numerals\<close>

text \<open>The accumulation step of the parsers, and the number a run of digits denotes.\<close>

definition hexstep :: "u32 \<Rightarrow> u8 \<Rightarrow> u32" where
  "hexstep v c = push_bit 4 v OR hexval c"

definition hexnum :: "u8 list \<Rightarrow> u32" where
  "hexnum cs = foldl hexstep 0 cs"

text \<open>The sum the monitor computes is the step of the other parsers.\<close>

definition digit_ok :: "u8 \<Rightarrow> bool" where
  "digit_ok c \<longleftrightarrow> (is_xdigit c \<longrightarrow> hexval c < 16
     \<and> (if is_digit c then ucast c - 48 else ucast (to_upper c) - 65 + 10) = hexval c)"

lemma digit_ok_all: "list_all digit_ok (map of_nat ([48..<58] @ [65..<71] @ [97..<103]))"
  by code_simp

lemma xdigit_cases:
  assumes "is_xdigit c"
  shows "c \<in> set (map of_nat ([48..<58] @ [65..<71] @ [97..<103]))"
proof -
  have "(48 \<le> unat c \<and> unat c < 58) \<or> (65 \<le> unat c \<and> unat c < 71) \<or> (97 \<le> unat c \<and> unat c < 103)"
    using assms by (auto simp: is_xdigit_def is_digit_def word_le_nat_alt)
  then have "unat c \<in> set ([48..<58] @ [65..<71] @ [97..<103])"
    by (simp only: set_append set_upt Un_iff atLeastLessThan_iff)
  then have "(of_nat (unat c) :: u8) \<in> of_nat ` set ([48..<58] @ [65..<71] @ [97..<103])" by (rule imageI)
  moreover have "(of_nat (unat c) :: u8) = c" by simp
  ultimately show ?thesis by (simp only: set_map)
qed

lemma digit_ok: "digit_ok c"
proof (cases "is_xdigit c")
  case True
  show ?thesis using digit_ok_all xdigit_cases [OF True] unfolding list_all_iff by (rule bspec)
qed (simp add: digit_ok_def)

lemma digit_add:
  fixes v d :: u32
  assumes "d < 16"
  shows "v * 16 + d = push_bit 4 v OR d"
proof -
  have "take_bit 4 d = d"
    using assms by (simp add: word_unat_eq_iff unsigned_take_bit_eq take_bit_nat_eq_self word_less_nat_alt)
  then have high: "\<not> bit d k" if "4 \<le> k" for k
    by (metis bit_take_bit_iff linorder_not_less that)
  have "v * 16 = push_bit 4 v" by (simp add: push_bit_eq_mult)
  moreover have "push_bit 4 v + d = push_bit 4 v OR d"
    by (rule disjunctive_add_eq_or) (auto simp: bit_eq_iff bit_simps dest: high)
  ultimately show ?thesis by simp
qed

lemma hexstep_add:
  assumes "is_xdigit c"
  shows "(if is_digit c then v * 16 + ucast c - 48 else v * 16 + ucast (to_upper c) - 65 + 10) = hexstep v c"
proof -
  have "hexval c < 16" and e: "(if is_digit c then ucast c - 48 else ucast (to_upper c) - 65 + 10) = hexval c"
    using digit_ok [of c] assms by (simp_all add: digit_ok_def)
  then have "hexstep v c = v * 16 + hexval c" by (simp add: hexstep_def digit_add)
  then show ?thesis using e by (auto simp: algebra_simps split: if_splits)
qed

text \<open>The \<open>n\<close> last hexadecimal digits of a number, most significant first.\<close>

fun hexstr :: "u8 \<Rightarrow> nat \<Rightarrow> u32 \<Rightarrow> u8 list" where
  "hexstr b 0 v = []"
| "hexstr b (Suc n) v = hexstr b n (drop_bit 4 v) @ [hexdig b (ucast (take_bit 4 v))]"

lemma length_hexstr [simp]: "length (hexstr b n v) = n"
  by (induction b n v rule: hexstr.induct) simp_all

lemma take_bit_4_less [simp]: "(ucast (take_bit 4 (v::u32)) :: u8) < 16"
proof -
  have "unat (ucast (take_bit 4 v) :: u8) = take_bit 4 (unat v)"
    by (simp add: unsigned_ucast_eq unsigned_take_bit_eq)
  also have "\<dots> < 2 ^ 4"
    by (rule take_bit_nat_less_exp)
  finally show ?thesis by (simp add: word_less_nat_alt)
qed

lemma ucast_take_bit_4 [simp]: "(ucast (ucast (take_bit 4 (v::u32)) :: u8) :: u32) = take_bit 4 v"
  by (rule bit_word_eqI) (auto simp: bit_simps)

lemma set_hexstr:
  assumes "b = 65 \<or> b = 97"
  shows "\<forall>c \<in> set (hexstr b n v). is_xdigit c \<and> \<not> is_space c \<and> c \<noteq> 0 \<and> c \<noteq> 10"
  using assms by (induction b n v rule: hexstr.induct) (auto simp: hexdig_props)

lemma hexnum_append: "hexnum (xs @ [c]) = hexstep (hexnum xs) c"
  by (simp add: hexnum_def)

lemma hexnum_hexstr:
  assumes "b = 65 \<or> b = 97"
  shows "hexnum (hexstr b n v) = take_bit (4 * n) v"
  using assms
proof (induction b n v rule: hexstr.induct)
  case (1 b v)
  then show ?case by (simp add: hexnum_def)
next
  case (2 b n v)
  then have "hexnum (hexstr b (Suc n) v)
      = push_bit 4 (take_bit (4 * n) (drop_bit 4 v)) OR take_bit 4 v"
    by (simp add: hexnum_append hexstep_def hexdig_props)
  also have "\<dots> = take_bit (4 * Suc n) v"
    by (rule bit_word_eqI) (auto simp: bit_simps)
  finally show ?case .
qed

end
