(* ===== verification/Platform.thy ===== *)
theory Platform
  imports Ctype
begin

text \<open>
  The machine the target programs run on, as far as C code can observe it: byte memory, the
  memory mapped peripherals of \<open>CODE/bootloader/io.h\<close> (GPIOA, USART, TIMER1, TIME/TIMECMP), the
  control and status registers the code writes, and the environment (serial line, input pins,
  passage of time). The peripherals follow \<open>HARDWARE/riscv-pipe3-csr-md-lic.bootloader/io.vhd\<close>
  and \<open>address_decode.vhd\<close> with one abstraction: the environment advances by one tick at each
  read of a peripheral or time register, the only points where a program can see that time
  has passed. The sender on the serial line is paced: the next character completes only after
  the previous one was read from the data register.
\<close>

section \<open>Registers and their addresses\<close>

datatype io_reg =
    PIN | POUT
  | UDATA | UBAUD | UCTRL | USTAT
  | T1CTRL | T1STAT | T1CNTR | T1CMPT
  | TIMEL | TIMEH | TIMECMPL | TIMECMPH

definition IO_BASE :: u32 where
  "IO_BASE = 0xf0000000"

fun gpio_addr :: "io_reg \<Rightarrow> u32" where
  "gpio_addr PIN = IO_BASE + 0x00"
| "gpio_addr POUT = IO_BASE + 0x04"
| "gpio_addr _ = 0"

fun usart_addr :: "io_reg \<Rightarrow> u32" where
  "usart_addr UDATA = IO_BASE + 0x20"
| "usart_addr UBAUD = IO_BASE + 0x24"
| "usart_addr UCTRL = IO_BASE + 0x28"
| "usart_addr USTAT = IO_BASE + 0x2c"
| "usart_addr _ = 0"

fun timer1_addr :: "io_reg \<Rightarrow> u32" where
  "timer1_addr T1CTRL = IO_BASE + 0x80"
| "timer1_addr T1STAT = IO_BASE + 0x84"
| "timer1_addr T1CNTR = IO_BASE + 0x88"
| "timer1_addr T1CMPT = IO_BASE + 0x8c"
| "timer1_addr _ = 0"

fun time_addr :: "io_reg \<Rightarrow> u32" where
  "time_addr TIMEL = IO_BASE + 0xf0"
| "time_addr TIMEH = IO_BASE + 0xf4"
| "time_addr TIMECMPL = IO_BASE + 0xf8"
| "time_addr TIMECMPH = IO_BASE + 0xfc"
| "time_addr _ = 0"

definition io_addr :: "io_reg \<Rightarrow> u32" where
  "io_addr r = (if r \<in> {PIN, POUT} then gpio_addr r
     else if r \<in> {UDATA, UBAUD, UCTRL, USTAT} then usart_addr r
     else if r \<in> {T1CTRL, T1STAT, T1CNTR, T1CMPT} then timer1_addr r
     else time_addr r)"

text \<open>The decoder looks at bits 7 to 2 of the address.\<close>

definition io_decode :: "u32 \<Rightarrow> io_reg option" where
  "io_decode a = map_of
     [(0x00, PIN), (0x04, POUT), (0x20, UDATA), (0x24, UBAUD), (0x28, UCTRL), (0x2c, USTAT),
      (0x80, T1CTRL), (0x84, T1STAT), (0x88, T1CNTR), (0x8c, T1CMPT),
      (0xf0, TIMEL), (0xf4, TIMEH), (0xf8, TIMECMPL), (0xfc, TIMECMPH)] (a AND 0xfc)"

lemma io_decode_addr: "io_decode (io_addr r) = Some r"
  by (cases r) (simp_all add: io_decode_def io_addr_def IO_BASE_def)

lemma io_addr_region: "drop_bit 28 (io_addr r) = 15" "io_addr r AND 3 = 0"
  by (cases r; simp add: io_addr_def IO_BASE_def)+

section \<open>Machine state\<close>

record machine =
  mem :: "u32 \<Rightarrow> u8"
  pouta :: u32
  udata :: u32
  ubaud :: u32
  uctrl :: u32
  ustat :: u32
  txleft :: "nat option"
  t1ctrl :: u32
  t1stat :: u32
  t1cntr :: u32
  t1cmpt :: u32
  mtime :: u64
  mtimecmp :: u64
  mstatus :: u32
  mie :: u32
  mtvec :: u32
  mcause :: u32
  line_in :: "(nat \<times> u8) list"
  line_out :: "u8 list"
  txlat :: nat
  pins :: "nat \<Rightarrow> u32"
  ticks :: nat
  elapse :: "nat \<Rightarrow> nat"

text \<open>
  \<open>line_in\<close> lists the characters that will arrive, each with the number of ticks it takes
  once the receiver is free; \<open>txlat\<close> is the number of ticks a transmission lasts and
  \<open>txleft\<close> what is left of the one in progress; \<open>pins k\<close> is the state of the input pins and
  \<open>elapse k\<close> the number of microseconds that pass at tick \<open>k\<close>.
\<close>

text \<open>The machine at reset, with memory all zero, all pins low and each character of \<open>cs\<close> about
  to arrive at once; a concrete state to run code on.\<close>

definition power_on :: "u8 list \<Rightarrow> machine" where
  "power_on cs = \<lparr>mem = (\<lambda>_. 0), pouta = 0, udata = 0, ubaud = 0, uctrl = 0, ustat = 0, txleft = None,
     t1ctrl = 0, t1stat = 0, t1cntr = 0, t1cmpt = 0, mtime = 0, mtimecmp = 0,
     mstatus = 0, mie = 0, mtvec = 0, mcause = 0, line_in = map (Pair 0) cs, line_out = [],
     txlat = 0, pins = (\<lambda>_. 0), ticks = 0, elapse = (\<lambda>_. 1)\<rparr>"

definition tick_tx :: "machine \<Rightarrow> machine" where
  "tick_tx m = (case txleft m of
       None \<Rightarrow> m
     | Some 0 \<Rightarrow> m\<lparr>txleft := None, ustat := set_bit 4 (ustat m)\<rparr>
     | Some (Suc n) \<Rightarrow> m\<lparr>txleft := Some n\<rparr>)"

definition tick_rx :: "machine \<Rightarrow> machine" where
  "tick_rx m = (if bit (ustat m) 2 then m else
     (case line_in m of
       [] \<Rightarrow> m
     | (0, c) # r \<Rightarrow> m\<lparr>line_in := r, udata := ucast c, ustat := set_bit 2 (ustat m)\<rparr>
     | (Suc n, c) # r \<Rightarrow> m\<lparr>line_in := (n, c) # r\<rparr>))"

definition tick_time :: "machine \<Rightarrow> machine" where
  "tick_time m = m\<lparr>mtime := mtime m + of_nat (elapse m (ticks m)), ticks := Suc (ticks m)\<rparr>"

definition tick :: "machine \<Rightarrow> machine" where
  "tick m = tick_time (tick_rx (tick_tx m))"

text \<open>Reading a register returns what it holds, then the environment advances.\<close>

fun io_value :: "io_reg \<Rightarrow> machine \<Rightarrow> u32" where
  "io_value PIN m = pins m (ticks m)"
| "io_value POUT m = pouta m"
| "io_value UDATA m = udata m"
| "io_value UBAUD m = ubaud m"
| "io_value UCTRL m = uctrl m"
| "io_value USTAT m = ustat m"
| "io_value T1CTRL m = t1ctrl m"
| "io_value T1STAT m = t1stat m"
| "io_value T1CNTR m = t1cntr m"
| "io_value T1CMPT m = t1cmpt m"
| "io_value TIMEL m = ucast (mtime m)"
| "io_value TIMEH m = ucast (drop_bit 32 (mtime m))"
| "io_value TIMECMPL m = ucast (mtimecmp m)"
| "io_value TIMECMPH m = ucast (drop_bit 32 (mtimecmp m))"

definition io_read :: "io_reg \<Rightarrow> machine \<Rightarrow> u32 \<times> machine" where
  "io_read r m = (io_value r m,
     tick (if r = UDATA then m\<lparr>ustat := ustat m AND NOT 0xf\<rparr> else m))"

fun io_write :: "io_reg \<Rightarrow> u32 \<Rightarrow> machine \<Rightarrow> machine" where
  "io_write PIN v m = m"
| "io_write POUT v m = m\<lparr>pouta := v\<rparr>"
| "io_write UDATA v m = m\<lparr>line_out := line_out m @ [ucast v], txleft := Some (txlat m),
     ustat := unset_bit 4 (ustat m)\<rparr>"
| "io_write UBAUD v m = m\<lparr>ubaud := v AND 0xffff\<rparr>"
| "io_write UCTRL v m = m\<lparr>uctrl := v\<rparr>"
| "io_write USTAT v m = m\<lparr>ustat := v\<rparr>"
| "io_write T1CTRL v m = m\<lparr>t1ctrl := v AND 0xfff\<rparr>"
| "io_write T1STAT v m = m\<lparr>t1stat := v AND 0xfff\<rparr>"
| "io_write T1CNTR v m = m\<lparr>t1cntr := v\<rparr>"
| "io_write T1CMPT v m = m\<lparr>t1cmpt := v\<rparr>"
| "io_write TIMEL v m = m"
| "io_write TIMEH v m = m"
| "io_write TIMECMPL v m = m\<lparr>mtimecmp :=
     (mtimecmp m AND 0xffffffff00000000) OR ucast v\<rparr>"
| "io_write TIMECMPH v m = m\<lparr>mtimecmp :=
     (mtimecmp m AND 0x00000000ffffffff) OR push_bit 32 (ucast v)\<rparr>"

text \<open>The interrupt request lines (the \<open>mip\<close> register).\<close>

definition irq_timer :: "machine \<Rightarrow> bool" where
  "irq_timer m \<longleftrightarrow> mtimecmp m \<le> mtime m"

definition irq_timer1 :: "machine \<Rightarrow> bool" where
  "irq_timer1 m \<longleftrightarrow> bit (t1ctrl m) 4 \<and> bit (t1stat m) 4"

definition irq_usart :: "machine \<Rightarrow> bool" where
  "irq_usart m \<longleftrightarrow> (bit (ustat m) 4 \<and> bit (uctrl m) 7) \<or> (bit (ustat m) 2 \<and> bit (uctrl m) 6)"

definition mip :: "machine \<Rightarrow> u32" where
  "mip m = of_bool (irq_timer m) * 0x80 + of_bool (bit (pins m (ticks m)) 0) * 0x10000
     + of_bool (irq_timer1 m) * 0x20000 + of_bool (irq_usart m) * 0x40000"

section \<open>Memory\<close>

definition mem_word :: "(u32 \<Rightarrow> u8) \<Rightarrow> u32 \<Rightarrow> u32" where
  "mem_word f a = ucast (f a) OR push_bit 8 (ucast (f (a + 1)))
     OR push_bit 16 (ucast (f (a + 2))) OR push_bit 24 (ucast (f (a + 3)))"

definition set_word :: "(u32 \<Rightarrow> u8) \<Rightarrow> u32 \<Rightarrow> u32 \<Rightarrow> (u32 \<Rightarrow> u8)" where
  "set_word f a v = f(a := ucast v, a + 1 := ucast (drop_bit 8 v),
     a + 2 := ucast (drop_bit 16 v), a + 3 := ucast (drop_bit 24 v))"

definition mem_half :: "(u32 \<Rightarrow> u8) \<Rightarrow> u32 \<Rightarrow> u16" where
  "mem_half f a = ucast (f a) OR push_bit 8 (ucast (f (a + 1)))"

definition set_half :: "(u32 \<Rightarrow> u8) \<Rightarrow> u32 \<Rightarrow> u16 \<Rightarrow> (u32 \<Rightarrow> u8)" where
  "set_half f a v = f(a := ucast v, a + 1 := ucast (drop_bit 8 v))"

text \<open>The 256 MB regions of the address decoder: program ROM (writable by words), boot ROM,
  RAM, and I/O.\<close>

definition region :: "u32 \<Rightarrow> u32" where
  "region a = drop_bit 28 a"

definition writable :: "u32 \<Rightarrow> bool" where
  "writable a \<longleftrightarrow> region a = 0 \<or> region a = 2"

definition load32 :: "u32 \<Rightarrow> machine \<Rightarrow> (machine, u32) outcome" where
  "load32 a m = (if a AND 3 \<noteq> 0 then Fault (Load_Misaligned a) m
     else if region a = 15 then
       (case io_decode a of
          Some r \<Rightarrow> (let (v, m') = io_read r m in Done v m')
        | None \<Rightarrow> Done (mem_word (mem m) a) (tick m))
     else Done (mem_word (mem m) a) m)"

definition store32 :: "u32 \<Rightarrow> u32 \<Rightarrow> machine \<Rightarrow> (machine, unit) outcome" where
  "store32 a v m = (if a AND 3 \<noteq> 0 then Fault (Store_Misaligned a) m
     else if region a = 15 then
       (case io_decode a of Some r \<Rightarrow> Done () (io_write r v m) | None \<Rightarrow> Done () m)
     else if writable a then Done () (m\<lparr>mem := set_word (mem m) a v\<rparr>)
     else Done () m)"

definition load16 :: "u32 \<Rightarrow> machine \<Rightarrow> (machine, u16) outcome" where
  "load16 a m = (if a AND 1 \<noteq> 0 \<or> region a = 15 then Fault (Load_Misaligned a) m
     else Done (mem_half (mem m) a) m)"

definition store16 :: "u32 \<Rightarrow> u16 \<Rightarrow> machine \<Rightarrow> (machine, unit) outcome" where
  "store16 a v m = (if a AND 1 \<noteq> 0 \<or> region a = 15 \<or> region a = 0 then Fault (Store_Misaligned a) m
     else if region a = 2 then Done () (m\<lparr>mem := set_half (mem m) a v\<rparr>)
     else Done () m)"

definition load8 :: "u32 \<Rightarrow> machine \<Rightarrow> (machine, u8) outcome" where
  "load8 a m = (if region a = 15 then Fault (Load_Misaligned a) m else Done (mem m a) m)"

definition store8 :: "u32 \<Rightarrow> u8 \<Rightarrow> machine \<Rightarrow> (machine, unit) outcome" where
  "store8 a v m = (if region a = 15 \<or> region a = 0 then Fault (Store_Misaligned a) m
     else if region a = 2 then Done () (m\<lparr>mem := (mem m)(a := v)\<rparr>)
     else Done () m)"

section \<open>Words and bytes of memory\<close>

lemma mem_word_bit:
  "bit (mem_word f a) n \<longleftrightarrow>
     (n < 8 \<and> bit (f a) n \<or> 8 \<le> n \<and> n < 16 \<and> bit (f (a + 1)) (n - 8)
      \<or> 16 \<le> n \<and> n < 24 \<and> bit (f (a + 2)) (n - 16) \<or> 24 \<le> n \<and> n < 32 \<and> bit (f (a + 3)) (n - 24))"
  by (auto simp: mem_word_def bit_simps dest: bit_imp_le_length)

lemma lane_masks:
  "(0xff::u32) = mask 8" "(0xff00::u32) = push_bit 8 (mask 8)"
  "(0xff0000::u32) = push_bit 16 (mask 8)" "(0xff000000::u32) = push_bit 24 (mask 8)"
  by (simp_all add: mask_eq_exp_minus_1 push_bit_eq_mult)

lemma mem_word_byte:
  "ucast (mem_word f a) = f a"
  "ucast (drop_bit 8 (mem_word f a)) = f (a + 1)"
  "ucast (drop_bit 16 (mem_word f a)) = f (a + 2)"
  "ucast (drop_bit 24 (mem_word f a)) = f (a + 3)"
  by (rule bit_word_eqI; auto simp: bit_simps mem_word_bit)+

lemma mem_word_set_word: "mem_word (set_word f a v) a = v"
proof (rule bit_word_eqI)
  fix n assume n: "n < LENGTH(32)"
  have "n < 8 \<or> 8 \<le> n \<and> n < 16 \<or> 16 \<le> n \<and> n < 24 \<or> 24 \<le> n" by linarith
  then show "bit (mem_word (set_word f a v) a) n \<longleftrightarrow> bit v n"
    using n by (elim disjE) (auto simp: mem_word_bit set_word_def bit_simps)
qed

lemma set_word_lanes:
  assumes "ucast w = b0" "ucast (drop_bit 8 w) = b1" "ucast (drop_bit 16 w) = b2" "ucast (drop_bit 24 w) = b3"
  shows "set_word f a w = f(a := b0, a + 1 := b1, a + 2 := b2, a + 3 := b3)"
  using assms by (simp add: set_word_def)

text \<open>The word boundary at or below an address.\<close>

definition boundary :: "u32 \<Rightarrow> u32" where
  "boundary v = v AND NOT 3"

lemma align_split: "boundary v + (v AND 3) = v"
proof -
  have "(v AND NOT 3) + (v AND 3) = (v AND NOT 3) OR (v AND 3)"
    by (rule disjunctive_add_eq_or) (simp add: bit_eq_iff bit_simps)
  also have "\<dots> = v" by (rule bit_word_eqI) (auto simp: bit_simps)
  finally show ?thesis by (simp only: boundary_def)
qed

lemma and_3_cases: "(v::u32) AND 3 = 0 \<or> v AND 3 = 1 \<or> v AND 3 = 2 \<or> v AND 3 = 3"
proof -
  have "v AND 3 = take_bit 2 v" by (simp add: take_bit_eq_mask mask_eq_exp_minus_1)
  moreover have "unat (take_bit 2 v) < 2 ^ 2"
    unfolding unsigned_take_bit_eq by (rule take_bit_nat_less_exp)
  ultimately have "unat (v AND 3) < 4" by simp
  then have "unat (v AND 3) = unat (0::u32) \<or> unat (v AND 3) = unat (1::u32)
      \<or> unat (v AND 3) = unat (2::u32) \<or> unat (v AND 3) = unat (3::u32)"
    by simp linarith
  then show ?thesis unfolding word_unat_eq_iff .
qed

lemma three_mask: "(3::u32) = mask 2"
  by (simp add: mask_eq_exp_minus_1)

lemma region_boundary [simp]: "region (boundary v) = region v"
  unfolding boundary_def region_def three_mask by (rule bit_word_eqI) (auto simp: bit_simps dest: bit_imp_le_length)

lemma boundary_aligned [simp]: "boundary v AND 3 = 0"
  unfolding boundary_def three_mask by (rule bit_word_eqI) (simp add: bit_simps)

lemma writable_boundary [simp]: "writable (boundary v) \<longleftrightarrow> writable v"
  by (simp add: writable_def)

lemma load32_mem: "region a \<noteq> 15 \<Longrightarrow> a AND 3 = 0 \<Longrightarrow> load32 a m = Done (mem_word (mem m) a) m"
  by (simp add: load32_def)

lemma store32_mem: "writable a \<Longrightarrow> a AND 3 = 0 \<Longrightarrow>
    store32 a v m = Done () (m\<lparr>mem := set_word (mem m) a v\<rparr>)"
  by (auto simp: store32_def writable_def)

lemma and_3_take_bit: "a AND 3 = take_bit 2 (a :: u32)"
  by (simp add: take_bit_eq_mask mask_eq_exp_minus_1)

lemma aligned_next: "a AND 3 = 0 \<Longrightarrow> (a + 4) AND 3 = (0 :: u32)"
  unfolding and_3_take_bit take_bit_eq_mod
  by (simp add: word_unat_eq_iff unat_mod unat_word_ariths mod_mod_cancel)

lemma aligned_words: "a AND 3 = 0 \<Longrightarrow> (a + 4 * of_nat k) AND 3 = (0 :: u32)"
proof (induction k)
  case 0
  then show ?case by simp
next
  case (Suc k)
  then show ?case using aligned_next [of "a + 4 * of_nat k"] by (simp add: algebra_simps)
qed

end
