(* ===== verification/Serial.thy ===== *)
theory Serial
  imports Platform
begin

text \<open>
  The serial line seen from a program: which characters are still to be read, which were sent,
  and the part of the machine (\<open>core\<close>) that serial traffic and the passage of time leave
  alone. The locales \<open>byte_sink\<close>, \<open>byte_source\<close> and \<open>char_device\<close> state what a character
  driver promises; the loops over characters the sources repeat (print a string, read a
  hexadecimal number) are defined over any driver and proved once inside the locales.
\<close>

section \<open>Abstract view of the line\<close>

definition pending :: "machine \<Rightarrow> u8 list" where
  "pending m = (if bit (ustat m) 2 then [ucast (udata m)] else []) @ map snd (line_in m)"

definition core :: "machine \<Rightarrow> machine" where
  "core m = m\<lparr>ustat := 0, udata := 0, txleft := None, line_in := [], line_out := [],
     mtime := 0, ticks := 0\<rparr>"

definition serial :: "u8 list \<Rightarrow> u8 list \<Rightarrow> machine \<Rightarrow> machine \<Rightarrow> bool" where
  "serial i os m n \<longleftrightarrow> pending m = i @ pending n \<and> line_out n = line_out m @ os \<and> core n = core m"

lemma serial_refl [simp, intro]: "serial [] [] m m"
  by (simp add: serial_def)

lemma serial_trans: "serial i os m n \<Longrightarrow> serial i' os' n k \<Longrightarrow> serial (i @ i') (os @ os') m k"
  by (simp add: serial_def)

lemma serial_pending: "serial i os m n \<Longrightarrow> pending m = i @ pending n"
  by (simp add: serial_def)

lemma serial_out: "serial i os m n \<Longrightarrow> line_out n = line_out m @ os"
  by (simp add: serial_def)

lemma core_proj [simp]:
  "mem (core m) = mem m"
  "pouta (core m) = pouta m"
  "ubaud (core m) = ubaud m"
  "uctrl (core m) = uctrl m"
  "t1ctrl (core m) = t1ctrl m"
  "t1stat (core m) = t1stat m"
  "t1cntr (core m) = t1cntr m"
  "t1cmpt (core m) = t1cmpt m"
  "mtimecmp (core m) = mtimecmp m"
  "mstatus (core m) = mstatus m"
  "mie (core m) = mie m"
  "mtvec (core m) = mtvec m"
  "mcause (core m) = mcause m"
  "pins (core m) = pins m"
  "txlat (core m) = txlat m"
  "elapse (core m) = elapse m"
  by (simp_all add: core_def)

lemma core_fields:
  assumes "core n = core m"
  shows "mem n = mem m" "pouta n = pouta m" "ubaud n = ubaud m" "uctrl n = uctrl m"
    "t1ctrl n = t1ctrl m" "t1stat n = t1stat m" "t1cntr n = t1cntr m" "t1cmpt n = t1cmpt m"
    "mtimecmp n = mtimecmp m" "mstatus n = mstatus m" "mie n = mie m" "mtvec n = mtvec m"
    "mcause n = mcause m" "pins n = pins m" "txlat n = txlat m" "elapse n = elapse m"
  using arg_cong [OF assms, of mem]
    arg_cong [OF assms, of pouta]
    arg_cong [OF assms, of ubaud]
    arg_cong [OF assms, of uctrl]
    arg_cong [OF assms, of t1ctrl]
    arg_cong [OF assms, of t1stat]
    arg_cong [OF assms, of t1cntr]
    arg_cong [OF assms, of t1cmpt]
    arg_cong [OF assms, of mtimecmp]
    arg_cong [OF assms, of mstatus]
    arg_cong [OF assms, of mie]
    arg_cong [OF assms, of mtvec]
    arg_cong [OF assms, of mcause]
    arg_cong [OF assms, of pins]
    arg_cong [OF assms, of txlat]
    arg_cong [OF assms, of elapse]
  by simp_all

lemma serial_mem: "serial i os m n \<Longrightarrow> mem n = mem m"
  unfolding serial_def using core_fields(1) by blast

lemma serial_core: "serial i os m n \<Longrightarrow> core n = core m"
  by (simp add: serial_def)

lemma power_on_simps [simp]:
  "pending (power_on cs) = cs" "mem (power_on cs) = (\<lambda>_. 0)" "line_out (power_on cs) = []"
  "pouta (power_on cs) = 0" "ubaud (power_on cs) = 0" "ustat (power_on cs) = 0"
  by (simp_all add: power_on_def pending_def o_def)

text \<open>Updates outside the serial line commute with it.\<close>

lemma pending_updates [simp]:
  "pending (m\<lparr>mem := f\<rparr>) = pending m" "pending (m\<lparr>pouta := v\<rparr>) = pending m"
  "pending (m\<lparr>ubaud := v\<rparr>) = pending m" "pending (m\<lparr>uctrl := v\<rparr>) = pending m"
  "pending (m\<lparr>mtimecmp := t\<rparr>) = pending m" "pending (m\<lparr>t1stat := v\<rparr>) = pending m"
  by (simp_all add: pending_def)

lemma core_updates [simp]:
  "core (m\<lparr>mem := f\<rparr>) = (core m)\<lparr>mem := f\<rparr>" "core (m\<lparr>pouta := v\<rparr>) = (core m)\<lparr>pouta := v\<rparr>"
  "core (m\<lparr>ubaud := v\<rparr>) = (core m)\<lparr>ubaud := v\<rparr>" "core (m\<lparr>uctrl := v\<rparr>) = (core m)\<lparr>uctrl := v\<rparr>"
  "core (m\<lparr>mtimecmp := t\<rparr>) = (core m)\<lparr>mtimecmp := t\<rparr>" "core (m\<lparr>t1stat := v\<rparr>) = (core m)\<lparr>t1stat := v\<rparr>"
  by (simp_all add: core_def)

lemma core_same [simp]: "(core m)\<lparr>mem := mem m\<rparr> = core m" "(core m)\<lparr>pouta := pouta m\<rparr> = core m"
  by (simp_all add: core_def)

section \<open>Ticks do not touch the traffic\<close>

lemma pending_tick [simp]: "pending (tick m) = pending m"
  by (auto simp: pending_def tick_def tick_tx_def tick_rx_def tick_time_def bit_set_bit_iff
      split: option.splits nat.splits list.splits prod.splits)

lemma core_tick [simp]: "core (tick m) = core m"
  by (auto simp: core_def tick_def tick_tx_def tick_rx_def tick_time_def
      split: option.splits nat.splits list.splits prod.splits)

lemmas tick_fields [simp] = core_fields [OF core_tick]

lemma line_out_tick [simp]: "line_out (tick m) = line_out m"
  by (auto simp: tick_def tick_tx_def tick_rx_def tick_time_def
      split: option.splits nat.splits list.splits prod.splits)

lemma serial_tick: "serial [] [] m (tick m)"
  by (simp add: serial_def)

text \<open>Code that returns \<open>a\<close> after pure serial traffic.\<close>

definition traffic :: "u8 list \<Rightarrow> u8 list \<Rightarrow> 'a \<Rightarrow> (machine, 'a) outcome \<Rightarrow> machine \<Rightarrow> bool" where
  "traffic i os a x m \<longleftrightarrow> (\<exists>n. x = Done a n \<and> serial i os m n)"

lemma traffic_Done [simp]: "traffic [] [] a (Done a m) m"
  by (auto simp: traffic_def)

lemma traffic_bind:
  assumes "traffic i os a x m"
    and "\<And>n. serial i os m n \<Longrightarrow> traffic i' os' b (f a n) n"
  shows "traffic (i @ i') (os @ os') b (andthen x f) m"
  using assms serial_trans unfolding traffic_def by fastforce

lemma traffic_says:
  assumes "traffic [] os a x m" and "\<And>n. serial [] os m n \<Longrightarrow> traffic [] os' b (f a n) n"
  shows "traffic [] (os @ os') b (andthen x f) m"
  using traffic_bind [of "[]" os a x m "[]" os' b f] assms by simp

lemma trafficE:
  assumes "traffic i os a x m"
  obtains n where "x = Done a n" "serial i os m n"
  using assms unfolding traffic_def by blast

text \<open>Traffic with an effect on memory and on the leds.\<close>

definition receives :: "u8 list \<Rightarrow> u8 list \<Rightarrow> ((u32 \<Rightarrow> u8) \<Rightarrow> (u32 \<Rightarrow> u8)) \<Rightarrow> (u32 \<Rightarrow> u32)
    \<Rightarrow> machine \<Rightarrow> machine \<Rightarrow> bool" where
  "receives i os f p m n \<longleftrightarrow> pending m = i @ pending n \<and> line_out n = line_out m @ os
     \<and> core n = (core m)\<lparr>mem := f (mem m), pouta := p (pouta m)\<rparr>"

lemma receives_fields:
  assumes "receives i os f p m n"
  shows "mem n = f (mem m)" and "pouta n = p (pouta m)"
proof -
  have c: "core n = (core m)\<lparr>mem := f (mem m), pouta := p (pouta m)\<rparr>"
    using assms by (simp add: receives_def)
  have "mem (core n) = mem ((core m)\<lparr>mem := f (mem m), pouta := p (pouta m)\<rparr>)"
    using c by (rule arg_cong)
  then show "mem n = f (mem m)" by simp
  have "pouta (core n) = pouta ((core m)\<lparr>mem := f (mem m), pouta := p (pouta m)\<rparr>)"
    using c by (rule arg_cong)
  then show "pouta n = p (pouta m)" by simp
qed

lemma receives_trans:
  assumes "receives i os f p m n" and "receives i' os' g q n k"
  shows "receives (i @ i') (os @ os') (\<lambda>h. g (f h)) (\<lambda>x. q (p x)) m k"
  using assms receives_fields [OF assms(1)] by (simp add: receives_def)

lemma receives_serial: "serial i os m n \<Longrightarrow> receives i os (\<lambda>f. f) (\<lambda>x. x) m n"
  by (simp add: serial_def receives_def)

lemma receives_pending: "receives i os f p m n \<Longrightarrow> pending m = i @ pending n"
  by (simp add: receives_def)

section \<open>Character drivers\<close>

text \<open>\<open>io i os s t\<close> relates the states before and after traffic in which the
  characters \<open>i\<close> were read and \<open>os\<close> were written; \<open>avail s\<close> is what can still be read.\<close>

locale byte_sink =
  fixes putc :: "u32 \<Rightarrow> 's \<Rightarrow> ('s, unit) outcome"
    and io :: "u8 list \<Rightarrow> u8 list \<Rightarrow> 's \<Rightarrow> 's \<Rightarrow> bool"
  assumes io_refl: "io [] [] s s"
    and io_trans: "io i os s t \<Longrightarrow> io i' os' t u \<Longrightarrow> io (i @ i') (os @ os') s u"
    and putc_io: "\<exists>t. putc ch s = Done () t \<and> io [] [ucast ch] s t"
begin

lemma putc_seq:
  "\<exists>t. io [] [ucast ch] s t \<and> andthen (putc ch s) f = f () t"
  using putc_io [of ch s] by auto

end

locale byte_source =
  fixes getc :: "'s \<Rightarrow> ('s, u32) outcome"
    and avail :: "'s \<Rightarrow> u8 list"
    and io :: "u8 list \<Rightarrow> u8 list \<Rightarrow> 's \<Rightarrow> 's \<Rightarrow> bool"
  assumes source_refl: "io [] [] s s"
    and source_trans: "io i os s t \<Longrightarrow> io i' os' t u \<Longrightarrow> io (i @ i') (os @ os') s u"
    and io_avail: "io i os s t \<Longrightarrow> avail s = i @ avail t"
    and getc_io: "avail s = c # cs \<Longrightarrow> \<exists>t. getc s = Done (ucast c) t \<and> io [c] [] s t"
    and getc_stuck: "avail s = [] \<Longrightarrow> \<exists>t. getc s = Stuck t"
begin

lemma getc_Done:
  assumes "getc s = Done v t"
  obtains c where "v = ucast c" and "avail s = c # avail t" and "io [c] [] s t"
proof (cases "avail s")
  case Nil
  then show ?thesis using getc_stuck assms by fastforce
next
  case (Cons c cs)
  then obtain t' where t': "getc s = Done (ucast c) t'" "io [c] [] s t'"
    using getc_io by blast
  then have "avail s = c # avail t'" using io_avail by fastforce
  then show ?thesis using t' assms that by simp
qed

end

locale char_device = byte_sink putc io + byte_source getc avail io
  for putc :: "u32 \<Rightarrow> 's \<Rightarrow> ('s, unit) outcome"
    and getc :: "'s \<Rightarrow> ('s, u32) outcome"
    and avail :: "'s \<Rightarrow> u8 list"
    and io :: "u8 list \<Rightarrow> u8 list \<Rightarrow> 's \<Rightarrow> 's \<Rightarrow> bool"
begin

text \<open>Reading a character and writing one back is one unit of echoed traffic.\<close>

lemma echo:
  assumes "avail s = c # cs"
  shows "\<exists>t. andthen (getc s) (\<lambda>v s. putc v s) = Done () t \<and> io [c] [c] s t"
proof -
  obtain t where t: "getc s = Done (ucast c) t" "io [c] [] s t"
    using getc_io assms by blast
  obtain u where u: "putc (ucast c) t = Done () u" "io [] [c] t u"
    using putc_io [of "ucast c" t] by auto
  show ?thesis
    using t(1) u(1) source_trans [OF t(2) u(2)] by auto
qed

end

section \<open>Loops over characters\<close>

text \<open>A C string is a byte list with its terminating zero; running off the end of an
  unterminated one is a fault.\<close>

definition cstr :: "string \<Rightarrow> u8 list" where
  "cstr s = bytes s @ [0]"

fun puts_by :: "(u32 \<Rightarrow> 's \<Rightarrow> ('s, unit) outcome) \<Rightarrow> u8 list \<Rightarrow> 's \<Rightarrow> ('s, unit) outcome" where
  "puts_by putc [] s = Fault Out_Of_Bounds s"
| "puts_by putc (c # cs) s =
     (if c = 0 then Done () s else andthen (putc (ucast c) s) (\<lambda>_ s. puts_by putc cs s))"

text \<open>One character of a hexadecimal number; other characters count as a zero digit.\<close>

definition gethex_digit :: "u32 \<Rightarrow> u8 \<Rightarrow> u32" where
  "gethex_digit v c = (let v = push_bit 4 v in
     if is_digit c then v OR (ucast c - 48)
     else if is_xdigit c then v OR (ucast (to_lower c) - 97 + 10) else v)"

fun gethex_by :: "('s \<Rightarrow> ('s, u32) outcome) \<Rightarrow> nat \<Rightarrow> u32 \<Rightarrow> 's \<Rightarrow> ('s, u32) outcome" where
  "gethex_by getc 0 v s = Done v s"
| "gethex_by getc (Suc n) v s =
     andthen (getc s) (\<lambda>c s. gethex_by getc n (gethex_digit v (ucast c)) s)"

lemma gethex_digit_hex: "is_xdigit c \<Longrightarrow> gethex_digit v c = hexstep v c"
  by (simp add: gethex_digit_def hexstep_def hexval_def)

lemma gethex_fold:
  "\<forall>c \<in> set cs. is_xdigit c \<Longrightarrow> foldl gethex_digit v cs = foldl hexstep v cs"
  by (induction cs arbitrary: v) (simp_all add: gethex_digit_hex)

context byte_sink begin

lemma puts_by_io:
  assumes "0 \<notin> set cs"
  shows "\<exists>t. puts_by putc (cs @ 0 # rest) s = Done () t \<and> io [] cs s t"
  using assms
proof (induction cs arbitrary: s)
  case Nil
  then show ?case using io_refl by auto
next
  case (Cons c cs)
  obtain t where t: "putc (ucast c) s = Done () t" "io [] [c] s t"
    using putc_io [of "ucast c" s] by auto
  obtain u where u: "puts_by putc (cs @ 0 # rest) t = Done () u" "io [] cs t u"
    using Cons by auto
  show ?case using t(1) u(1) io_trans [OF t(2) u(2)] Cons.prems by auto
qed

end

context byte_source begin

lemma gethex_by_io:
  assumes "avail s = cs @ rest" and "length cs = n"
  shows "\<exists>t. gethex_by getc n v s = Done (foldl gethex_digit v cs) t \<and> io cs [] s t"
  using assms
proof (induction cs arbitrary: s v n)
  case Nil
  then show ?case using source_refl by auto
next
  case (Cons c cs)
  obtain t where t: "getc s = Done (ucast c) t" "io [c] [] s t"
    using getc_io [of s c "cs @ rest"] Cons.prems(1) by auto
  have "avail t = cs @ rest" using io_avail [OF t(2)] Cons.prems(1) by simp
  then obtain u where u: "gethex_by getc (length cs) (gethex_digit v c) t
      = Done (foldl gethex_digit (gethex_digit v c) cs) u" "io cs [] t u"
    using Cons.IH by blast
  show ?case
    using t(1) u(1) source_trans [OF t(2) u(2)] Cons.prems(2) by auto
qed

end

end
