(* ===== verification/Usart.thy ===== *)
theory Usart
  imports Serial
begin

text \<open>
  The USART driver (\<open>CODE/bootloader/usart.c\<close>; the other programs carry copies of it): the
  polling loops on the status register, one character out, one in, a string out, and the line
  editor \<open>usart_gets\<close>. The driver is an instance of \<open>char_device\<close>.
\<close>

section \<open>Definitions\<close>

definition F_CPU :: u32 where "F_CPU = 50000000"
definition BAUD_RATE :: u32 where "BAUD_RATE = 9600"

definition usart_init :: "machine \<Rightarrow> machine" where
  "usart_init m = io_write UBAUD (F_CPU div BAUD_RATE - 1) m"

text \<open>\<open>while ((USART->STAT & mask) == 0);\<close>\<close>

partial_function (option) wait_stat :: "u32 \<Rightarrow> machine \<Rightarrow> machine option" where
  "wait_stat flag m = (case io_read USTAT m of (v, m') \<Rightarrow>
     if v AND flag = 0 then wait_stat flag m' else Some m')"

definition usart_putc :: "u32 \<Rightarrow> machine \<Rightarrow> (machine, unit) outcome" where
  "usart_putc ch m = (let m = io_write UDATA (ucast (ucast ch :: u8)) m in
     case wait_stat 0x10 m of None \<Rightarrow> Stuck m | Some m \<Rightarrow> Done () m)"

definition usart_puts :: "u8 list option \<Rightarrow> machine \<Rightarrow> (machine, unit) outcome" where
  "usart_puts s m = (case s of None \<Rightarrow> Done () m | Some cs \<Rightarrow> puts_by usart_putc cs m)"

definition usart_getc :: "machine \<Rightarrow> (machine, u32) outcome" where
  "usart_getc m = (case wait_stat 0x04 m of
       None \<Rightarrow> Stuck m
     | Some m \<Rightarrow> (case io_read UDATA m of (v, m) \<Rightarrow> Done (v AND 0xff) m))"

definition usart_received :: "machine \<Rightarrow> u32 \<times> machine" where
  "usart_received m = (case io_read USTAT m of (v, m) \<Rightarrow> (v AND 0x04, m))"

abbreviation puts :: "string \<Rightarrow> machine \<Rightarrow> (machine, unit) outcome" where
  "puts s \<equiv> usart_puts (Some (cstr s))"

abbreviation CR :: char where "CR \<equiv> CHR 0x0d"
abbreviation LF :: char where "LF \<equiv> CHR 0x0a"

section \<open>The polling loops\<close>

lemma wait_stat_set:
  "bit (ustat m) k \<Longrightarrow> wait_stat (2 ^ k) m = Some (tick m)"
  by (simp add: wait_stat.simps io_read_def and_exp_eq_0_iff_not_bit)

lemma wait_stat_clear:
  "\<not> bit (ustat m) k \<Longrightarrow> wait_stat (2 ^ k) m = wait_stat (2 ^ k) (tick m)"
  by (subst wait_stat.simps) (simp add: io_read_def and_exp_eq_0_iff_not_bit)

text \<open>A transmission in progress ends, and with it the wait for its completion flag.\<close>

lemma txleft_tick_time_rx [simp]:
  "txleft (tick_time (tick_rx m)) = txleft m"
  "bit (ustat (tick_time (tick_rx m))) 4 \<longleftrightarrow> bit (ustat m) 4"
  by (auto simp: tick_time_def tick_rx_def bit_set_bit_iff split: list.splits nat.splits prod.splits)

lemma wait_tx:
  "txleft m = Some n \<Longrightarrow> \<exists>m'. wait_stat 16 m = Some m' \<and> serial [] [] m m'"
proof (induction n arbitrary: m)
  case 0
  show ?case
  proof (cases "bit (ustat m) 4")
    case True
    then show ?thesis using wait_stat_set [of m 4] serial_tick by auto
  next
    case False
    have "bit (ustat (tick m)) 4"
      using 0 by (simp add: tick_def tick_tx_def bit_set_bit_iff)
    then have "wait_stat 16 m = Some (tick (tick m))"
      using wait_stat_clear [of m 4] wait_stat_set [of "tick m" 4] False by simp
    then show ?thesis using serial_trans [OF serial_tick serial_tick] by auto
  qed
next
  case (Suc n)
  show ?case
  proof (cases "bit (ustat m) 4")
    case True
    then show ?thesis using wait_stat_set [of m 4] serial_tick by auto
  next
    case False
    have "txleft (tick m) = Some n"
      using Suc.prems by (simp add: tick_def tick_tx_def)
    then obtain m' where m': "wait_stat 16 (tick m) = Some m'" "serial [] [] (tick m) m'"
      using Suc.IH by blast
    then show ?thesis
      using wait_stat_clear [of m 4] False serial_trans [OF serial_tick m'(2)] by auto
  qed
qed

text \<open>The wait for a character ends exactly when one is to come.\<close>

lemma line_in_tick_tx [simp]: "line_in (tick_tx m) = line_in m" "bit (ustat (tick_tx m)) 2 \<longleftrightarrow> bit (ustat m) 2"
  by (auto simp: tick_tx_def bit_set_bit_iff split: option.splits nat.splits)

lemma line_in_tick_time [simp]: "line_in (tick_time m) = line_in m" "ustat (tick_time m) = ustat m"
  by (simp_all add: tick_time_def)

lemma tick_keeps_rc: "bit (ustat m) 2 \<Longrightarrow> bit (ustat (tick m)) 2"
  by (simp add: tick_def tick_rx_def)

lemma wait_rx:
  "line_in m = (n, c) # r \<or> bit (ustat m) 2 \<Longrightarrow>
   \<exists>m'. wait_stat 4 m = Some m' \<and> serial [] [] m m' \<and> bit (ustat m') 2"
proof (induction n arbitrary: m)
  case 0
  show ?case
  proof (cases "bit (ustat m) 2")
    case True
    then show ?thesis using wait_stat_set [of m 2] serial_tick tick_keeps_rc by auto
  next
    case False
    then have rc: "bit (ustat (tick m)) 2"
      using 0 by (auto simp: tick_def tick_rx_def bit_set_bit_iff)
    then have "wait_stat 4 m = Some (tick (tick m))"
      using wait_stat_clear [of m 2] wait_stat_set [of "tick m" 2] False by simp
    then show ?thesis
      using serial_trans [OF serial_tick serial_tick] tick_keeps_rc [OF rc] by auto
  qed
next
  case (Suc n)
  show ?case
  proof (cases "bit (ustat m) 2")
    case True
    then show ?thesis using wait_stat_set [of m 2] serial_tick tick_keeps_rc by auto
  next
    case False
    then have "line_in (tick m) = (n, c) # r"
      using Suc.prems by (auto simp: tick_def tick_rx_def)
    then obtain m' where m': "wait_stat 4 (tick m) = Some m'" "serial [] [] (tick m) m'"
        "bit (ustat m') 2"
      using Suc.IH by blast
    then show ?thesis
      using wait_stat_clear [of m 2] False serial_trans [OF serial_tick m'(2)] by auto
  qed
qed

lemma tick_idle: "line_in m = [] \<Longrightarrow> \<not> bit (ustat m) 2 \<Longrightarrow> line_in (tick m) = [] \<and> \<not> bit (ustat (tick m)) 2"
  by (simp add: tick_def tick_rx_def)

lemma wait_rx_None:
  assumes "pending m = []"
  shows "wait_stat 4 m = None"
proof (rule ccontr)
  assume "wait_stat 4 m \<noteq> None"
  then obtain m' where ret: "wait_stat 4 m = Some m'" by blast
  have "fl = 4 \<longrightarrow> pending m \<noteq> []" if "wait_stat fl m = Some m'" for fl m m'
  proof (rule wait_stat.raw_induct [where P = "\<lambda>fl m m'. fl = 4 \<longrightarrow> pending m \<noteq> []", OF _ that])
    fix f :: "u32 \<Rightarrow> machine \<Rightarrow> machine option" and fl m m'
    assume IH: "\<And>fl m m'. f fl m = Some m' \<Longrightarrow> fl = 4 \<longrightarrow> pending m \<noteq> []"
      and eq: "(case io_read USTAT m of (v, m') \<Rightarrow>
        if v AND fl = 0 then f fl m' else Some m') = Some m'"
    show "fl = 4 \<longrightarrow> pending m \<noteq> []"
      using eq IH [of fl "tick m"]
      by (auto simp: io_read_def word_bits split: if_splits) (auto simp: pending_def)
  qed
  then show False using ret assms by blast
qed

section \<open>The driver is a character device\<close>

lemma usart_putc_serial:
  "\<exists>m'. usart_putc ch m = Done () m' \<and> serial [] [ucast ch] m m'"
proof -
  let ?m = "io_write UDATA (ucast (ucast ch :: u8)) m"
  have "txleft ?m = Some (txlat m)" by simp
  then obtain m' where m': "wait_stat 16 ?m = Some m'" "serial [] [] ?m m'"
    using wait_tx by blast
  have "serial [] [ucast ch] m ?m"
    by (auto simp: serial_def pending_def core_def bit_unset_bit_iff)
  from serial_trans [OF this m'(2)] show ?thesis
    using m'(1) by (simp add: usart_putc_def)
qed

lemma ucast_and_255: "(x::u32) AND 255 = ucast (ucast x :: u8)"
proof -
  have "x AND 255 = take_bit 8 x"
    by (simp add: take_bit_eq_mask mask_eq_exp_minus_1)
  also have "\<dots> = ucast (ucast x :: u8)"
    by (rule bit_word_eqI) (auto simp: bit_simps)
  finally show ?thesis .
qed

lemma usart_getc_serial:
  assumes "pending m = c # cs"
  shows "\<exists>m'. usart_getc m = Done (ucast c) m' \<and> serial [c] [] m m'"
proof -
  have "(\<exists>n r. line_in m = (n, c) # r) \<or> bit (ustat m) 2"
    using assms by (auto simp: pending_def)
  then obtain n r where "line_in m = (n, c) # r \<or> bit (ustat m) 2" by blast
  then obtain m1 where m1: "wait_stat 4 m = Some m1" "serial [] [] m m1" "bit (ustat m1) 2"
    using wait_rx by blast
  let ?m2 = "m1\<lparr>ustat := ustat m1 AND NOT 0xf\<rparr>"
  have p1: "pending m1 = c # cs" using m1(2) assms by (simp add: serial_def)
  then have c: "c = ucast (udata m1)" using m1(3) by (simp add: pending_def)
  have "\<not> bit (ustat m1 AND NOT 0xf) 2"
    by (simp add: bit_simps)
  then have "serial [c] [] m1 ?m2"
    using m1(3) c by (simp add: serial_def pending_def core_def)
  from serial_trans [OF serial_trans [OF m1(2) this] serial_tick]
  have "serial [c] [] m (tick ?m2)" by simp
  then show ?thesis
    using m1(1) c by (simp add: usart_getc_def io_read_def ucast_and_255)
qed

lemma usart_getc_stuck: "pending m = [] \<Longrightarrow> usart_getc m = Stuck m"
  by (simp add: usart_getc_def wait_rx_None)

interpretation usart: char_device usart_putc usart_getc pending serial
proof unfold_locales
  show "serial [] [] s s" for s by simp
  show "serial (i @ i') (os @ os') s u" if "serial i os s t" "serial i' os' t u" for i i' os os' s t u
    using that by (rule serial_trans)
  show "\<exists>t. usart_putc ch s = Done () t \<and> serial [] [ucast ch] s t" for ch s
    by (rule usart_putc_serial)
  show "pending s = i @ pending t" if "serial i os s t" for i os s t
    using that by (rule serial_pending)
  show "\<exists>t. usart_getc s = Done (ucast c) t \<and> serial [c] [] s t" if "pending s = c # cs" for s c cs
    using that by (rule usart_getc_serial)
  show "\<exists>t. usart_getc s = Stuck t" if "pending s = []" for s
    using usart_getc_stuck [OF that] by blast
qed

end
