(* ===== verification/LineInput.thy ===== *)
theory LineInput
  imports Usart
begin

text \<open>
  \<open>usart_gets\<close>: reading an edited line into a buffer (\<open>CODE/bootloader/usart.c\<close>). The model
  works on the buffer as an array; \<open>edit\<close> is the line editor as a function on the line typed so
  far, and \<open>usart_gets\<close> is shown to implement it within the bounds of the buffer.
\<close>

section \<open>Definitions\<close>

lemma getc_less: "usart_getc m = Done v m' \<Longrightarrow> length (pending m') < length (pending m)"
  by (erule usart.getc_Done) simp

lemma putc_pending: "usart_putc ch m = Done v m' \<Longrightarrow> pending m' = pending m"
  using usart_putc_serial [of ch m] by (auto simp: serial_def)

lemma puts_pending: "usart_puts s m = Done v m' \<Longrightarrow> pending m' = pending m"
proof (cases s)
  case None
  then show "usart_puts s m = Done v m' \<Longrightarrow> pending m' = pending m" by (simp add: usart_puts_def)
next
  case (Some cs)
  have "puts_by usart_putc cs m = Done v m' \<Longrightarrow> pending m' = pending m"
    by (induction usart_putc cs m rule: puts_by.induct)
      (auto simp: andthen_Done_iff putc_pending split: if_splits)
  then show "usart_puts s m = Done v m' \<Longrightarrow> pending m' = pending m"
    using Some by (simp add: usart_puts_def)
qed

text \<open>The loop of control-U: one delete per character typed.\<close>

fun erase_line :: "nat \<Rightarrow> machine \<Rightarrow> (machine, unit) outcome" where
  "erase_line 0 m = Done () m"
| "erase_line (Suc i) m = andthen (usart_putc 0x7f m) (\<lambda>_ m. erase_line i m)"

lemma erase_pending: "erase_line i m = Done v m' \<Longrightarrow> pending m' = pending m"
  by (induction i m rule: erase_line.induct) (auto simp: andthen_Done_iff putc_pending)

definition put_nul :: "u8 list \<Rightarrow> nat \<Rightarrow> machine \<Rightarrow> (machine, u8 list) outcome" where
  "put_nul buf i m = (if i < length buf then Done (buf[i := 0]) m else Fault Out_Of_Bounds m)"

definition put_char :: "u8 list \<Rightarrow> nat \<Rightarrow> u8 \<Rightarrow> machine \<Rightarrow> (machine, u8 list) outcome" where
  "put_char buf i c m = (if i < length buf then Done (buf[i := c]) m else Fault Out_Of_Bounds m)"

lemma put_char_state: "put_char buf i c m = Done b m' \<Longrightarrow> m' = m"
  by (simp add: put_char_def split: if_splits)

function gets_loop :: "u8 list \<Rightarrow> nat \<Rightarrow> nat \<Rightarrow> machine \<Rightarrow> (machine, u8 list \<times> nat) outcome" where
  "gets_loop buf i sz m =
     andthen (usart_getc m) (\<lambda>v m. let chr = ucast v :: u8 in
       if chr = 10 \<or> chr = 13 then
         andthen (put_nul buf i m) (\<lambda>buf m.
         andthen (puts [CR, LF] m) (\<lambda>_ m. Done (buf, i) m))
       else if chr = 0x7f \<or> chr = 8 then
         (if i > 0 then andthen (usart_putc 0x7f m) (\<lambda>_ m. gets_loop buf (i - 1) sz m)
          else andthen (usart_putc 7 m) (\<lambda>_ m. gets_loop buf i sz m))
       else if chr = 21 then
         andthen (erase_line i m) (\<lambda>_ m. gets_loop buf 0 sz m)
       else if chr = 3 then
         andthen (puts (''<break>'' @ [CR, LF]) m) (\<lambda>_ m. gets_loop buf 0 sz m)
       else if i < sz - 1 then
         (if 0x1f < chr \<and> chr < 0x7f then
            andthen (put_char buf i chr m) (\<lambda>buf m.
            andthen (usart_putc (ucast chr) m) (\<lambda>_ m. gets_loop buf (Suc i) sz m))
          else gets_loop buf i sz m)
       else andthen (usart_putc 7 m) (\<lambda>_ m. gets_loop buf i sz m))"
  by pat_completeness auto
termination
  by (relation "measure (\<lambda>(buf, i, sz, m). length (pending m))")
    (auto dest!: getc_less putc_pending puts_pending erase_pending put_char_state)

declare gets_loop.simps [simp del]

definition usart_gets :: "u8 list \<Rightarrow> nat \<Rightarrow> machine \<Rightarrow> (machine, u8 list \<times> nat) outcome" where
  "usart_gets buf sz m = gets_loop buf 0 sz m"

section \<open>The line editor as a function\<close>

fun edit :: "nat \<Rightarrow> u8 list \<Rightarrow> u8 \<Rightarrow> u8 list" where
  "edit sz line c =
     (if c = 0x7f \<or> c = 8 then butlast line
      else if c = 21 \<or> c = 3 then []
      else if length line < sz - 1 \<and> 0x1f < c \<and> c < 0x7f then line @ [c]
      else line)"

fun echo :: "nat \<Rightarrow> u8 list \<Rightarrow> u8 \<Rightarrow> u8 list" where
  "echo sz line c =
     (if c = 0x7f \<or> c = 8 then (if line = [] then [7] else [0x7f])
      else if c = 21 then replicate (length line) 0x7f
      else if c = 3 then bytes (''<break>'' @ [CR, LF])
      else if length line < sz - 1 then (if 0x1f < c \<and> c < 0x7f then [c] else [])
      else [7])"

fun echoes :: "nat \<Rightarrow> u8 list \<Rightarrow> u8 list \<Rightarrow> u8 list" where
  "echoes sz line [] = bytes [CR, LF]"
| "echoes sz line (c # cs) = echo sz line c @ echoes sz (edit sz line c) cs"

declare edit.simps [simp del] echo.simps [simp del]

definition eol :: "u8 \<Rightarrow> bool" where
  "eol c \<longleftrightarrow> c = 10 \<or> c = 13"

lemma edit_bound: "length line < sz \<Longrightarrow> length (edit sz line c) < sz"
  by (auto simp: edit.simps)

lemma edit_nonzero: "0 \<notin> set line \<Longrightarrow> 0 \<notin> set (edit sz line c)"
  by (auto simp: edit.simps dest: in_set_butlastD)

section \<open>The loop implements the editor\<close>

text \<open>The buffer holds the line typed so far in its first cells.\<close>

definition holds :: "u8 list \<Rightarrow> u8 list \<Rightarrow> bool" where
  "holds buf line \<longleftrightarrow> length line \<le> length buf \<and> take (length line) buf = line"

lemma holds_Nil [simp]: "holds buf []"
  by (simp add: holds_def)

lemma holds_butlast: "holds buf line \<Longrightarrow> holds buf (butlast line)"
  unfolding holds_def
  by (metis diff_le_self le_trans length_butlast min.absorb1 take_take butlast_conv_take)

lemma holds_snoc: "holds buf line \<Longrightarrow> length line < length buf \<Longrightarrow> holds (buf[length line := c]) (line @ [c])"
  by (simp add: holds_def take_Suc_conv_app_nth)

lemma puts_serial: "0 \<notin> set (bytes s) \<Longrightarrow> \<exists>m'. puts s m = Done () m' \<and> serial [] (bytes s) m m'"
  using usart.puts_by_io [where cs = "bytes s" and rest = "[]" and s = m] by (simp add: usart_puts_def cstr_def)

lemma traffic_putc: "traffic [] [ucast ch] () (usart_putc ch m) m"
  using usart_putc_serial unfolding traffic_def .

lemma traffic_puts: "0 \<notin> set (bytes s) \<Longrightarrow> traffic [] (bytes s) () (puts s m) m"
  using puts_serial unfolding traffic_def .

lemma erase_serial: "\<exists>m'. erase_line i m = Done () m' \<and> serial [] (replicate i 0x7f) m m'"
proof (induction i arbitrary: m)
  case 0
  then show ?case by auto
next
  case (Suc i)
  obtain t where t: "usart_putc 0x7f m = Done () t" "serial [] [0x7f] m t"
    using usart_putc_serial [of "0x7f" m] by auto
  obtain u where u: "erase_line i t = Done () u" "serial [] (replicate i 0x7f) t u"
    using Suc by blast
  show ?case using t(1) u(1) serial_trans [OF t(2) u(2)] by auto
qed

text \<open>One character that does not end the line: the loop continues with the edited line.\<close>

lemma gets_step_char:
  assumes p: "pending m = c # cs" and c: "\<not> eol c" and 4: "c \<noteq> 0x7f" "c \<noteq> 8" "c \<noteq> 21" "c \<noteq> 3"
    and h: "holds buf line" and b: "length line < sz" "sz \<le> length buf"
  shows "\<exists>buf' m'. gets_loop buf (length line) sz m
        = gets_loop buf' (length (edit sz line c)) sz m'
      \<and> serial [c] (echo sz line c) m m' \<and> holds buf' (edit sz line c) \<and> length buf' = length buf"
proof -
  obtain m1 where m1: "usart_getc m = Done (ucast c) m1" "serial [c] [] m m1"
    using usart_getc_serial p by blast
  have put: "\<exists>m2. usart_putc ch m1 = Done () m2 \<and> serial [c] [ucast ch] m m2" for ch
    using usart_putc_serial [of ch m1] serial_trans [OF m1(2)] by fastforce
  obtain m7 where m7: "usart_putc 7 m1 = Done () m7" "serial [c] [7] m m7"
    using put [of 7] by auto
  obtain mc where mc: "usart_putc (ucast c) m1 = Done () mc" "serial [c] [c] m mc"
    using put [of "ucast c"] by auto
  note unf = gets_loop.simps [of buf "length line" sz m]
  show ?thesis
  proof (cases "length line < sz - 1")
    case True
    then have lt: "length line < length buf" using b by simp
    have keep: "holds (buf[length line := c]) (line @ [c])" "length (buf[length line := c]) = length buf"
      using holds_snoc [OF h lt] by simp_all
    show ?thesis
    proof (cases "0x1f < c \<and> c < 0x7f")
      case p: True
      have "gets_loop buf (length line) sz m
          = gets_loop (buf[length line := c]) (Suc (length line)) sz mc"
        using 4 True lt m1(1) mc(1) c p by (simp add: unf eol_def put_char_def)
      then show ?thesis
        using 4 True p mc(2) keep by (fastforce simp: edit.simps echo.simps)
    next
      case False
      then show ?thesis
        using 4 True m1 h c by (auto simp: unf edit.simps echo.simps eol_def)
    qed
  next
    case False
    then show ?thesis
      using 4 m1 m7 h c by (auto simp: unf edit.simps echo.simps eol_def)
  qed
qed

lemma gets_step_erase:
  assumes p: "pending m = c # cs" and c: "c = 0x7f \<or> c = 8" and h: "holds buf line"
  shows "\<exists>m'. gets_loop buf (length line) sz m = gets_loop buf (length (edit sz line c)) sz m'
      \<and> serial [c] (echo sz line c) m m' \<and> holds buf (edit sz line c)"
proof -
  obtain m1 where m1: "usart_getc m = Done (ucast c) m1" "serial [c] [] m m1"
    using usart_getc_serial p by blast
  show ?thesis
  proof (cases line rule: rev_cases)
    case Nil
    obtain m7 where m7: "usart_putc 7 m1 = Done () m7" "serial [c] [7] m m7"
      using usart_putc_serial [of 7 m1] serial_trans [OF m1(2)] by fastforce
    have "gets_loop buf 0 sz m = gets_loop buf 0 sz m7"
      using c m1(1) m7(1) by (auto simp: gets_loop.simps [of buf 0 sz m])
    then show ?thesis using c h Nil m7(2) by (auto simp: edit.simps echo.simps)
  next
    case (snoc ys y)
    obtain m127 where m127: "usart_putc 0x7f m1 = Done () m127" "serial [c] [0x7f] m m127"
      using usart_putc_serial [of "0x7f" m1] serial_trans [OF m1(2)] by fastforce
    have "gets_loop buf (Suc (length ys)) sz m = gets_loop buf (length ys) sz m127"
      using c m1(1) m127(1) by (auto simp: gets_loop.simps [of buf "Suc (length ys)" sz m])
    moreover have "holds buf ys" using holds_butlast [OF h] snoc by simp
    ultimately show ?thesis using c snoc m127(2) by (auto simp: edit.simps echo.simps)
  qed
qed

lemma gets_step:
  assumes p: "pending m = c # cs" and c: "\<not> eol c"
    and h: "holds buf line" and b: "length line < sz" "sz \<le> length buf"
  shows "\<exists>buf' m'. gets_loop buf (length line) sz m
        = gets_loop buf' (length (edit sz line c)) sz m'
      \<and> serial [c] (echo sz line c) m m' \<and> holds buf' (edit sz line c) \<and> length buf' = length buf"
proof -
  obtain m1 where m1: "usart_getc m = Done (ucast c) m1" "serial [c] [] m m1"
    using usart_getc_serial p by blast
  obtain mb where mb: "puts (''<break>'' @ [CR, LF]) m1 = Done () mb"
      "serial [c] (bytes (''<break>'' @ [CR, LF])) m mb"
    using puts_serial [of "''<break>'' @ [CR, LF]" m1] serial_trans [OF m1(2)] by fastforce
  obtain me where me: "erase_line (length line) m1 = Done () me"
      "serial [c] (replicate (length line) 0x7f) m me"
    using erase_serial [of "length line" m1] serial_trans [OF m1(2)] by fastforce
  note unf = gets_loop.simps [of buf "length line" sz m]
  consider "c = 0x7f \<or> c = 8" | "c = 21" | "c = 3"
    | "c \<noteq> 0x7f" "c \<noteq> 8" "c \<noteq> 21" "c \<noteq> 3" by blast
  then show ?thesis
  proof cases
    case 1
    from gets_step_erase [OF p this h] show ?thesis by blast
  next
    case 2
    then show ?thesis using m1 me c by (auto simp: unf edit.simps echo.simps eol_def)
  next
    case 3
    then show ?thesis using m1 mb c by (auto simp: unf edit.simps echo.simps eol_def)
  next
    case 4
    from gets_step_char [OF p c this h b] show ?thesis .
  qed
qed

lemma gets_end:
  assumes p: "pending m = c # cs" and c: "eol c"
    and b: "length line < length buf"
  shows "\<exists>m'. gets_loop buf (length line) sz m = Done (buf[length line := 0], length line) m'
      \<and> serial [c] (bytes [CR, LF]) m m'"
proof -
  obtain m1 where m1: "usart_getc m = Done (ucast c) m1" "serial [c] [] m m1"
    using usart_getc_serial p by blast
  obtain m2 where m2: "puts [CR, LF] m1 = Done () m2" "serial [c] (bytes [CR, LF]) m m2"
    using puts_serial [of "[CR, LF]" m1] serial_trans [OF m1(2)] by fastforce
  show ?thesis
    using m1(1) m2 c b by (auto simp: gets_loop.simps [of buf "length line" sz m] eol_def put_nul_def)
qed

lemma gets_loop_edit:
  assumes "pending m = cs @ e # rest" and "\<forall>c \<in> set cs. \<not> eol c" and "eol e"
    and "holds buf line" and "length line < sz" and "sz \<le> length buf"
  shows "\<exists>buf' m'. gets_loop buf (length line) sz m
        = Done (buf'[length (foldl (edit sz) line cs) := 0], length (foldl (edit sz) line cs)) m'
      \<and> serial (cs @ [e]) (echoes sz line cs) m m'
      \<and> holds buf' (foldl (edit sz) line cs) \<and> length buf' = length buf"
  using assms
proof (induction cs arbitrary: m buf line)
  case Nil
  then show ?case using gets_end [of m e rest line buf sz] by auto
next
  case (Cons c cs)
  obtain buf1 m1 where s1: "gets_loop buf (length line) sz m
        = gets_loop buf1 (length (edit sz line c)) sz m1"
      "serial [c] (echo sz line c) m m1" "holds buf1 (edit sz line c)" "length buf1 = length buf"
    using gets_step [of m c "cs @ e # rest" buf line sz] Cons.prems by auto
  have "pending m1 = cs @ e # rest" using s1(2) Cons.prems(1) by (simp add: serial_def)
  then obtain buf2 m2 where s2: "gets_loop buf1 (length (edit sz line c)) sz m1
        = Done (buf2[length (foldl (edit sz) (edit sz line c) cs) := 0],
            length (foldl (edit sz) (edit sz line c) cs)) m2"
      "serial (cs @ [e]) (echoes sz (edit sz line c) cs) m1 m2"
      "holds buf2 (foldl (edit sz) (edit sz line c) cs)" "length buf2 = length buf1"
    using Cons.IH [of m1 buf1 "edit sz line c"] Cons.prems s1 edit_bound by auto
  show ?case using s1 s2 serial_trans [OF s1(2) s2(2)] by auto
qed

lemma gets_loop_stuck:
  assumes "\<forall>c \<in> set cs. \<not> eol c" and "pending m = cs"
    and "holds buf line" and "length line < sz" and "sz \<le> length buf"
  shows "\<exists>m'. gets_loop buf (length line) sz m = Stuck m'"
  using assms
proof (induction cs arbitrary: m buf line)
  case Nil
  then show ?case using usart_getc_stuck [of m] by (auto simp: gets_loop.simps [of buf])
next
  case (Cons c cs)
  obtain buf1 m1 where s1: "gets_loop buf (length line) sz m
        = gets_loop buf1 (length (edit sz line c)) sz m1"
      "serial [c] (echo sz line c) m m1" "holds buf1 (edit sz line c)" "length buf1 = length buf"
    using gets_step [of m c cs buf line sz] Cons.prems by auto
  have "pending m1 = cs" using s1(2) Cons.prems(2) by (simp add: serial_def)
  then show ?case
    using Cons.IH [of m1 buf1 "edit sz line c"] Cons.prems s1 edit_bound by auto
qed

lemma first_eol:
  obtains "\<forall>c \<in> set xs. \<not> eol c"
  | cs e rest where "xs = cs @ e # rest" "\<forall>c \<in> set cs. \<not> eol c" "eol e"
  using split_list_first_prop [of xs eol] by blast

section \<open>What a caller may rely on\<close>

definition line_of :: "nat \<Rightarrow> u8 list \<Rightarrow> u8 list" where
  "line_of sz cs = foldl (edit sz) [] cs"

lemma foldl_edit_bound: "length line < sz \<Longrightarrow> length (foldl (edit sz) line cs) < sz"
  by (induction cs arbitrary: line) (simp_all add: edit_bound)

lemma foldl_edit_nonzero: "0 \<notin> set line \<Longrightarrow> 0 \<notin> set (foldl (edit sz) line cs)"
  by (induction cs arbitrary: line) (simp_all add: edit_nonzero)

lemma edit_printable: "\<forall>c \<in> set line. 0x1f < c \<and> c < 0x7f \<Longrightarrow> \<forall>c \<in> set (edit sz line d). 0x1f < c \<and> c < 0x7f"
  by (auto simp: edit.simps dest: in_set_butlastD)

lemma line_of_printable: "\<forall>c \<in> set (line_of sz cs). 0x1f < c \<and> c < 0x7f"
proof -
  have "\<forall>c \<in> set (foldl (edit sz) line cs). 0x1f < c \<and> c < 0x7f"
    if "\<forall>c \<in> set line. 0x1f < c \<and> c < 0x7f" for line
    using that
  proof (induction cs arbitrary: line)
    case Nil
    then show ?case by (simp only: foldl_Nil)
  next
    case (Cons d cs)
    show ?case unfolding foldl_Cons by (rule Cons.IH) (rule edit_printable [OF Cons.prems])
  qed
  from this [of "[]"] show ?thesis by (simp add: line_of_def)
qed

lemma line_of_bound: "0 < sz \<Longrightarrow> length (line_of sz cs) < sz"
  by (simp add: line_of_def foldl_edit_bound)

lemma line_of_nonzero: "0 \<notin> set (line_of sz cs)"
  by (simp add: line_of_def foldl_edit_nonzero)

lemma gets_ok:
  assumes "pending m = cs @ e # rest" and "\<forall>c \<in> set cs. \<not> eol c" and "eol e"
    and "0 < sz" and "sz \<le> length buf"
  shows "\<exists>tail m'. usart_gets buf sz m
        = Done (line_of sz cs @ 0 # tail, length (line_of sz cs)) m'
      \<and> serial (cs @ [e]) (echoes sz [] cs) m m'
      \<and> length (line_of sz cs @ 0 # tail) = length buf"
proof -
  let ?l = "line_of sz cs"
  have lt: "length ?l < length buf" using line_of_bound [of sz cs] assms(4,5) by simp
  obtain buf' m' where r: "usart_gets buf sz m = Done (buf'[length ?l := 0], length ?l) m'"
      "serial (cs @ [e]) (echoes sz [] cs) m m'" "holds buf' ?l" "length buf' = length buf"
    using gets_loop_edit [of m cs e rest buf "[]" sz] assms
    by (auto simp: usart_gets_def line_of_def)
  have "buf'[length ?l := 0] = ?l @ 0 # drop (Suc (length ?l)) buf'"
    using r(3,4) lt by (simp add: holds_def upd_conv_take_nth_drop)
  then show ?thesis using r lt by auto
qed

text \<open>C38: usart_gets on its buffer and index implements the line editor on lists of characters:
  the string it leaves, the length it returns, the echo and the characters it consumes are
  those of the abstract editor.\<close>

theorem gets_refines_editor:
  assumes "pending m = cs @ e # rest" and "\<forall>c \<in> set cs. \<not> eol c" and "eol e"
    and "0 < sz" and "sz \<le> length buf"
  shows "\<exists>buf' m'. usart_gets buf sz m = Done (buf', length (foldl (edit sz) [] cs)) m'
    \<and> c_str buf' = foldl (edit sz) [] cs \<and> length buf' = length buf
    \<and> pending m' = rest \<and> line_out m' = line_out m @ echoes sz [] cs \<and> core m' = core m"
proof -
  obtain rest' m' where r: "usart_gets buf sz m = Done (line_of sz cs @ 0 # rest', length (line_of sz cs)) m'"
    "serial (cs @ [e]) (echoes sz [] cs) m m'" "length (line_of sz cs @ 0 # rest') = length buf"
    using gets_ok [OF assms] by blast
  moreover have "c_str (line_of sz cs @ 0 # rest') = line_of sz cs" by (rule c_str_terminated) (rule line_of_nonzero)
  ultimately show ?thesis using assms(1) by (auto simp: line_of_def serial_def)
qed

theorem gets_refines_editor_witness:
  "\<exists>buf' m'. usart_gets (replicate 6 0) 6 (power_on [97, 98, 127, 99, 13, 100])
      = Done (buf', length (foldl (edit 6) [] [97, 98, 127, 99])) m'
    \<and> c_str buf' = foldl (edit 6) [] [97, 98, 127, 99] \<and> length buf' = length (replicate 6 (0 :: u8))
    \<and> pending m' = [100] \<and> line_out m' = line_out (power_on [97, 98, 127, 99, 13, 100]) @ echoes 6 [] [97, 98, 127, 99]
    \<and> core m' = core (power_on [97, 98, 127, 99, 13, 100])"
  by (rule gets_refines_editor [where e = 13]) (simp_all add: eol_def)

text \<open>The buffer after \<open>usart_gets\<close> is a C string of printable characters, whatever was in it.\<close>

definition line_buffer :: "nat \<Rightarrow> u8 list \<Rightarrow> nat \<Rightarrow> bool" where
  "line_buffer sz buf n \<longleftrightarrow> n < sz \<and> sz \<le> length buf \<and> length (c_str buf) = n
     \<and> list_all (\<lambda>c. 0x1f < c \<and> c < 0x7f) (c_str buf)"

text \<open>C39: Whatever arrives, and whatever the buffer held, usart_gets either waits for input or
  leaves a zero-terminated string of printable characters shorter than the size, of the
  length it returns.\<close>

theorem gets_well_formed:
  assumes "0 < sz" and "sz \<le> length buf"
  shows "(\<exists>m'. usart_gets buf sz m = Stuck m')
    \<or> (\<exists>buf' n m'. usart_gets buf sz m = Done (buf', n) m' \<and> line_buffer sz buf' n \<and> length buf' = length buf
      \<and> mem m' = mem m)"
proof (rule first_eol [of "pending m"])
  assume "\<forall>c \<in> set (pending m). \<not> eol c"
  then show ?thesis
    using gets_loop_stuck [of "pending m" m buf "[]" sz] assms by (simp add: usart_gets_def)
next
  fix cs e rest
  assume "pending m = cs @ e # rest" "\<forall>c \<in> set cs. \<not> eol c" "eol e"
  from gets_ok [OF this assms] obtain rest' m' where
    r: "usart_gets buf sz m = Done (line_of sz cs @ 0 # rest', length (line_of sz cs)) m'"
      "serial (cs @ [e]) (echoes sz [] cs) m m'" "length (line_of sz cs @ 0 # rest') = length buf"
    by blast
  have "c_str (line_of sz cs @ 0 # rest') = line_of sz cs" by (rule c_str_terminated) (rule line_of_nonzero)
  then have "line_buffer sz (line_of sz cs @ 0 # rest') (length (line_of sz cs))"
    using line_of_bound [OF assms(1), of cs] line_of_printable [of sz cs] assms(2) r(3)
    by (simp add: line_buffer_def list_all_iff)
  then show ?thesis using r serial_mem [OF r(2)] by blast
qed

theorem gets_well_formed_witness:
  "(\<exists>m'. usart_gets (replicate 4 0xff) 4 (power_on [104, 105]) = Stuck m')
    \<or> (\<exists>buf' n m'. usart_gets (replicate 4 0xff) 4 (power_on [104, 105]) = Done (buf', n) m' \<and> line_buffer 4 buf' n
      \<and> length buf' = length (replicate 4 (0xff :: u8)) \<and> mem m' = mem (power_on [104, 105]))"
  by (rule gets_well_formed) simp_all

text \<open>A line of printable characters that fits is typed as it is.\<close>

lemma line_of_plain:
  assumes "\<forall>c \<in> set cs. 0x1f < c \<and> c < 0x7f" and "length cs < sz"
  shows "line_of sz cs = cs"
proof -
  have "length line + length cs < sz \<Longrightarrow> foldl (edit sz) line cs = line @ cs" for line
    using assms(1)
    by (induction cs arbitrary: line) (auto simp: edit.simps)
  from this [of "[]"] show ?thesis using assms(2) by (simp add: line_of_def)
qed

end
