(* ===== verification/Util.thy ===== *)
theory Util
  imports LineInput
begin

text \<open>
  \<open>CODE/bootloader/util.c\<close>: parsing a hexadecimal number out of a command line, printing one
  on the serial line, and reading one from it. Printing and parsing are inverse to each other.
\<close>

section \<open>parsehex\<close>

text \<open>A pointer into a character array is the list of the characters from it on; \<open>None\<close> is the
  undefined behaviour of reading past the end of the array.\<close>

fun skip_space :: "u8 list \<Rightarrow> u8 list option" where
  "skip_space [] = None"
| "skip_space (c # cs) = (if is_space c then skip_space cs else Some (c # cs))"

fun parsehex_digits :: "u32 \<Rightarrow> u8 list \<Rightarrow> (u32 \<times> u8 list) option" where
  "parsehex_digits v [] = None"
| "parsehex_digits v (c # cs) =
     (if is_xdigit c then
        (let v = push_bit 4 v in
         let v = (if is_digit c then v OR (ucast c - 48)
                  else v OR (ucast (to_lower c) - 97 + 10)) in
         parsehex_digits v cs)
      else Some (v, c # cs))"

definition parsehex :: "u8 list \<Rightarrow> (u32 \<times> u8 list) option" where
  "parsehex s = (case skip_space s of None \<Rightarrow> None | Some s \<Rightarrow> parsehex_digits 0 s)"

lemma skip_space_append:
  "\<forall>c \<in> set sp. is_space c \<Longrightarrow> \<not> is_space d \<Longrightarrow> skip_space (sp @ d # cs) = Some (d # cs)"
  by (induction sp) simp_all

lemma skip_space_terminated: "0 \<in> set s \<Longrightarrow> \<exists>t. skip_space s = Some t \<and> 0 \<in> set t"
  by (induction s rule: skip_space.induct) (auto simp: is_space_def)

lemma parsehex_digits_append:
  "\<forall>c \<in> set ds. is_xdigit c \<Longrightarrow> \<not> is_xdigit d \<Longrightarrow>
   parsehex_digits v (ds @ d # cs) = Some (foldl hexstep v ds, d # cs)"
  by (induction ds arbitrary: v) (auto simp: Let_def hexstep_def hexval_def)

lemma parsehex_digits_terminated:
  "0 \<in> set s \<Longrightarrow> \<exists>v' t. parsehex_digits v s = Some (v', t) \<and> 0 \<in> set t"
  by (induction v s rule: parsehex_digits.induct) (auto simp: Let_def)

lemma parsehex_append:
  assumes "\<forall>c \<in> set sp. is_space c" and "\<forall>c \<in> set ds. is_xdigit c \<and> \<not> is_space c"
    and "\<not> is_xdigit d" and "ds \<noteq> [] \<or> \<not> is_space d"
  shows "parsehex (sp @ ds @ d # cs) = Some (hexnum ds, d # cs)"
proof -
  have "skip_space (sp @ ds @ d # cs) = Some (ds @ d # cs)"
    using assms skip_space_append [of sp "hd (ds @ d # cs)" "tl (ds @ d # cs)"]
    by (cases ds) auto
  then show ?thesis
    using parsehex_digits_append [of ds d 0 cs] assms by (simp add: parsehex_def hexnum_def)
qed

lemma parsehex_terminated: "0 \<in> set s \<Longrightarrow> \<exists>v t. parsehex s = Some (v, t) \<and> 0 \<in> set t"
proof -
  assume "0 \<in> set s"
  then obtain s' where "skip_space s = Some s'" "0 \<in> set s'" using skip_space_terminated by blast
  then show ?thesis using parsehex_digits_terminated [of s' 0] by (auto simp: parsehex_def)
qed

section \<open>printhex\<close>

definition hexchar :: "u32 \<Rightarrow> u8" where
  "hexchar v = (let c = ucast (v AND 0x0f) + 48 in if c > 57 then c + (97 - 48 - 10) else c)"

text \<open>The loop with \<open>k = n - i\<close> digits to go: the next digit goes to \<open>buf[n-1-i]\<close>.\<close>

fun printhex_loop :: "nat \<Rightarrow> u32 \<Rightarrow> u8 list \<Rightarrow> u8 list" where
  "printhex_loop 0 v buf = buf"
| "printhex_loop (Suc k) v buf = printhex_loop k (drop_bit 4 v) (buf[k := hexchar v])"

definition printhex :: "u32 \<Rightarrow> int \<Rightarrow> machine \<Rightarrow> (machine, unit) outcome" where
  "printhex v n m = (let n = (if n < 1 \<or> n > 8 then 8 else n) in
     usart_puts (Some (printhex_loop (nat n) v (replicate 9 0))) m)"

lemma hexchar_all:
  "list_all (\<lambda>d. (let c = d + 48 in if c > 57 then c + (97 - 48 - 10) else c) = hexdig 97 d)
     [0, 1, 2, 3, 4, 5, 6, 7, 8, 9, 10, 11, 12, 13, 14, 15 :: u8]"
  by code_simp

lemma hexchar_hexdig: "hexchar v = hexdig 97 (ucast (take_bit 4 v))"
proof -
  have "v AND 0x0f = take_bit 4 v" by (simp add: take_bit_eq_mask mask_eq_exp_minus_1)
  moreover have "(ucast (take_bit 4 v) :: u8) \<in> set [0, 1, 2, 3, 4, 5, 6, 7, 8, 9, 10, 11, 12, 13, 14, 15]"
    by (rule nibble_cases) simp
  ultimately show ?thesis
    using hexchar_all unfolding list_all_iff hexchar_def by (metis (no_types))
qed

lemma printhex_loop_eq:
  "k \<le> length buf \<Longrightarrow> printhex_loop k v buf = hexstr 97 k v @ drop k buf"
proof (induction k v buf rule: printhex_loop.induct)
  case (1 v buf)
  then show ?case by simp
next
  case (2 k v buf)
  then show ?case
    by (simp add: hexchar_hexdig drop_update_swap Cons_nth_drop_Suc [symmetric])
qed

lemma printhex_serial:
  assumes "1 \<le> n" and "n \<le> 8"
  shows "\<exists>m'. printhex v (int n) m = Done () m' \<and> serial [] (hexstr 97 n v) m m'"
proof -
  have "printhex_loop n v (replicate 9 0) = hexstr 97 n v @ 0 # replicate (8 - n) 0"
    using assms by (simp add: printhex_loop_eq Suc_diff_le flip: replicate_Suc)
  moreover have "0 \<notin> set (hexstr 97 n v)" using set_hexstr [of 97 n v] by auto
  ultimately show ?thesis
    using usart.puts_by_io [where cs = "hexstr 97 n v" and rest = "replicate (8 - n) 0" and s = m] assms
    by (simp add: printhex_def usart_puts_def)
qed

section \<open>gethex\<close>

definition gethex :: "nat \<Rightarrow> machine \<Rightarrow> (machine, u32) outcome" where
  "gethex n m = gethex_by usart_getc n 0 m"

lemma gethex_serial:
  assumes "pending m = ds @ rest" and "length ds = n" and "\<forall>c \<in> set ds. is_xdigit c"
  shows "\<exists>m'. gethex n m = Done (hexnum ds) m' \<and> serial ds [] m m'"
  using usart.gethex_by_io [OF assms(1,2), of 0] gethex_fold [OF assms(3), of 0]
  by (simp add: gethex_def hexnum_def)

end
