(* ===== verification/SrecText.thy ===== *)
theory SrecText
  imports Platform
begin

text \<open>
  Motorola S-records as text, and the memory image a list of records describes. This is the
  specification the receiver of the bootloader and the host converters are measured against.
\<close>

section \<open>Records\<close>

text \<open>
  \<open>Data t a ds rst\<close> is an \<open>S\<close>\<open>t\<close> record (\<open>t\<close> is 1, 2 or 3: an address of \<open>t + 1\<close> bytes) with
  data bytes \<open>ds\<close>; \<open>rst\<close> is the rest of the line (check byte, carriage return). \<open>End t a rst\<close> is the
  matching end record (S9, S8 or S7) and \<open>Other c rst\<close> a record of another type.
\<close>

datatype srec =
    Data nat u32 "u8 list" "u8 list"
  | End nat u32 "u8 list"
  | Other u8 "u8 list"

definition hex_bytes :: "u8 list \<Rightarrow> u8 list" where
  "hex_bytes ds = concat (map (\<lambda>d. hexstr 65 2 (ucast d)) ds)"

fun srec_body :: "srec \<Rightarrow> u8 list" where
  "srec_body (Data t a ds rst) = [83, 48 + of_nat t] @ hexstr 65 2 (of_nat (length ds + t + 2))
     @ hexstr 65 (2 * t + 2) a @ hex_bytes ds @ rst"
| "srec_body (End t a rst) = [83, 58 - of_nat t] @ hexstr 65 2 (of_nat (t + 2))
     @ hexstr 65 (2 * t + 2) a @ rst"
| "srec_body (Other c rst) = [83, c] @ rst"

definition srec_line :: "srec \<Rightarrow> u8 list" where
  "srec_line r = srec_body r @ [10]"

definition srec_text :: "srec list \<Rightarrow> u8 list" where
  "srec_text rs = concat (map srec_line rs)"

text \<open>The address field holds \<open>t + 1\<close> bytes.\<close>

definition field :: "nat \<Rightarrow> u32 \<Rightarrow> u32" where
  "field t a = take_bit (8 * t + 8) a"

fun wf_srec :: "srec \<Rightarrow> bool" where
  "wf_srec (Data t a ds rst) \<longleftrightarrow> t \<in> {1, 2, 3} \<and> length ds + t + 2 < 256 \<and> 10 \<notin> set rst"
| "wf_srec (End t a rst) \<longleftrightarrow> t \<in> {1, 2, 3} \<and> 10 \<notin> set rst"
| "wf_srec (Other c rst) \<longleftrightarrow> c \<notin> {49, 50, 51, 55, 56, 57, 10} \<and> 10 \<notin> set rst"

section \<open>The image of a file\<close>

fun store_bytes :: "u32 \<Rightarrow> u8 list \<Rightarrow> (u32 \<Rightarrow> u8) \<Rightarrow> (u32 \<Rightarrow> u8)" where
  "store_bytes a [] f = f"
| "store_bytes a (d # ds) f = store_bytes (a + 1) ds (f(a := d))"

fun srec_mem :: "srec \<Rightarrow> (u32 \<Rightarrow> u8) \<Rightarrow> (u32 \<Rightarrow> u8)" where
  "srec_mem (Data t a ds rst) f = store_bytes (field t a) ds f"
| "srec_mem _ f = f"

fun srec_start :: "srec \<Rightarrow> u32 \<Rightarrow> u32" where
  "srec_start (End t a rst) s = field t a"
| "srec_start _ s = s"

definition file_mem :: "srec list \<Rightarrow> (u32 \<Rightarrow> u8) \<Rightarrow> (u32 \<Rightarrow> u8)" where
  "file_mem rs f = fold srec_mem rs f"

definition file_start :: "srec list \<Rightarrow> u32 \<Rightarrow> u32" where
  "file_start rs s = fold srec_start rs s"

text \<open>Every data byte goes to program ROM or RAM.\<close>

fun loadable :: "srec \<Rightarrow> bool" where
  "loadable (Data t a ds rst) \<longleftrightarrow> list_all (\<lambda>i. writable (field t a + of_nat i)) [0..<length ds]"
| "loadable _ \<longleftrightarrow> True"

lemma store_bytes_lookup:
  assumes "length ds < 2 ^ 32"
  shows "store_bytes a ds f x = (if unat (x - a) < length ds then ds ! unat (x - a) else f x)"
  using assms
proof (induction ds arbitrary: a f)
  case Nil
  then show ?case by simp
next
  case (Cons d ds)
  have IH: "store_bytes a (d # ds) f x = (if unat (x - a - 1) < length ds
      then ds ! unat (x - a - 1) else (f(a := d)) x)"
    using Cons by (simp add: diff_diff_eq)
  show ?case
  proof (cases "x = a")
    case True
    have "unat (- 1 :: u32) = 2 ^ 32 - 1" by (simp add: unsigned_minus_1_eq_mask mask_eq_exp_minus_1)
    then show ?thesis using IH True Cons.prems by simp
  next
    case False
    then have "unat (x - a) = Suc (unat (x - a - 1))"
      using unat_minus_one [of "x - a"] unat_gt_0 [of "x - a"] by simp
    then show ?thesis using IH False by simp
  qed
qed

lemma hex_bytes_Nil [simp]: "hex_bytes [] = []"
  by (simp add: hex_bytes_def)

lemma hex_bytes_Cons [simp]: "hex_bytes (d # ds) = hexstr 65 2 (ucast d) @ hex_bytes ds"
  by (simp add: hex_bytes_def)

lemma hexnum_byte [simp]: "hexnum (hexstr 65 2 (ucast (d::u8))) = ucast d"
proof -
  have "hexnum (hexstr 65 2 (ucast d)) = take_bit 8 (ucast d)"
    by (simp add: hexnum_hexstr)
  also have "\<dots> = ucast d" by (rule bit_word_eqI) (auto simp: bit_simps dest: bit_imp_le_length)
  finally show ?thesis .
qed

lemma hexnum_field: "hexnum (hexstr 65 (2 * t + 2) a) = field t a"
  using hexnum_hexstr [of 65 "2 * t + 2" a] by (simp add: field_def add.commute del: hexstr.simps)

end
