(* ===== verification/BootUpload.thy ===== *)
theory BootUpload
  imports Util SrecText
begin

text \<open>
  The S-record receiver of the bootloader (the upload loop in \<open>main\<close> of
  \<open>CODE/bootloader/bootloader.c\<close>): one iteration reads a line of the file from the serial line,
  patches its data bytes into memory word by word and acknowledges it. The theory defines the
  text of S-records and shows that receiving a file leaves exactly the memory image the file
  describes.
\<close>

section \<open>The receiver\<close>

text \<open>\<open>while ((c = usart_getc()) != '\n');\<close>\<close>

function skip_line :: "machine \<Rightarrow> (machine, unit) outcome" where
  "skip_line m = andthen (usart_getc m) (\<lambda>v m.
     let c = ucast v :: u8 in if c \<noteq> 10 then skip_line m else Done () m)"
  by pat_completeness auto
termination
  by (relation "measure (\<lambda>m. length (pending m))") (auto dest: getc_less)

declare skip_line.simps [simp del]

text \<open>Patch the byte at address \<open>v\<close> in the word that contains it.\<close>

definition patch_byte :: "u32 \<Rightarrow> u32 \<Rightarrow> u32 \<Rightarrow> u32" where
  "patch_byte v byte word =
     (if v AND 3 = 0 then (word AND NOT 0xff) OR byte
      else if v AND 3 = 1 then (word AND NOT 0xff00) OR push_bit 8 byte
      else if v AND 3 = 2 then (word AND NOT 0xff0000) OR push_bit 16 byte
      else if v AND 3 = 3 then (word AND NOT 0xff000000) OR push_bit 24 byte
      else word)"

text \<open>The loop over the data bytes with \<open>n = count - i\<close> to go.\<close>

fun store_data :: "nat \<Rightarrow> u32 \<Rightarrow> machine \<Rightarrow> (machine, unit) outcome" where
  "store_data 0 v m = Done () m"
| "store_data (Suc n) v m =
     (let boun = boundary v in
      andthen (gethex 2 m) (\<lambda>byte m.
      andthen (load32 boun m) (\<lambda>word m.
      andthen (store32 boun (patch_byte v byte word) m) (\<lambda>_ m.
      store_data n (v + 1) m))))"

text \<open>Types 1, 2, 3: a data record. The count includes the address and the check byte.\<close>

definition data_record :: "u8 \<Rightarrow> machine \<Rightarrow> (machine, unit) outcome" where
  "data_record c m =
     andthen (gethex 2 m) (\<lambda>n m.
     andthen (gethex (if c = 49 then 4 else if c = 50 then 6 else 8) m) (\<lambda>v m.
     let count = n - (if c = 49 then 3 else if c = 50 then 4 else 5) in
     andthen (store_data (unat count) v m) (\<lambda>_ m. skip_line m)))"

text \<open>Types 7, 8, 9: the end record with the start address.\<close>

definition end_record :: "u8 \<Rightarrow> machine \<Rightarrow> (machine, u32) outcome" where
  "end_record c m =
     andthen (gethex 2 m) (\<lambda>_ m.
     andthen (gethex (if c = 55 then 8 else if c = 56 then 6 else 4) m) (\<lambda>v m.
     andthen (skip_line m) (\<lambda>_ m. Done v m)))"

text \<open>After the letter S: the new start address of the application.\<close>

definition s_record :: "u32 \<Rightarrow> machine \<Rightarrow> (machine, u32) outcome" where
  "s_record app m =
     andthen (usart_getc m) (\<lambda>v m. let c = ucast v :: u8 in
       if c = 49 \<or> c = 50 \<or> c = 51 then andthen (data_record c m) (\<lambda>_ m. Done app m)
       else if c = 55 \<or> c = 56 \<or> c = 57 then end_record c m
       else andthen (skip_line m) (\<lambda>_ m. Done app m))"

definition start_app :: "u32 \<Rightarrow> machine \<Rightarrow> (machine, 'a) outcome" where
  "start_app app m = Jumped app (io_write POUT 0 (io_write UBAUD 0 m))"

definition toggle_led :: "machine \<Rightarrow> machine" where
  "toggle_led m = (case io_read POUT m of (v, m) \<Rightarrow> io_write POUT (v XOR 1) m)"

text \<open>One iteration; the second component tells whether the loop is left by \<open>#\<close>.\<close>

definition upload_iter :: "u32 \<Rightarrow> machine \<Rightarrow> (machine, u32 \<times> bool) outcome" where
  "upload_iter app m =
     andthen (usart_getc (toggle_led m)) (\<lambda>v m. let c = ucast v :: u8 in
       if c = 83 then
         andthen (s_record app m) (\<lambda>app m.
         andthen (puts [CHR ''?'', LF] m) (\<lambda>_ m. Done (app, False) m))
       else if c = 74 then start_app app m
       else if c = 35 then Done (app, True) m
       else andthen (puts [CHR ''?'', LF] m) (\<lambda>_ m. Done (app, False) m))"

partial_function (option) upload_loop :: "u32 \<Rightarrow> machine \<Rightarrow> (machine, u32) outcome option" where
  "upload_loop app m = (case upload_iter app m of
       Done p m \<Rightarrow> (if snd p then Some (Done (fst p) m) else upload_loop (fst p) m)
     | Stuck m \<Rightarrow> Some (Stuck m)
     | Fault e m \<Rightarrow> Some (Fault e m)
     | Jumped a m \<Rightarrow> Some (Jumped a m))"

section \<open>Patching a word is storing a byte\<close>

lemma patch_lane:
  fixes b :: u8 and w :: u32
  shows "ucast ((w AND NOT 0xff) OR ucast b) = b"
    "ucast (drop_bit 8 ((w AND NOT 0xff) OR ucast b)) = (ucast (drop_bit 8 w) :: u8)"
    "ucast (drop_bit 16 ((w AND NOT 0xff) OR ucast b)) = (ucast (drop_bit 16 w) :: u8)"
    "ucast (drop_bit 24 ((w AND NOT 0xff) OR ucast b)) = (ucast (drop_bit 24 w) :: u8)"
    "ucast ((w AND NOT 0xff00) OR push_bit 8 (ucast b)) = (ucast w :: u8)"
    "ucast (drop_bit 8 ((w AND NOT 0xff00) OR push_bit 8 (ucast b))) = b"
    "ucast (drop_bit 16 ((w AND NOT 0xff00) OR push_bit 8 (ucast b))) = (ucast (drop_bit 16 w) :: u8)"
    "ucast (drop_bit 24 ((w AND NOT 0xff00) OR push_bit 8 (ucast b))) = (ucast (drop_bit 24 w) :: u8)"
    "ucast ((w AND NOT 0xff0000) OR push_bit 16 (ucast b)) = (ucast w :: u8)"
    "ucast (drop_bit 8 ((w AND NOT 0xff0000) OR push_bit 16 (ucast b))) = (ucast (drop_bit 8 w) :: u8)"
    "ucast (drop_bit 16 ((w AND NOT 0xff0000) OR push_bit 16 (ucast b))) = b"
    "ucast (drop_bit 24 ((w AND NOT 0xff0000) OR push_bit 16 (ucast b))) = (ucast (drop_bit 24 w) :: u8)"
    "ucast ((w AND NOT 0xff000000) OR push_bit 24 (ucast b)) = (ucast w :: u8)"
    "ucast (drop_bit 8 ((w AND NOT 0xff000000) OR push_bit 24 (ucast b))) = (ucast (drop_bit 8 w) :: u8)"
    "ucast (drop_bit 16 ((w AND NOT 0xff000000) OR push_bit 24 (ucast b))) = (ucast (drop_bit 16 w) :: u8)"
    "ucast (drop_bit 24 ((w AND NOT 0xff000000) OR push_bit 24 (ucast b))) = b"
  by (rule bit_word_eqI; auto simp: lane_masks bit_simps dest: bit_imp_le_length)+

lemma patch_byte_set_word:
  "set_word f (boundary v) (patch_byte v (ucast b) (mem_word f (boundary v))) = f(v := b)"
proof -
  define a where "a = boundary v"
  define w where "w = mem_word f a"
  note w = mem_word_byte [of f a, folded w_def]
  consider "v = a" "v AND 3 = 0" | "v = a + 1" "v AND 3 = 1" | "v = a + 2" "v AND 3 = 2" | "v = a + 3" "v AND 3 = 3"
    using and_3_cases [of v] align_split [of v] unfolding a_def by (metis add.right_neutral)
  then have "set_word f a (patch_byte v (ucast b) w) = f(v := b)"
  proof cases
    case 1
    have e: "patch_byte v (ucast b) w = (w AND NOT 0xff) OR ucast b"
      using 1(2) by (simp add: patch_byte_def)
    show ?thesis
      unfolding e set_word_lanes [OF patch_lane(1-4) [of w b], unfolded w] using 1(1) by (auto simp: fun_eq_iff)
  next
    case 2
    have e: "patch_byte v (ucast b) w = (w AND NOT 0xff00) OR push_bit 8 (ucast b)"
      using 2(2) by (simp add: patch_byte_def)
    show ?thesis
      unfolding e set_word_lanes [OF patch_lane(5-8) [of w b], unfolded w] using 2(1) by (auto simp: fun_eq_iff)
  next
    case 3
    have e: "patch_byte v (ucast b) w = (w AND NOT 0xff0000) OR push_bit 16 (ucast b)"
      using 3(2) by (simp add: patch_byte_def)
    show ?thesis
      unfolding e set_word_lanes [OF patch_lane(9-12) [of w b], unfolded w] using 3(1) by (auto simp: fun_eq_iff)
  next
    case 4
    have e: "patch_byte v (ucast b) w = (w AND NOT 0xff000000) OR push_bit 24 (ucast b)"
      using 4(2) by (simp add: patch_byte_def)
    show ?thesis
      unfolding e set_word_lanes [OF patch_lane(13-16) [of w b], unfolded w] using 4(1) by (auto simp: fun_eq_iff)
  qed
  then show ?thesis by (simp add: a_def w_def)
qed

section \<open>Receiving one record\<close>

lemma skip_line_serial:
  assumes "pending m = cs @ 10 # rest" and "10 \<notin> set cs"
  shows "\<exists>m'. skip_line m = Done () m' \<and> serial (cs @ [10]) [] m m'"
  using assms
proof (induction cs arbitrary: m)
  case Nil
  then obtain m1 where "usart_getc m = Done (ucast (10::u8)) m1" "serial [10] [] m m1"
    using usart_getc_serial [of m 10 rest] by auto
  then show ?case by (simp add: skip_line.simps [of m])
next
  case (Cons c cs)
  then obtain m1 where m1: "usart_getc m = Done (ucast c) m1" "serial [c] [] m m1"
    using usart_getc_serial [of m c "cs @ 10 # rest"] by auto
  have "pending m1 = cs @ 10 # rest" using m1(2) Cons.prems(1) by (simp add: serial_def)
  then obtain m2 where m2: "skip_line m1 = Done () m2" "serial (cs @ [10]) [] m1 m2"
    using Cons.IH Cons.prems(2) by auto
  show ?case
    using m1(1) m2(1) Cons.prems(2) serial_trans [OF m1(2) m2(2)]
    by (auto simp: skip_line.simps [of m])
qed

text \<open>Effect of storing data: characters are consumed and memory changes, nothing else.\<close>

definition loads :: "u8 list \<Rightarrow> ((u32 \<Rightarrow> u8) \<Rightarrow> (u32 \<Rightarrow> u8)) \<Rightarrow> machine \<Rightarrow> machine \<Rightarrow> bool" where
  "loads i f m n \<longleftrightarrow> pending m = i @ pending n \<and> line_out n = line_out m
     \<and> core n = (core m)\<lparr>mem := f (mem m)\<rparr>"

lemma loads_serial: "serial i [] m n \<Longrightarrow> loads i (\<lambda>f. f) m n"
  by (simp add: loads_def serial_def core_def)

lemma loads_mem: "loads i f m n \<Longrightarrow> mem n = f (mem m)"
proof -
  assume "loads i f m n"
  then have "core n = (core m)\<lparr>mem := f (mem m)\<rparr>" by (simp add: loads_def)
  then have "mem (core n) = mem ((core m)\<lparr>mem := f (mem m)\<rparr>)" by (rule arg_cong)
  then show ?thesis by simp
qed

lemma loads_trans:
  assumes "loads i f m n" and "loads i' g n k"
  shows "loads (i @ i') (\<lambda>h. g (f h)) m k"
  using assms loads_mem [OF assms(1)] by (simp add: loads_def)

lemma loads_pending: "loads i f m n \<Longrightarrow> pending m = i @ pending n"
  by (simp add: loads_def)

lemma store_byte:
  assumes "writable v"
  shows "andthen (load32 (boundary v) m) (\<lambda>w m.
      store32 (boundary v) (patch_byte v (ucast b) w) m) = Done () (m\<lparr>mem := (mem m)(v := b)\<rparr>)"
proof -
  have "region v \<noteq> 15" using assms by (auto simp: writable_def)
  then show ?thesis
    using assms by (simp add: load32_mem store32_mem patch_byte_set_word)
qed

lemma gethex_loads:
  assumes "pending m = hexstr 65 n a @ rest"
  shows "\<exists>m'. gethex n m = Done (hexnum (hexstr 65 n a)) m' \<and> loads (hexstr 65 n a) (\<lambda>f. f) m m'"
  using gethex_serial [OF assms] set_hexstr [of 65 n a] loads_serial by fastforce

lemma gethex_field:
  assumes "pending m = hexstr 65 (2 * t + 2) a @ rest"
  shows "\<exists>m'. gethex (2 * t + 2) m = Done (field t a) m' \<and> loads (hexstr 65 (2 * t + 2) a) (\<lambda>f. f) m m'"
  using gethex_loads [OF assms] unfolding hexnum_field .

lemma srec_mem_eqs:
  "srec_mem (Data t a ds rst) = store_bytes (field t a) ds"
  "srec_mem (End t a rst) = (\<lambda>f. f)" "srec_mem (Other c rst) = (\<lambda>f. f)"
  by (simp_all add: fun_eq_iff)

lemma store_data_loads:
  assumes "pending m = hex_bytes ds @ rest"
    and "list_all (\<lambda>i. writable (v + of_nat i)) [0..<length ds]"
  shows "\<exists>m'. store_data (length ds) v m = Done () m' \<and> loads (hex_bytes ds) (store_bytes v ds) m m'"
  using assms
proof (induction ds arbitrary: v m)
  case Nil
  then show ?case using loads_serial [OF serial_refl] by fastforce
next
  case (Cons d ds)
  obtain m1 where m1: "gethex 2 m = Done (ucast d) m1" "loads (hexstr 65 2 (ucast d)) (\<lambda>f. f) m m1"
    using gethex_loads [of m 2 "ucast d" "hex_bytes ds @ rest"] Cons.prems(1)
    by (auto simp del: hexstr.simps)
  let ?m2 = "m1\<lparr>mem := (mem m1)(v := d)\<rparr>"
  have w: "writable v" and ws: "list_all (\<lambda>i. writable (v + 1 + of_nat i)) [0..<length ds]"
    using Cons.prems(2) by (auto simp: list_all_iff upt_conv_Cons add.assoc simp del: upt_Suc
        dest: bspec [where x = "Suc _"])
  have l2: "loads [] (\<lambda>f. f(v := d)) m1 ?m2" by (simp add: loads_def)
  have "pending ?m2 = hex_bytes ds @ rest"
    using m1(2) Cons.prems(1) by (simp add: loads_def)
  then obtain m3 where m3: "store_data (length ds) (v + 1) ?m2 = Done () m3"
      "loads (hex_bytes ds) (store_bytes (v + 1) ds) ?m2 m3"
    using Cons.IH ws by blast
  have "store_data (length (d # ds)) v m = Done () m3"
    using m1(1) m3(1) store_byte [OF w, of m1 d]
    by (simp add: andthen_assoc [symmetric])
  then show ?case
    using loads_trans [OF loads_trans [OF m1(2) l2] m3(2)] by auto
qed

lemma skip_loads:
  assumes "pending m = cs @ 10 # rest" and "10 \<notin> set cs"
  shows "\<exists>m'. skip_line m = Done () m' \<and> loads (cs @ [10]) (\<lambda>f. f) m m'"
  using skip_line_serial [OF assms] loads_serial by blast

text \<open>The count byte minus the bytes of address and check is the number of data bytes.\<close>

lemma count_data:
  assumes "length ds + t + 2 < 256"
  shows "unat (hexnum (hexstr 65 2 (of_nat (length ds + t + 2))) - of_nat (t + 2)) = length ds"
proof -
  have "(of_nat n :: u32) = ucast (of_nat n :: u8)" if "n < 256" for n
    using that by (simp add: word_unat_eq_iff unat_of_nat take_bit_nat_eq_self)
  from this [OF assms] have "hexnum (hexstr 65 2 (of_nat (length ds + t + 2))) = of_nat (length ds + t + 2)"
    by (simp only: hexnum_byte)
  then have "hexnum (hexstr 65 2 (of_nat (length ds + t + 2))) - of_nat (t + 2) = of_nat (length ds)"
    by (simp only: of_nat_add) simp
  then show ?thesis using assms by (simp add: unat_of_nat take_bit_nat_eq_self)
qed

lemma data_record_loads:
  assumes t: "t \<in> {1, 2, 3}" and len: "length ds + t + 2 < 256" and nl: "10 \<notin> set rst"
    and w: "list_all (\<lambda>i. writable (field t a + of_nat i)) [0..<length ds]"
    and p: "pending m = hexstr 65 2 (of_nat (length ds + t + 2)) @ hexstr 65 (2 * t + 2) a
      @ hex_bytes ds @ rst @ 10 # rest"
  shows "\<exists>m'. data_record (48 + of_nat t) m = Done () m'
    \<and> loads (hexstr 65 2 (of_nat (length ds + t + 2)) @ hexstr 65 (2 * t + 2) a @ hex_bytes ds @ rst @ [10])
        (store_bytes (field t a) ds) m m'"
proof -
  let ?n = "hexstr 65 2 (of_nat (length ds + t + 2))" and ?a = "hexstr 65 (2 * t + 2) a"
  obtain m1 where m1: "gethex 2 m = Done (hexnum ?n) m1" "loads ?n (\<lambda>f. f) m m1"
    using gethex_loads [OF p] by blast
  have "pending m1 = ?a @ hex_bytes ds @ rst @ 10 # rest"
    using loads_pending [OF m1(2)] p by simp
  then obtain m2 where m2: "gethex (2 * t + 2) m1 = Done (field t a) m2" "loads ?a (\<lambda>f. f) m1 m2"
    using gethex_field by blast
  have "pending m2 = hex_bytes ds @ rst @ 10 # rest"
    using loads_pending [OF m1(2)] loads_pending [OF m2(2)] p by simp
  then obtain m3 where m3: "store_data (length ds) (field t a) m2 = Done () m3"
      "loads (hex_bytes ds) (store_bytes (field t a) ds) m2 m3"
    using store_data_loads w by blast
  have "pending m3 = rst @ 10 # rest"
    using loads_pending [OF m1(2)] loads_pending [OF m2(2)] loads_pending [OF m3(2)] p by simp
  then obtain m4 where m4: "skip_line m3 = Done () m4" "loads (rst @ [10]) (\<lambda>f. f) m3 m4"
    using skip_loads nl by blast
  have digits: "(if (48 + of_nat t :: u8) = 49 then 4 else if (48 + of_nat t :: u8) = 50 then 6 else 8) = 2 * t + 2"
    "(if (48 + of_nat t :: u8) = 49 then 3 else if (48 + of_nat t :: u8) = 50 then 4 else 5 :: u32) = of_nat (t + 2)"
    using t by auto
  have "data_record (48 + of_nat t) m = Done () m4"
    unfolding data_record_def digits m1(1) andthen.simps m2(1) Let_def count_data [OF len] m3(1) m4(1) ..
  then show ?thesis
    using loads_trans [OF m1(2) loads_trans [OF m2(2) loads_trans [OF m3(2) m4(2)]]] by auto
qed

lemma end_record_loads:
  assumes t: "t \<in> {1, 2, 3}" and nl: "10 \<notin> set rst"
    and p: "pending m = hexstr 65 2 (of_nat (t + 2)) @ hexstr 65 (2 * t + 2) a @ rst @ 10 # rest"
  shows "\<exists>m'. end_record (58 - of_nat t) m = Done (field t a) m'
    \<and> loads (hexstr 65 2 (of_nat (t + 2)) @ hexstr 65 (2 * t + 2) a @ rst @ [10]) (\<lambda>f. f) m m'"
proof -
  let ?n = "hexstr 65 2 (of_nat (t + 2))" and ?a = "hexstr 65 (2 * t + 2) a"
  obtain m1 where m1: "gethex 2 m = Done (hexnum ?n) m1" "loads ?n (\<lambda>f. f) m m1"
    using gethex_loads [OF p] by blast
  have "pending m1 = ?a @ rst @ 10 # rest"
    using loads_pending [OF m1(2)] p by simp
  then obtain m2 where m2: "gethex (2 * t + 2) m1 = Done (field t a) m2" "loads ?a (\<lambda>f. f) m1 m2"
    using gethex_field by blast
  have "pending m2 = rst @ 10 # rest"
    using loads_pending [OF m1(2)] loads_pending [OF m2(2)] p by simp
  then obtain m3 where m3: "skip_line m2 = Done () m3" "loads (rst @ [10]) (\<lambda>f. f) m2 m3"
    using skip_loads nl by blast
  have digits: "(if (58 - of_nat t :: u8) = 55 then 8 else if (58 - of_nat t :: u8) = 56 then 6 else 4) = 2 * t + 2"
    using t by auto
  have "end_record (58 - of_nat t) m = Done (field t a) m3"
    unfolding end_record_def digits m1(1) andthen.simps m2(1) m3(1) ..
  then show ?thesis
    using loads_trans [OF m1(2) loads_trans [OF m2(2) m3(2)]] by auto
qed

text \<open>A whole line after the letter S.\<close>

lemma s_record_data:
  assumes wf: "wf_srec r" and ld: "loadable r" and p: "pending m = tl (srec_line r) @ rest"
    and Data: "r = Data t a ds rst"
  shows "\<exists>m'. s_record app m = Done (srec_start r app) m'
    \<and> loads (tl (srec_line r)) (srec_mem r) m m'"
proof -
  have t: "t \<in> {1, 2, 3}" using wf Data by simp
  let ?c = "48 + of_nat t :: u8"
  have q: "pending m = ?c # hexstr 65 2 (of_nat (length ds + t + 2)) @ hexstr 65 (2 * t + 2) a
      @ hex_bytes ds @ rst @ 10 # rest"
    using p Data by (simp add: srec_line_def del: hexstr.simps)
  obtain m1 where m1: "usart_getc m = Done (ucast ?c) m1" "loads [?c] (\<lambda>f. f) m m1"
    using usart_getc_serial [OF q] loads_serial by blast
  have "pending m1 = hexstr 65 2 (of_nat (length ds + t + 2)) @ hexstr 65 (2 * t + 2) a
      @ hex_bytes ds @ rst @ 10 # rest"
    using loads_pending [OF m1(2)] q by simp
  then obtain m2 where m2: "data_record ?c m1 = Done () m2"
    "loads (hexstr 65 2 (of_nat (length ds + t + 2)) @ hexstr 65 (2 * t + 2) a @ hex_bytes ds @ rst @ [10])
        (store_bytes (field t a) ds) m1 m2"
    using data_record_loads [OF t] wf ld Data by (fastforce simp del: hexstr.simps)
  have c: "?c = 49 \<or> ?c = 50 \<or> ?c = 51" using t by auto
  have "s_record app m = Done app m2"
    unfolding s_record_def m1(1) andthen.simps Let_def ucast_u8_u32_u8 using c m2(1) by simp
  then show ?thesis
    using loads_trans [OF m1(2) m2(2)] Data
    by (simp add: srec_line_def srec_mem_eqs del: hexstr.simps srec_mem.simps)
qed

lemma s_record_end:
  assumes wf: "wf_srec r" and ld: "loadable r" and p: "pending m = tl (srec_line r) @ rest"
    and End: "r = End t a rst"
  shows "\<exists>m'. s_record app m = Done (srec_start r app) m'
    \<and> loads (tl (srec_line r)) (srec_mem r) m m'"
proof -
  have t: "t \<in> {1, 2, 3}" using wf End by simp
  let ?c = "58 - of_nat t :: u8"
  have q: "pending m = ?c # hexstr 65 2 (of_nat (t + 2)) @ hexstr 65 (2 * t + 2) a @ rst @ 10 # rest"
    using p End by (simp add: srec_line_def del: hexstr.simps)
  obtain m1 where m1: "usart_getc m = Done (ucast ?c) m1" "loads [?c] (\<lambda>f. f) m m1"
    using usart_getc_serial [OF q] loads_serial by blast
  have "pending m1 = hexstr 65 2 (of_nat (t + 2)) @ hexstr 65 (2 * t + 2) a @ rst @ 10 # rest"
    using loads_pending [OF m1(2)] q by simp
  then obtain m2 where m2: "end_record ?c m1 = Done (field t a) m2"
    "loads (hexstr 65 2 (of_nat (t + 2)) @ hexstr 65 (2 * t + 2) a @ rst @ [10]) (\<lambda>f. f) m1 m2"
    using end_record_loads [OF t] wf End by (fastforce simp del: hexstr.simps)
  have c: "?c = 55 \<or> ?c = 56 \<or> ?c = 57" "\<not> (?c = 49 \<or> ?c = 50 \<or> ?c = 51)" using t by auto
  have "s_record app m = Done (field t a) m2"
    unfolding s_record_def m1(1) andthen.simps Let_def ucast_u8_u32_u8 using c m2(1) by simp
  then show ?thesis
    using loads_trans [OF m1(2) m2(2)] End
    by (simp add: srec_line_def srec_mem_eqs del: hexstr.simps srec_mem.simps)
qed

lemma s_record_other:
  assumes wf: "wf_srec r" and ld: "loadable r" and p: "pending m = tl (srec_line r) @ rest"
    and Other: "r = Other c rst"
  shows "\<exists>m'. s_record app m = Done (srec_start r app) m'
    \<and> loads (tl (srec_line r)) (srec_mem r) m m'"
proof -
  have q: "pending m = c # rst @ 10 # rest" using p Other by (simp add: srec_line_def)
  obtain m1 where m1: "usart_getc m = Done (ucast c) m1" "loads [c] (\<lambda>f. f) m m1"
    using usart_getc_serial [OF q] loads_serial by blast
  have "pending m1 = rst @ 10 # rest" using loads_pending [OF m1(2)] q by simp
  then obtain m2 where m2: "skip_line m1 = Done () m2" "loads (rst @ [10]) (\<lambda>f. f) m1 m2"
    using skip_loads [of m1 rst rest] wf Other by auto
  have "s_record app m = Done app m2"
    unfolding s_record_def m1(1) andthen.simps Let_def ucast_u8_u32_u8 using wf Other m2(1) by auto
  then show ?thesis
    using loads_trans [OF m1(2) m2(2)] Other
    by (simp add: srec_line_def srec_mem_eqs del: srec_mem.simps)
qed

lemma s_record_loads:
  assumes wf: "wf_srec r" and ld: "loadable r" and p: "pending m = tl (srec_line r) @ rest"
  shows "\<exists>m'. s_record app m = Done (srec_start r app) m'
    \<and> loads (tl (srec_line r)) (srec_mem r) m m'"
  using s_record_data [OF assms] s_record_end [OF assms] s_record_other [OF assms] by (cases r) blast+

section \<open>The loop over the file\<close>

lemma receives_loads: "loads i f m n \<Longrightarrow> receives i [] f (\<lambda>x. x) m n"
  by (simp add: loads_def receives_def)

lemma toggle_receives: "receives [] [] (\<lambda>f. f) (\<lambda>x. x XOR 1) m (toggle_led m)"
  by (simp add: toggle_led_def io_read_def receives_def)

definition ack :: "u8 list" where
  "ack = bytes [CHR ''?'', LF]"

lemma puts_ack: "\<exists>m'. puts [CHR ''?'', LF] m = Done () m' \<and> serial [] ack m m'"
  using puts_serial [of "[CHR ''?'', LF]" m] by (simp add: ack_def)

lemma upload_iter_record:
  assumes "wf_srec r" and "loadable r" and p: "pending m = srec_line r @ rest"
  shows "\<exists>m'. upload_iter app m = Done (srec_start r app, False) m'
    \<and> receives (srec_line r) ack (srec_mem r) (\<lambda>x. x XOR 1) m m'"
proof -
  have line: "srec_line r = 83 # tl (srec_line r)"
    by (cases r) (simp_all add: srec_line_def)
  have "pending m = 83 # tl (srec_line r) @ rest" using p line by (metis append_Cons)
  then have "pending (toggle_led m) = 83 # tl (srec_line r) @ rest"
    using receives_pending [OF toggle_receives, of m] by simp
  then obtain m1 where m1: "usart_getc (toggle_led m) = Done (ucast (83::u8)) m1"
      "serial [83] [] (toggle_led m) m1"
    using usart_getc_serial by blast
  have "pending m1 = tl (srec_line r) @ rest"
    using m1(2) \<open>pending (toggle_led m) = _\<close> by (simp add: serial_def)
  then obtain m2 where m2: "s_record app m1 = Done (srec_start r app) m2"
      "loads (tl (srec_line r)) (srec_mem r) m1 m2"
    using s_record_loads assms(1,2) by blast
  obtain m3 where m3: "puts [CHR ''?'', LF] m2 = Done () m3" "serial [] ack m2 m3"
    using puts_ack by blast
  have "upload_iter app m = Done (srec_start r app, False) m3"
    unfolding upload_iter_def m1(1) andthen.simps Let_def ucast_u8_u32_u8 using m2(1) m3(1) by simp
  moreover have "receives (srec_line r) ack (srec_mem r) (\<lambda>x. x XOR 1) m m3"
    using receives_trans [OF toggle_receives receives_trans [OF receives_serial [OF m1(2)]
      receives_trans [OF receives_loads [OF m2(2)] receives_serial [OF m3(2)]]]] line by simp
  ultimately show ?thesis by blast
qed

fun led :: "nat \<Rightarrow> u32 \<Rightarrow> u32" where
  "led 0 x = x"
| "led (Suc n) x = led n (x XOR 1)"

lemma led_0: "led 0 = (\<lambda>x. x)"
  by (simp add: fun_eq_iff)

lemma led_Suc: "led (Suc n) = (\<lambda>x. led n (x XOR 1))"
  by (simp add: fun_eq_iff)

lemma file_mem_Cons: "file_mem (r # rs) = (\<lambda>h. file_mem rs (srec_mem r h))"
  by (simp add: file_mem_def fun_eq_iff)

lemma upload_loop_records:
  assumes "list_all wf_srec rs" and "list_all loadable rs" and "pending m = srec_text rs @ rest"
  shows "\<exists>m'. upload_loop app m = upload_loop (file_start rs app) m'
    \<and> receives (srec_text rs) (concat (replicate (length rs) ack)) (file_mem rs) (led (length rs)) m m'"
  using assms
proof (induction rs arbitrary: app m)
  case Nil
  have "receives [] [] (\<lambda>f. f) (\<lambda>x. x) m m" by (simp add: receives_def)
  then show ?case by (auto simp: srec_text_def file_mem_def file_start_def led_0)
next
  case (Cons r rs)
  obtain m1 where m1: "upload_iter app m = Done (srec_start r app, False) m1"
      "receives (srec_line r) ack (srec_mem r) (\<lambda>x. x XOR 1) m m1"
    using upload_iter_record [of r m "srec_text rs @ rest"] Cons.prems by (auto simp: srec_text_def)
  have "pending m1 = srec_text rs @ rest"
    using receives_pending [OF m1(2)] Cons.prems(3) by (simp add: srec_text_def)
  then obtain m2 where m2: "upload_loop (srec_start r app) m1 = upload_loop (file_start rs (srec_start r app)) m2"
      "receives (srec_text rs) (concat (replicate (length rs) ack)) (file_mem rs) (led (length rs)) m1 m2"
    using Cons.IH [of m1 "srec_start r app"] Cons.prems by auto
  have "upload_loop app m = upload_loop (file_start (r # rs) app) m2"
    using m1(1) m2(1) by (simp add: upload_loop.simps [of app m] file_start_def)
  moreover have "receives (srec_text (r # rs)) (concat (replicate (length (r # rs)) ack))
      (file_mem (r # rs)) (led (length (r # rs))) m m2"
    using receives_trans [OF m1(2) m2(2)]
    by (simp add: srec_text_def file_mem_Cons led_Suc del: led.simps)
  ultimately show ?case by blast
qed

lemma upload_loop_jump:
  assumes "pending m = 74 # rest"
  shows "\<exists>m'. upload_loop app m = Some (Jumped app m') \<and> pending m' = rest
    \<and> line_out m' = line_out m \<and> core m' = (core m)\<lparr>pouta := 0, ubaud := 0\<rparr>"
proof -
  have "pending (toggle_led m) = 74 # rest"
    using receives_pending [OF toggle_receives, of m] assms by simp
  then obtain m1 where m1: "usart_getc (toggle_led m) = Done (ucast (74::u8)) m1"
      "serial [74] [] (toggle_led m) m1"
    using usart_getc_serial by blast
  have "upload_iter app m = start_app app m1"
    unfolding upload_iter_def m1(1) andthen.simps Let_def ucast_u8_u32_u8 by simp
  moreover have "receives [74] [] (\<lambda>f. f) (\<lambda>x. x XOR 1) m m1"
    using receives_trans [OF toggle_receives receives_serial [OF m1(2)]] by simp
  ultimately show ?thesis
    using assms by (simp add: upload_loop.simps [of app m] start_app_def receives_def)
qed

lemma upload_loop_break:
  assumes "pending m = 35 # rest"
  shows "\<exists>m'. upload_loop app m = Some (Done app m')
    \<and> receives [35] [] (\<lambda>f. f) (\<lambda>x. x XOR 1) m m'"
proof -
  have "pending (toggle_led m) = 35 # rest"
    using receives_pending [OF toggle_receives, of m] assms by simp
  then obtain m1 where m1: "usart_getc (toggle_led m) = Done (ucast (35::u8)) m1"
      "serial [35] [] (toggle_led m) m1"
    using usart_getc_serial by blast
  have "upload_iter app m = Done (app, True) m1"
    unfolding upload_iter_def m1(1) andthen.simps Let_def ucast_u8_u32_u8 by simp
  moreover have "receives [35] [] (\<lambda>f. f) (\<lambda>x. x XOR 1) m m1"
    using receives_trans [OF toggle_receives receives_serial [OF m1(2)]] by simp
  ultimately show ?thesis by (simp add: upload_loop.simps [of app m])
qed

lemma upload_file_jump:
  assumes "list_all wf_srec rs" and "list_all loadable rs" and "pending m = srec_text rs @ 74 # rest"
  shows "\<exists>m'. upload_loop app m = Some (Jumped (file_start rs app) m') \<and> pending m' = rest
    \<and> line_out m' = line_out m @ concat (replicate (length rs) ack)
    \<and> core m' = (core m)\<lparr>mem := file_mem rs (mem m), pouta := 0, ubaud := 0\<rparr>"
proof -
  obtain m1 where m1: "upload_loop app m = upload_loop (file_start rs app) m1"
    "receives (srec_text rs) (concat (replicate (length rs) ack)) (file_mem rs) (led (length rs)) m m1"
    using upload_loop_records [OF assms] by blast
  have "pending m1 = 74 # rest" using receives_pending [OF m1(2)] assms(3) by simp
  then obtain m2 where m2: "upload_loop (file_start rs app) m1 = Some (Jumped (file_start rs app) m2)"
      "pending m2 = rest" "line_out m2 = line_out m1" "core m2 = (core m1)\<lparr>pouta := 0, ubaud := 0\<rparr>"
    using upload_loop_jump by blast
  then show ?thesis using m1 by (simp add: receives_def)
qed

end
