(* ===== verification/BootMain.thy ===== *)
theory BootMain
  imports BootUpload
begin

text \<open>
  The rest of \<open>main\<close> in \<open>CODE/bootloader/bootloader.c\<close>: the wait for a key at reset, the
  commands of the simple monitor, its loop and the program as a whole.
\<close>

section \<open>Waiting for a key\<close>

definition BOOTWAIT :: nat where "BOOTWAIT = 10"
definition BUFLEN :: nat where "BUFLEN = 41"

definition greeting :: string where
  "greeting = [CR, LF] @ ''THUAS RISC-V Bootloader '' @ ''v0.1'' @ [CR, LF]"

text \<open>The star and the led step at each half second.\<close>

definition boot_star :: "machine \<Rightarrow> (machine, unit) outcome" where
  "boot_star m = andthen (usart_putc 42 m) (\<lambda>_ m.
     case io_read POUT m of (v, m) \<Rightarrow> Done () (io_write POUT (drop_bit 1 v) m))"

function boot_wait :: "nat \<Rightarrow> machine \<Rightarrow> (machine, bool) outcome" where
  "boot_wait count m =
     (if count \<le> BOOTWAIT * 1024 * 1024 then
        andthen (if count mod (1024 * 1024) = 0 then boot_star m else Done () m) (\<lambda>_ m.
        case usart_received m of (r, m) \<Rightarrow>
          if r \<noteq> 0 then Done True m else boot_wait (Suc count) m)
      else Done False m)"
  by pat_completeness auto
termination
  by (relation "measure (\<lambda>(count, m). Suc (BOOTWAIT * 1024 * 1024) - count)") auto

declare boot_wait.simps [simp del]

section \<open>Monitor commands\<close>

definition help_text :: string where
  "help_text = ''Help:'' @ [CR, LF] @
     '' h                - this help'' @ [CR, LF] @
     '' r                - run application'' @ [CR, LF] @
     '' rw <addr>        - read word from addr'' @ [CR, LF] @
     '' ww <addr> <data> - write data at addr'' @ [CR, LF] @
     '' dw <addr>        - dump 16 words'' @ [CR, LF] @
     '' n                - dump next 16 words''"

definition misaligned_text :: string where
  "misaligned_text = ''Not on 4-byte boundary!''"

definition cmd_rw :: "u8 list \<Rightarrow> machine \<Rightarrow> (machine, u32) outcome" where
  "cmd_rw buf m = (case parsehex (drop 3 buf) of
       None \<Rightarrow> Fault Out_Of_Bounds m
     | Some (addr, _) \<Rightarrow>
         if addr AND 3 = 0 then
           andthen (printhex addr 8 m) (\<lambda>_ m.
           andthen (puts '': '' m) (\<lambda>_ m.
           andthen (load32 addr m) (\<lambda>v m.
           andthen (printhex v 8 m) (\<lambda>_ m. Done addr m))))
         else andthen (puts misaligned_text m) (\<lambda>_ m. Done addr m))"

definition cmd_ww :: "u8 list \<Rightarrow> machine \<Rightarrow> (machine, u32) outcome" where
  "cmd_ww buf m = (case parsehex (drop 3 buf) of
       None \<Rightarrow> Fault Out_Of_Bounds m
     | Some (addr, s) \<Rightarrow>
         if addr AND 3 = 0 then
           (case parsehex s of
              None \<Rightarrow> Fault Out_Of_Bounds m
            | Some (v, _) \<Rightarrow> andthen (store32 addr v m) (\<lambda>_ m. Done addr m))
         else andthen (puts misaligned_text m) (\<lambda>_ m. Done addr m))"

text \<open>The printable characters of a word, the loop over \<open>j = 3 .. 0\<close> with \<open>j + 1\<close> to go.\<close>

fun dump_ascii :: "nat \<Rightarrow> u32 \<Rightarrow> u32 \<Rightarrow> machine \<Rightarrow> (machine, unit) outcome" where
  "dump_ascii 0 v msk m = Done () m"
| "dump_ascii (Suc j) v msk m =
     (let c = drop_bit (j * 8) (v AND msk) in
      andthen (usart_putc (if is_print (ucast c) then c else 46) m) (\<lambda>_ m.
      dump_ascii j v (drop_bit 8 msk) m))"

fun dump_words :: "nat \<Rightarrow> u32 \<Rightarrow> machine \<Rightarrow> (machine, u32) outcome" where
  "dump_words 0 addr m = Done addr m"
| "dump_words (Suc i) addr m =
     andthen (printhex addr 8 m) (\<lambda>_ m.
     andthen (puts '': '' m) (\<lambda>_ m.
     andthen (load32 addr m) (\<lambda>v m.
     andthen (printhex v 8 m) (\<lambda>_ m.
     andthen (puts ''  '' m) (\<lambda>_ m.
     andthen (dump_ascii 4 v 0xff000000 m) (\<lambda>_ m.
     andthen (puts [CR, LF] m) (\<lambda>_ m.
     dump_words i (addr + 4) m)))))))"

definition cmd_dump :: "u32 \<Rightarrow> machine \<Rightarrow> (machine, u32) outcome" where
  "cmd_dump addr m = (if addr AND 3 = 0 then dump_words 16 addr m
     else andthen (puts misaligned_text m) (\<lambda>_ m. Done addr m))"

definition bl_command :: "u32 \<Rightarrow> u32 \<Rightarrow> u8 list \<Rightarrow> machine \<Rightarrow> (machine, u32) outcome" where
  "bl_command app addr buf m =
     (if str_eq buf ''h'' then andthen (puts help_text m) (\<lambda>_ m. Done addr m)
      else if str_eq buf ''r'' then start_app app m
      else if strn_eq 3 buf ''rw '' then cmd_rw buf m
      else if strn_eq 3 buf ''ww '' then cmd_ww buf m
      else if strn_eq 3 buf ''dw '' \<or> buf ! 0 = 110 then
        (if buf ! 0 \<noteq> 110 then
           (case parsehex (drop 3 buf) of
              None \<Rightarrow> Fault Out_Of_Bounds m
            | Some (addr, _) \<Rightarrow> cmd_dump addr m)
         else cmd_dump addr m)
      else if length (c_str buf) = 0 then Done addr m
      else andthen (puts ''??'' m) (\<lambda>_ m. Done addr m))"

text \<open>One round of \<open>while (1)\<close>: prompt, line, command.\<close>

definition bl_round :: "u32 \<Rightarrow> u32 \<times> u8 list \<Rightarrow> machine \<Rightarrow> (machine, u32 \<times> u8 list) outcome" where
  "bl_round app st m =
     andthen (puts ''> '' m) (\<lambda>_ m.
     andthen (usart_gets (snd st) BUFLEN m) (\<lambda>(buf, n) m.
     andthen (bl_command app (fst st) buf m) (\<lambda>addr m.
     andthen (puts [CR, LF] m) (\<lambda>_ m. Done (addr, buf) m))))"

partial_function (option) bl_monitor ::
    "u32 \<Rightarrow> u32 \<times> u8 list \<Rightarrow> machine \<Rightarrow> (machine, unit) outcome option" where
  "bl_monitor app st m = (case bl_round app st m of
       Done st m \<Rightarrow> bl_monitor app st m
     | Stuck m \<Rightarrow> Some (Stuck m)
     | Fault e m \<Rightarrow> Some (Fault e m)
     | Jumped a m \<Rightarrow> Some (Jumped a m))"

section \<open>The program\<close>

text \<open>\<open>boot_start\<close> is the code up to the first character typed; \<open>None\<close> for a key press
  means that the application was started. \<open>buf\<close> is the uninitialised line buffer.\<close>

definition boot_start :: "machine \<Rightarrow> (machine, unit) outcome" where
  "boot_start m =
     andthen (puts greeting (usart_init m)) (\<lambda>_ m.
     andthen (boot_wait 1 (io_write POUT (push_bit BOOTWAIT 1 - 1) m)) (\<lambda>keyhit m.
     let m = io_write POUT 0 m in
     if \<not> keyhit then Jumped 0 (io_write UBAUD 0 m) else Done () m))"

definition boot_upload :: "machine \<Rightarrow> (machine, u32) outcome option" where
  "boot_upload m = andthen_opt (Some (usart_getc m)) (\<lambda>v m.
     if v = 33 then
       andthen_opt (Some (puts [CHR ''?'', LF] m)) (\<lambda>_ m.
       andthen_opt (upload_loop 0 m) (\<lambda>app m. Some (Done app (io_write POUT 0xaa m))))
     else Some (Done 0 m))"

definition boot_main :: "u8 list \<Rightarrow> machine \<Rightarrow> (machine, unit) outcome option" where
  "boot_main buf m =
     andthen_opt (Some (boot_start m)) (\<lambda>_ m.
     andthen_opt (boot_upload m) (\<lambda>app m.
     andthen_opt (Some (puts [CR, LF] m)) (\<lambda>_ m.
     bl_monitor app (0, buf) m)))"

end
