(* ===== verification/BootProof.thy ===== *)
theory BootProof
  imports BootMain
begin

text \<open>
  What the monitor of the boot loader does, command by command; that it never leaves the bounds
  of its buffer and never takes a memory fault; and the boot loader from reset to the jump into
  the program that was uploaded.
\<close>

section \<open>What the commands print and store\<close>

lemma traffic_printhex8: "traffic [] (hexstr 97 8 v) () (printhex v 8 m) m"
  using printhex_serial [of 8 v m] by (simp add: traffic_def del: hexstr.simps)

definition reading :: "(u32 \<Rightarrow> u8) \<Rightarrow> u32 \<Rightarrow> u8 list" where
  "reading f a = hexstr 97 8 a @ bytes '': '' @ hexstr 97 8 (mem_word f a)"

lemma load32_done:
  "a AND 3 = 0 \<Longrightarrow> region a \<noteq> 15 \<Longrightarrow> load32 a m = Done (mem_word (mem m) a) m"
  by (simp add: load32_mem)

lemma print_reading:
  assumes "a AND 3 = 0" and "region a \<noteq> 15"
    and rest: "\<And>n. serial [] (reading (mem m) a) m n \<Longrightarrow> traffic [] os b (f (mem_word (mem m) a) n) n"
  shows "traffic [] (reading (mem m) a @ os) b
    (andthen (printhex a 8 m) (\<lambda>_ m. andthen (puts '': '' m) (\<lambda>_ m.
     andthen (load32 a m) (\<lambda>v m. andthen (printhex v 8 m) (\<lambda>_ m. f v m))))) m"
proof -
  obtain p where p: "printhex a 8 m = Done () p" "serial [] (hexstr 97 8 a) m p"
    by (rule trafficE [OF traffic_printhex8 [of a m]])
  obtain q where q: "puts '': '' p = Done () q" "serial [] (bytes '': '') p q"
    by (rule trafficE [OF traffic_puts [of "'': ''" p]]) simp
  let ?v = "mem_word (mem m) a"
  have v: "load32 a q = Done ?v q"
    using load32_done [OF assms(1,2)] serial_mem [OF p(2)] serial_mem [OF q(2)] by simp
  obtain r where r: "printhex ?v 8 q = Done () r" "serial [] (hexstr 97 8 ?v) q r"
    by (rule trafficE [OF traffic_printhex8 [of ?v q]])
  have said: "serial [] (reading (mem m) a) m r"
    using serial_trans [OF p(2) serial_trans [OF q(2) r(2)]] by (simp only: reading_def append_Nil)
  obtain s where s: "f ?v r = Done b s" "serial [] os r s"
    by (rule trafficE [OF rest [OF said]])
  show ?thesis
    using serial_trans [OF said s(2)] p(1) q(1) v r(1) s(1) unfolding traffic_def by simp
qed

lemma cmd_rw_traffic:
  assumes "parsehex (drop 3 buf) = Some (a, r)" and "a AND 3 = 0" and "region a \<noteq> 15"
  shows "traffic [] (reading (mem m) a) a (cmd_rw buf m) m"
  using print_reading [OF assms(2,3), of m "[]" a "\<lambda>_ m. Done a m"] assms
  by (simp add: cmd_rw_def del: hexstr.simps)

definition dot :: "u8 \<Rightarrow> u8" where
  "dot c = (if is_print c then c else 46)"

definition dump_line :: "(u32 \<Rightarrow> u8) \<Rightarrow> u32 \<Rightarrow> u8 list" where
  "dump_line f a = reading f a @ bytes ''  '' @ map dot [f (a + 3), f (a + 2), f (a + 1), f a]
     @ bytes [CR, LF]"

fun dump_text :: "(u32 \<Rightarrow> u8) \<Rightarrow> nat \<Rightarrow> u32 \<Rightarrow> u8 list" where
  "dump_text f 0 a = []"
| "dump_text f (Suc n) a = dump_line f a @ dump_text f n (a + 4)"

lemma dump_lanes:
  "drop_bit 24 (mem_word f a AND 0xff000000) = ucast (f (a + 3))"
  "drop_bit 16 (mem_word f a AND 0xff0000) = ucast (f (a + 2))"
  "drop_bit 8 (mem_word f a AND 0xff00) = ucast (f (a + 1))"
  "mem_word f a AND 0xff = ucast (f a)"
  by (rule bit_word_eqI; auto simp: lane_masks bit_simps mem_word_bit dest: bit_imp_le_length)+

lemma dump_ascii_step:
  assumes "drop_bit (j * 8) (v AND msk) = ucast c"
    and "\<And>n. serial [] [dot c] m n \<Longrightarrow> traffic [] os () (dump_ascii j v (drop_bit 8 msk) n) n"
  shows "traffic [] (dot c # os) () (dump_ascii (Suc j) v msk m) m"
proof -
  have "traffic [] [dot c] () (usart_putc (if is_print c then ucast c else 46) m) m"
    using traffic_putc [of "ucast c" m] traffic_putc [of 46 m] by (auto simp: dot_def)
  from traffic_says [OF this assms(2)] show ?thesis
    by (simp only: dump_ascii.simps Let_def assms(1) ucast_u8_u32_u8 append_Cons append_Nil)
qed

lemma dump_ascii_traffic:
  "traffic [] (map dot [f (a + 3), f (a + 2), f (a + 1), f a]) ()
     (dump_ascii 4 (mem_word f a) 0xff000000 m) m"
proof -
  have masks: "drop_bit 8 0xff000000 = (0xff0000 :: u32)" "drop_bit 8 0xff0000 = (0xff00 :: u32)"
    "drop_bit 8 0xff00 = (0xff :: u32)" "drop_bit 8 0xff = (0 :: u32)"
    by simp_all
  have "traffic [] [dot (f (a + 3)), dot (f (a + 2)), dot (f (a + 1)), dot (f a)] ()
     (dump_ascii (Suc (Suc (Suc (Suc 0)))) (mem_word f a) 0xff000000 m) m"
    by (rule dump_ascii_step, simp add: dump_lanes del: dump_ascii.simps drop_bit_and, simp only: masks)+ simp
  moreover have "(4::nat) = Suc (Suc (Suc (Suc 0)))" by simp
  ultimately show ?thesis by (simp only: list.map)
qed

fun readable_words :: "nat \<Rightarrow> u32 \<Rightarrow> bool" where
  "readable_words 0 a \<longleftrightarrow> True"
| "readable_words (Suc n) a \<longleftrightarrow> region a \<noteq> 15 \<and> readable_words n (a + 4)"

lemma dump_words_traffic:
  assumes "a AND 3 = 0" and "readable_words n a"
  shows "traffic [] (dump_text (mem m) n a) (a + 4 * of_nat n) (dump_words n a m) m"
  using assms
proof (induction n arbitrary: a m)
  case 0
  then show ?case by simp
next
  case (Suc n)
  have next_addr: "a + 4 * of_nat (Suc n) = (a + 4) + 4 * of_nat n" by (simp add: algebra_simps)
  have reg: "region a \<noteq> 15" "readable_words n (a + 4)"
    using Suc.prems(2) by simp_all
  note IH = Suc.IH [OF aligned_next [OF Suc.prems(1)] reg(2)]
  let ?cs = "map dot [mem m (a + 3), mem m (a + 2), mem m (a + 1), mem m a]"
  have rest: "traffic [] (bytes ''  '' @ ?cs @ bytes [CR, LF] @ dump_text (mem m) n (a + 4))
      ((a + 4) + 4 * of_nat n)
      (andthen (puts ''  '' k) (\<lambda>_ k. andthen (dump_ascii 4 (mem_word (mem m) a) 0xff000000 k)
        (\<lambda>_ k. andthen (puts [CR, LF] k) (\<lambda>_ k. dump_words n (a + 4) k)))) k"
    if k: "serial [] (reading (mem m) a) m k" for k
  proof -
    have tail: "traffic [] (dump_text (mem m) n (a + 4)) ((a + 4) + 4 * of_nat n) (dump_words n (a + 4) j) j"
      if "mem j = mem m" for j
      using IH [of j] that by simp
    show ?thesis
      by (rule traffic_says traffic_puts dump_ascii_traffic tail
          | simp add: serial_mem serial_mem [OF k])+
  qed
  show ?case
    unfolding next_addr dump_text.simps dump_words.simps dump_line_def append_assoc
    by (rule print_reading [OF Suc.prems(1) reg(1)], rule rest)
qed

section \<open>Lines of the monitor\<close>

definition acts :: "u8 list \<Rightarrow> ((u32 \<Rightarrow> u8) \<Rightarrow> (u32 \<Rightarrow> u8)) \<Rightarrow> 'a \<Rightarrow> (machine, 'a) outcome \<Rightarrow> machine \<Rightarrow> bool" where
  "acts os f a x m \<longleftrightarrow> (\<exists>n. x = Done a n \<and> receives [] os f (\<lambda>x. x) m n)"

lemma traffic_acts: "traffic [] os a x m \<Longrightarrow> acts os (\<lambda>f. f) a x m"
  unfolding traffic_def acts_def using receives_serial by blast

lemma bl_round_acts:
  assumes "pending m = cs @ e # rest" and "\<forall>c \<in> set cs. \<not> eol c" and "eol e"
    and "BUFLEN \<le> length buf"
    and cmd: "\<And>tl n. mem n = mem m \<Longrightarrow> acts os f b (bl_command app a (line_of BUFLEN cs @ 0 # tl) n) n"
  shows "\<exists>n tl. bl_round app (a, buf) m = Done (b, line_of BUFLEN cs @ 0 # tl) n
    \<and> length (line_of BUFLEN cs @ 0 # tl) = length buf
    \<and> receives (cs @ [e]) (bytes ''> '' @ echoes BUFLEN [] cs @ os @ bytes [CR, LF]) f (\<lambda>x. x) m n"
proof -
  obtain p where p: "puts ''> '' m = Done () p" "serial [] (bytes ''> '') m p"
    by (rule trafficE [OF traffic_puts [of "''> ''" m]]) simp
  have "pending p = cs @ e # rest" using p(2) assms(1) by (simp add: serial_def)
  then obtain tl q where q: "usart_gets buf BUFLEN p = Done (line_of BUFLEN cs @ 0 # tl, length (line_of BUFLEN cs)) q"
      "serial (cs @ [e]) (echoes BUFLEN [] cs) p q" "length (line_of BUFLEN cs @ 0 # tl) = length buf"
    using gets_ok [of p cs e rest BUFLEN buf] assms(2-4) by (auto simp: BUFLEN_def)
  have "mem q = mem m" using serial_mem [OF p(2)] serial_mem [OF q(2)] by simp
  then obtain r where r: "bl_command app a (line_of BUFLEN cs @ 0 # tl) q = Done b r"
      "receives [] os f (\<lambda>x. x) q r"
    using cmd unfolding acts_def by blast
  obtain s where s: "puts [CR, LF] r = Done () s" "serial [] (bytes [CR, LF]) r s"
    by (rule trafficE [OF traffic_puts [of "[CR, LF]" r]]) simp
  have "receives (cs @ [e]) (bytes ''> '' @ echoes BUFLEN [] cs @ os @ bytes [CR, LF]) f (\<lambda>x. x) m s"
    using receives_trans [OF receives_serial [OF p(2)]
        receives_trans [OF receives_serial [OF q(2)] receives_trans [OF r(2) receives_serial [OF s(2)]]]]
    by simp
  then show ?thesis using p(1) q r(1) s(1) by (auto simp: bl_round_def)
qed

section \<open>The commands\<close>

text \<open>A number as it is typed.\<close>

definition number :: "u8 list \<Rightarrow> bool" where
  "number ds \<longleftrightarrow> ds \<noteq> [] \<and> list_all is_xdigit ds"

lemma xdigit_facts: "is_xdigit c \<Longrightarrow> \<not> is_space c \<and> c \<noteq> 0 \<and> 0x1f < c \<and> c < 0x7f \<and> \<not> eol c"
  by (auto simp: is_xdigit_def is_digit_def is_space_def eol_def word_le_nat_alt word_less_nat_alt word_unat_eq_iff)

lemma number_facts:
  assumes "number ds"
  shows "\<forall>c \<in> set ds. is_xdigit c \<and> \<not> is_space c" and "0 \<notin> set ds"
    and "\<forall>c \<in> set ds. 0x1f < c \<and> c < 0x7f" and "\<forall>c \<in> set ds. \<not> eol c"
  using assms xdigit_facts unfolding number_def list_all_iff by blast+

lemma not_xdigit_0_32 [simp]: "\<not> is_xdigit 0" "\<not> is_xdigit 32"
  by (simp_all add: is_xdigit_def is_digit_def)

lemma parse_number:
  assumes "number ds" and "\<not> is_xdigit d"
  shows "parsehex (ds @ d # cs) = Some (hexnum ds, d # cs)"
    and "parsehex (32 # ds @ d # cs) = Some (hexnum ds, d # cs)"
  using parsehex_append [of "[]" ds d cs] parsehex_append [of "[32]" ds d cs] number_facts [OF assms(1)] assms
  by (auto simp: number_def is_space_def)

lemma command_rw:
  assumes "0 \<notin> set l"
  shows "bl_command app a ((bytes ''rw '' @ l) @ 0 # rst) m = cmd_rw ((bytes ''rw '' @ l) @ 0 # rst) m"
proof -
  have "c_str ((bytes ''rw '' @ l) @ 0 # rst) = bytes ''rw '' @ l"
    by (rule c_str_terminated) (use assms in simp)
  then show ?thesis by (simp add: bl_command_def str_eq_def strn_eq_def)
qed

lemma command_ww:
  assumes "0 \<notin> set l"
  shows "bl_command app a ((bytes ''ww '' @ l) @ 0 # rst) m = cmd_ww ((bytes ''ww '' @ l) @ 0 # rst) m"
proof -
  have "c_str ((bytes ''ww '' @ l) @ 0 # rst) = bytes ''ww '' @ l"
    by (rule c_str_terminated) (use assms in simp)
  then show ?thesis by (simp add: bl_command_def str_eq_def strn_eq_def)
qed

lemma command_dw:
  assumes "0 \<notin> set l" and "parsehex (l @ 0 # rst) = Some (b, r)"
  shows "bl_command app a ((bytes ''dw '' @ l) @ 0 # rst) m = cmd_dump b m"
proof -
  have "c_str ((bytes ''dw '' @ l) @ 0 # rst) = bytes ''dw '' @ l"
    by (rule c_str_terminated) (use assms in simp)
  then show ?thesis using assms(2) by (simp add: bl_command_def str_eq_def strn_eq_def)
qed

lemma command_n: "bl_command app a (bytes ''n'' @ 0 # rst) m = cmd_dump a m"
proof -
  have "c_str (bytes ''n'' @ 0 # rst) = bytes ''n''"
    by (rule c_str_terminated) simp
  then show ?thesis by (simp add: bl_command_def str_eq_def strn_eq_def)
qed


text \<open>The rounds of the monitor, for lines as the user types them.\<close>

definition answer :: "u8 list \<Rightarrow> u8 list \<Rightarrow> u8 list" where
  "answer cs os = bytes ''> '' @ echoes BUFLEN [] cs @ os @ bytes [CR, LF]"

lemma round_of_line:
  assumes "pending m = cs @ e # rest" and "eol e" and "BUFLEN \<le> length buf"
    and "\<forall>c \<in> set cs. 0x1f < c \<and> c < 0x7f" and "length cs < BUFLEN"
    and cmd: "\<And>ys n. mem n = mem m \<Longrightarrow> acts os f b (bl_command app a (cs @ 0 # ys) n) n"
  shows "\<exists>n ys. bl_round app (a, buf) m = Done (b, cs @ 0 # ys) n
    \<and> length (cs @ 0 # ys) = length buf \<and> receives (cs @ [e]) (answer cs os) f (\<lambda>x. x) m n"
proof -
  have "\<forall>c \<in> set cs. \<not> eol c" using assms(4) by (auto simp: eol_def)
  then show ?thesis
    using bl_round_acts [OF assms(1) _ assms(2,3), of os f b app a] line_of_plain [OF assms(4,5)] cmd
    by (simp add: answer_def)
qed

lemma plain_prefix:
  "\<forall>c \<in> set (bytes ''rw ''). 0x1f < c \<and> c < 0x7f" "\<forall>c \<in> set (bytes ''ww ''). 0x1f < c \<and> c < 0x7f"
  "\<forall>c \<in> set (bytes ''dw ''). 0x1f < c \<and> c < 0x7f"
  by simp_all

lemma read_acts:
  assumes "number ds" and "hexnum ds AND 3 = 0" and "region (hexnum ds) \<noteq> 15" and "mem n = f"
  shows "acts (reading f (hexnum ds)) (\<lambda>f. f) (hexnum ds)
    (bl_command app a ((bytes ''rw '' @ ds) @ 0 # ys) n) n"
proof -
  have "parsehex (drop 3 ((bytes ''rw '' @ ds) @ 0 # ys)) = Some (hexnum ds, 0 # ys)"
    using parse_number(1) [OF assms(1), of 0 ys] by simp
  from cmd_rw_traffic [OF this assms(2,3), of n] show ?thesis
    unfolding command_rw [OF number_facts(2) [OF assms(1)]] assms(4) by (rule traffic_acts)
qed

lemma write_acts:
  assumes "number ds" and "number vs" and "hexnum ds AND 3 = 0" and "writable (hexnum ds)"
  shows "acts [] (\<lambda>f. set_word f (hexnum ds) (hexnum vs)) (hexnum ds)
    (bl_command app a ((bytes ''ww '' @ ds @ 32 # vs) @ 0 # ys) n) n"
proof -
  have nz: "0 \<notin> set (ds @ 32 # vs)"
    using number_facts(2) [OF assms(1)] number_facts(2) [OF assms(2)] by simp
  have 1: "parsehex (drop 3 ((bytes ''ww '' @ ds @ 32 # vs) @ 0 # ys)) = Some (hexnum ds, 32 # vs @ 0 # ys)"
    using parse_number(1) [OF assms(1), of 32 "vs @ 0 # ys"] by simp
  have 2: "parsehex (32 # vs @ 0 # ys) = Some (hexnum vs, 0 # ys)"
    using parse_number(2) [OF assms(2), of 0 ys] by simp
  show ?thesis
    unfolding command_ww [OF nz] acts_def
    by (simp only: cmd_ww_def 1 option.case prod.case assms(3) if_True 2 store32_mem [OF assms(4,3)])
      (simp add: receives_def)
qed

lemma dump_acts:
  assumes "a AND 3 = 0" and "readable_words 16 a" and "mem n = f"
  shows "acts (dump_text f 16 a) (\<lambda>f. f) (a + 64) (cmd_dump a n) n"
  using traffic_acts [OF dump_words_traffic [OF assms(1,2), of n]] assms(1,3) by (simp add: cmd_dump_def)

section \<open>Sessions with the monitor\<close>

text \<open>C5: A word written with the ww command of the monitor is the word the rw command prints for
  that address, and only that word of memory changes.\<close>

theorem monitor_write_read:
  assumes "pending m = (bytes ''ww '' @ ds @ 32 # vs) @ e # (bytes ''rw '' @ ds') @ e' # rest"
    and "eol e" and "eol e'" and "BUFLEN \<le> length buf"
    and "number ds" and "number vs" and "number ds'"
    and "length ds + length vs < 37" and "length ds' < 38"
    and "hexnum ds' = hexnum ds" and "hexnum ds AND 3 = 0" and "writable (hexnum ds)"
  shows "\<exists>st1 m1 st2 m2. bl_round app (a, buf) m = Done st1 m1 \<and> bl_round app st1 m1 = Done st2 m2
    \<and> mem m2 = set_word (mem m) (hexnum ds) (hexnum vs)
    \<and> line_out m2 = line_out m @ answer (bytes ''ww '' @ ds @ 32 # vs) []
        @ answer (bytes ''rw '' @ ds') (hexstr 97 8 (hexnum ds) @ bytes '': '' @ hexstr 97 8 (hexnum vs))
    \<and> pending m2 = rest"
proof -
  let ?w = "bytes ''ww '' @ ds @ 32 # vs" and ?r = "bytes ''rw '' @ ds'"
  let ?a = "hexnum ds" and ?v = "hexnum vs"
  have rg: "region (hexnum ds') \<noteq> 15" "hexnum ds' AND 3 = 0"
    using assms(10,11,12) by (auto simp: writable_def)
  have w: "\<forall>c \<in> set ?w. 0x1f < c \<and> c < 0x7f" "length ?w < BUFLEN"
    using number_facts(3) [OF assms(5)] number_facts(3) [OF assms(6)] assms(8) by (auto simp: BUFLEN_def)
  have r: "\<forall>c \<in> set ?r. 0x1f < c \<and> c < 0x7f" "length ?r < BUFLEN"
    using number_facts(3) [OF assms(7)] assms(9) by (auto simp: BUFLEN_def)
  obtain n1 ys where n1: "bl_round app (a, buf) m = Done (?a, ?w @ 0 # ys) n1"
      "length (?w @ 0 # ys) = length buf"
      "receives (?w @ [e]) (answer ?w []) (\<lambda>f. set_word f ?a ?v) (\<lambda>x. x) m n1"
    using round_of_line [OF assms(1,2,4) w, of "[]"] write_acts [OF assms(5,6,11,12)] by blast
  have p1: "pending n1 = ?r @ e' # rest" using receives_pending [OF n1(3)] assms(1) by simp
  have len1: "BUFLEN \<le> length (?w @ 0 # ys)" using n1(2) assms(4) by simp
  obtain n2 zs where n2: "bl_round app (?a, ?w @ 0 # ys) n1 = Done (hexnum ds', ?r @ 0 # zs) n2"
      "receives (?r @ [e']) (answer ?r (reading (mem n1) (hexnum ds'))) (\<lambda>f. f) (\<lambda>x. x) n1 n2"
    using round_of_line [OF p1 assms(3) len1 r, of "reading (mem n1) (hexnum ds')" "\<lambda>f. f"]
      read_acts [OF assms(7) rg(2,1)] by blast
  have mem1: "mem n1 = set_word (mem m) ?a ?v" by (rule receives_fields(1) [OF n1(3)])
  have "line_out n2 = line_out m @ answer ?w [] @ answer ?r (reading (mem n1) (hexnum ds'))"
    using n1(3) n2(2) by (simp add: receives_def)
  moreover have "reading (mem n1) (hexnum ds') = hexstr 97 8 ?a @ bytes '': '' @ hexstr 97 8 ?v"
    by (simp only: reading_def mem1 assms(10) mem_word_set_word)
  moreover have "pending n2 = rest" using receives_pending [OF n2(2)] p1 by simp
  moreover have "mem n2 = mem n1" by (rule receives_fields(1) [OF n2(2)])
  ultimately show ?thesis using n1(1) n2(1) mem1 by auto
qed

lemma typed_address: "hexnum (bytes ''20000010'') = 0x20000010" "hexnum (bytes ''beef'') = 0xbeef"
  "number (bytes ''20000010'')" "number (bytes ''beef'')"
  by (simp_all add: hexnum_def hexstep_def hexval_def number_def is_xdigit_def is_digit_def to_lower_def)

theorem monitor_write_read_witness:
  "\<exists>st1 m1 st2 m2. bl_round 0 (0, replicate 41 0) (power_on (bytes ''ww 20000010 beef'' @ 13 # bytes ''rw 20000010'' @ [10]))
     = Done st1 m1 \<and> bl_round 0 st1 m1 = Done st2 m2
    \<and> mem m2 = set_word (\<lambda>_. 0) 0x20000010 0xbeef
    \<and> line_out m2 = answer (bytes ''ww 20000010 beef'') []
        @ answer (bytes ''rw 20000010'') (bytes ''20000010: 0000beef'') \<and> pending m2 = []"
proof -
  have p: "pending (power_on (bytes ''ww 20000010 beef'' @ 13 # bytes ''rw 20000010'' @ [10]))
      = (bytes ''ww '' @ bytes ''20000010'' @ 32 # bytes ''beef'') @ 13 # (bytes ''rw '' @ bytes ''20000010'') @ 10 # []"
    by simp
  have h: "hexstr 97 8 0x20000010 = bytes ''20000010''" "hexstr 97 8 0xbeef = bytes ''0000beef''"
    by code_simp+
  have w: "writable 0x20000010" by (simp add: writable_def region_def)
  from monitor_write_read [OF p, of "replicate 41 0" 0 0] typed_address w show ?thesis
    by (simp add: eol_def BUFLEN_def h del: hexstr.simps)
qed

lemma readable_words_add:
  "readable_words (j + k) a \<longleftrightarrow> readable_words j a \<and> readable_words k (a + 4 * of_nat j)"
  by (induction j arbitrary: a) (simp_all add: algebra_simps)

text \<open>C6: The dw command prints sixteen words of memory with their printable characters, and n
  continues where it stopped; memory does not change.\<close>

theorem monitor_dump:
  assumes "pending m = (bytes ''dw '' @ ds) @ e # bytes ''n'' @ e' # rest"
    and "eol e" and "eol e'" and "BUFLEN \<le> length buf" and "number ds" and "length ds < 38"
    and "hexnum ds AND 3 = 0" and "readable_words 32 (hexnum ds)"
  shows "\<exists>st1 m1 st2 m2. bl_round app (a, buf) m = Done st1 m1 \<and> bl_round app st1 m1 = Done st2 m2
    \<and> fst st2 = hexnum ds + 128 \<and> mem m2 = mem m \<and> pending m2 = rest
    \<and> line_out m2 = line_out m @ answer (bytes ''dw '' @ ds) (dump_text (mem m) 16 (hexnum ds))
        @ answer (bytes ''n'') (dump_text (mem m) 16 (hexnum ds + 64))"
proof -
  let ?d = "bytes ''dw '' @ ds" and ?n = "bytes ''n''" and ?a = "hexnum ds"
  have ok: "readable_words 16 ?a" "readable_words 16 (?a + 64)"
    using assms(8) readable_words_add [of 16 16 ?a] by simp_all
  have al: "(?a + 64) AND 3 = 0"
    using aligned_words [OF assms(7), of 16] by simp
  have d: "\<forall>c \<in> set ?d. 0x1f < c \<and> c < 0x7f" "length ?d < BUFLEN"
    using number_facts(3) [OF assms(5)] assms(6) by (auto simp: BUFLEN_def)
  have n: "\<forall>c \<in> set ?n. 0x1f < c \<and> c < 0x7f" "length ?n < BUFLEN"
    by (auto simp: BUFLEN_def)
  have dw: "bl_command app a (?d @ 0 # ys) k = cmd_dump ?a k" for ys k
    using command_dw [OF number_facts(2) [OF assms(5)]] parse_number(1) [OF assms(5), of 0 ys] by simp
  obtain n1 ys where n1: "bl_round app (a, buf) m = Done (?a + 64, ?d @ 0 # ys) n1"
      "length (?d @ 0 # ys) = length buf"
      "receives (?d @ [e]) (answer ?d (dump_text (mem m) 16 ?a)) (\<lambda>f. f) (\<lambda>x. x) m n1"
    using round_of_line [OF assms(1,2,4) d, of "dump_text (mem m) 16 ?a" "\<lambda>f. f" "?a + 64" app a]
      dump_acts [OF assms(7) ok(1)] unfolding dw by blast
  have p1: "pending n1 = ?n @ e' # rest" using receives_pending [OF n1(3)] assms(1) by simp
  have len1: "BUFLEN \<le> length (?d @ 0 # ys)" using n1(2) assms(4) by simp
  have mem1: "mem n1 = mem m" by (rule receives_fields(1) [OF n1(3)])
  obtain n2 zs where n2: "bl_round app (?a + 64, ?d @ 0 # ys) n1 = Done (?a + 64 + 64, ?n @ 0 # zs) n2"
      "receives (?n @ [e']) (answer ?n (dump_text (mem m) 16 (?a + 64))) (\<lambda>f. f) (\<lambda>x. x) n1 n2"
    using round_of_line [OF p1 assms(3) len1 n, of "dump_text (mem m) 16 (?a + 64)" "\<lambda>f. f" "?a + 64 + 64" app "?a + 64"]
      dump_acts [OF al ok(2)] unfolding command_n mem1 by blast
  have "line_out n2 = line_out m @ answer ?d (dump_text (mem m) 16 ?a) @ answer ?n (dump_text (mem m) 16 (?a + 64))"
    using n1(3) n2(2) by (simp add: receives_def)
  moreover have "pending n2 = rest" using receives_pending [OF n2(2)] p1 by simp
  moreover have "mem n2 = mem m" using receives_fields(1) [OF n2(2)] mem1 by simp
  ultimately show ?thesis using n1(1) n2(1) by auto
qed


lemma readable_words_0x20000000: "readable_words 32 0x20000000"
  by code_simp

theorem monitor_dump_witness:
  "\<exists>st1 m1 st2 m2. bl_round 0 (0, replicate 41 0) (power_on (bytes ''dw 20000000'' @ 10 # bytes ''n'' @ [10]))
     = Done st1 m1 \<and> bl_round 0 st1 m1 = Done st2 m2
    \<and> fst st2 = 0x20000080 \<and> mem m2 = (\<lambda>_. 0) \<and> pending m2 = []
    \<and> line_out m2 = answer (bytes ''dw 20000000'') (dump_text (\<lambda>_. 0) 16 0x20000000)
        @ answer (bytes ''n'') (dump_text (\<lambda>_. 0) 16 0x20000040)"
proof -
  have n: "number (bytes ''20000000'')" "hexnum (bytes ''20000000'') = 0x20000000"
    by (simp_all add: hexnum_def hexstep_def hexval_def number_def is_xdigit_def is_digit_def)
  have p: "pending (power_on (bytes ''dw 20000000'' @ 10 # bytes ''n'' @ [10]))
      = (bytes ''dw '' @ bytes ''20000000'') @ 10 # bytes ''n'' @ 10 # []"
    by simp
  from monitor_dump [OF p, of "replicate 41 0" 0 0] n readable_words_0x20000000 show ?thesis
    by (simp add: eol_def BUFLEN_def del: dump_text.simps)
qed

text \<open>C7: An address that is not a multiple of four makes rw, ww and dw print the message and
  touch nothing, whatever text follows the address on the line, such as the data of ww.\<close>

theorem monitor_misaligned:
  assumes "pending m = (bytes cmd @ ds @ tail) @ e # rest" and "eol e" and "BUFLEN \<le> length buf"
    and "cmd \<in> {''rw '', ''ww '', ''dw ''}" and "number ds" and "length ds + length tail < 38"
    and "\<forall>c \<in> set tail. 0x1f < c \<and> c < 0x7f" and "case tail of [] \<Rightarrow> True | d # _ \<Rightarrow> \<not> is_xdigit d"
    and "hexnum ds AND 3 \<noteq> 0"
  shows "\<exists>ys n. bl_round app (a, buf) m = Done (hexnum ds, (bytes cmd @ ds @ tail) @ 0 # ys) n
    \<and> receives ((bytes cmd @ ds @ tail) @ [e]) (answer (bytes cmd @ ds @ tail) (bytes misaligned_text))
         (\<lambda>f. f) (\<lambda>x. x) m n"
proof -
  let ?l = "bytes cmd @ ds @ tail"
  have l: "\<forall>c \<in> set ?l. 0x1f < c \<and> c < 0x7f" "length ?l < BUFLEN"
    using number_facts(3) [OF assms(5)] assms(4,6,7) by (auto simp: BUFLEN_def)
  have nz: "0 \<notin> set (ds @ tail)" using number_facts(2) [OF assms(5)] assms(7) by auto
  have parse: "\<exists>r. parsehex (ds @ tail @ 0 # ys) = Some (hexnum ds, r)" for ys
    using parse_number(1) [OF assms(5), of 0 ys] parse_number(1) [OF assms(5)] assms(8)
    by (cases tail) auto
  have says: "acts (bytes misaligned_text) (\<lambda>f. f) (hexnum ds) (andthen (puts misaligned_text k) (\<lambda>_. Done (hexnum ds))) k" for k
  proof -
    have "traffic [] (bytes misaligned_text @ []) (hexnum ds) (andthen (puts misaligned_text k) (\<lambda>_. Done (hexnum ds))) k"
      by (rule traffic_says [OF traffic_puts]) (simp_all add: misaligned_text_def)
    then show ?thesis unfolding append_Nil2 by (rule traffic_acts)
  qed
  have "bl_command app a (?l @ 0 # ys) k = andthen (puts misaligned_text k) (\<lambda>_. Done (hexnum ds))" for ys k
    using assms(4)
  proof (elim insertE emptyE)
    assume "cmd = ''rw ''"
    then show ?thesis
      using command_rw [OF nz, of app a ys k] parse [of ys] assms(9) by (auto simp: cmd_rw_def)
  next
    assume "cmd = ''ww ''"
    then show ?thesis
      using command_ww [OF nz, of app a ys k] parse [of ys] assms(9) by (auto simp: cmd_ww_def)
  next
    assume "cmd = ''dw ''"
    then show ?thesis
      using command_dw [OF nz, of ys "hexnum ds" _ app a k] parse [of ys] assms(9) by (auto simp: cmd_dump_def)
  qed
  then show ?thesis
    using round_of_line [OF assms(1,2,3) l, of "bytes misaligned_text" "\<lambda>f. f" "hexnum ds" app a] says
    by (simp only:) blast
qed

theorem monitor_misaligned_witness:
  "\<exists>st n. bl_round 0 (0, replicate 41 0) (power_on (bytes ''ww 20000002 ff'' @ [13])) = Done st n
    \<and> line_out n = answer (bytes ''ww 20000002 ff'') (bytes ''Not on 4-byte boundary!'') \<and> mem n = (\<lambda>_. 0)"
proof -
  let ?m = "power_on (bytes ''ww 20000002 ff'' @ [13])"
  have n: "number (bytes ''20000002'')" "hexnum (bytes ''20000002'') AND 3 \<noteq> 0"
    by (simp_all add: hexnum_def hexstep_def hexval_def number_def is_xdigit_def is_digit_def)
  have p: "pending ?m = (bytes ''ww '' @ bytes ''20000002'' @ bytes '' ff'') @ 13 # []" by simp
  have c: "eol 13" "BUFLEN \<le> length (replicate 41 0 :: u8 list)" "''ww '' \<in> {''rw '', ''ww '', ''dw ''}"
      "length (bytes ''20000002'') + length (bytes '' ff'') < 38"
      "\<forall>c \<in> set (bytes '' ff''). 0x1f < c \<and> c < 0x7f"
      "case bytes '' ff'' of [] \<Rightarrow> True | d # _ \<Rightarrow> \<not> is_xdigit d"
    by (simp_all add: eol_def BUFLEN_def)
  obtain ys k where k: "bl_round 0 (0, replicate 41 0) ?m = Done (hexnum (bytes ''20000002''), ys) k"
      "receives ((bytes ''ww '' @ bytes ''20000002'' @ bytes '' ff'') @ [13])
         (answer (bytes ''ww '' @ bytes ''20000002'' @ bytes '' ff'') (bytes misaligned_text)) (\<lambda>f. f) (\<lambda>x. x) ?m k"
    using monitor_misaligned [OF p c(1-3) n(1) c(4-6) n(2), of 0 0] by blast
  then show ?thesis using receives_fields(1) [OF k(2)] by (auto simp: receives_def misaligned_text_def)
qed

section \<open>The monitor cannot be made to fail\<close>

definition steady :: "u32 \<Rightarrow> nat \<Rightarrow> (machine, 'a) outcome \<Rightarrow> bool" where
  "steady app k x \<longleftrightarrow> (case x of Done _ n \<Rightarrow> length (pending n) \<le> k | Jumped t _ \<Rightarrow> t = app | _ \<Rightarrow> False)"

lemma steady_simps [simp]:
  "steady app k (Done a n) \<longleftrightarrow> length (pending n) \<le> k" "steady app k (Jumped t n) \<longleftrightarrow> t = app"
  by (simp_all add: steady_def)

lemma steady_bind:
  "steady app k x \<Longrightarrow> (\<And>a n. length (pending n) \<le> k \<Longrightarrow> steady app k (f a n)) \<Longrightarrow> steady app k (andthen x f)"
  by (cases x) (simp_all add: steady_def)

lemma steady_if:
  "(c \<Longrightarrow> steady app k x) \<Longrightarrow> (\<not> c \<Longrightarrow> steady app k y) \<Longrightarrow> steady app k (if c then x else y)"
  by simp

lemma steady_traffic: "traffic [] os a x m \<Longrightarrow> length (pending m) \<le> k \<Longrightarrow> steady app k x"
  by (auto simp: traffic_def dest: serial_pending)

lemma steady_puts: "0 \<notin> set (bytes s) \<Longrightarrow> length (pending m) \<le> k \<Longrightarrow> steady app k (puts s m)"
  by (rule steady_traffic [OF traffic_puts])

lemma steady_printhex: "length (pending m) \<le> k \<Longrightarrow> steady app k (printhex v 8 m)"
  by (rule steady_traffic [OF traffic_printhex8])

lemma steady_putc: "length (pending m) \<le> k \<Longrightarrow> steady app k (usart_putc c m)"
  by (rule steady_traffic [OF traffic_putc])

lemma io_read_pending: "length (pending (snd (io_read r m))) \<le> length (pending m)"
  by (simp add: io_read_def) (simp add: pending_def bit_simps)

lemma io_write_pending: "length (pending (io_write r v m)) \<le> Suc (length (pending m))"
  by (cases r) (auto simp: pending_def bit_simps)

lemma steady_load32:
  "a AND 3 = 0 \<Longrightarrow> length (pending m) \<le> k \<Longrightarrow> steady app k (load32 a m)"
  using io_read_pending [of _ m]
  by (auto simp: load32_def split: option.splits prod.splits) (metis le_trans snd_conv)

lemma steady_store32:
  "a AND 3 = 0 \<Longrightarrow> length (pending m) < k \<Longrightarrow> steady app k (store32 a v m)"
  using io_write_pending [of _ v m]
  by (auto simp: store32_def split: option.splits) (metis Suc_leI le_trans)

lemma steady_dump_ascii: "length (pending m) \<le> k \<Longrightarrow> steady app k (dump_ascii j v msk m)"
  by (induction j arbitrary: msk m) (auto simp: Let_def intro!: steady_bind steady_putc)

lemma steady_dump: "a AND 3 = 0 \<Longrightarrow> length (pending m) \<le> k \<Longrightarrow> steady app k (dump_words i a m)"
  by (induction i arbitrary: a m)
    (auto simp: aligned_next intro!: steady_bind steady_puts steady_printhex steady_load32 steady_dump_ascii)

lemma steady_cmd_rw: "0 \<in> set (drop 3 buf) \<Longrightarrow> length (pending m) \<le> k \<Longrightarrow> steady app k (cmd_rw buf m)"
  using parsehex_terminated [of "drop 3 buf"]
  by (auto simp: cmd_rw_def misaligned_text_def intro!: steady_bind steady_puts steady_printhex steady_load32)

lemma steady_cmd_ww: "0 \<in> set (drop 3 buf) \<Longrightarrow> length (pending m) < k \<Longrightarrow> steady app k (cmd_ww buf m)"
  using parsehex_terminated [of "drop 3 buf"] parsehex_terminated
  by (fastforce simp: cmd_ww_def misaligned_text_def intro!: steady_bind steady_puts steady_store32)

lemma steady_cmd_dump: "length (pending m) \<le> k \<Longrightarrow> steady app k (cmd_dump a m)"
  by (auto simp: cmd_dump_def misaligned_text_def intro!: steady_bind steady_puts steady_dump)

lemma start_app_jumps: "\<exists>n. start_app app m = Jumped app n"
  by (simp add: start_app_def)

lemma steady_command:
  assumes "0 \<notin> set l"
  shows "steady app (length (pending m) + (if 3 \<le> length l then 1 else 0)) (bl_command app a (l @ 0 # ys) m)"
proof -
  let ?buf = "l @ 0 # ys" and ?k = "length (pending m) + (if 3 \<le> length l then 1 else 0)"
  have c: "c_str ?buf = l" using assms by simp
  have three: "3 \<le> length l \<and> 0 \<in> set (drop 3 ?buf)" if "strn_eq 3 ?buf s" "length s = 3" for s
  proof -
    have "length (take 3 l) = 3" using that c by (simp add: strn_eq_def)
    then show ?thesis by simp
  qed
  have rw: "steady app ?k (cmd_rw ?buf m)" if "strn_eq 3 ?buf ''rw ''"
    using three [OF that] by (intro steady_cmd_rw) simp_all
  have ww: "steady app ?k (cmd_ww ?buf m)" if "strn_eq 3 ?buf ''ww ''"
    using three [OF that] by (intro steady_cmd_ww) simp_all
  have dw: "\<exists>b r. parsehex (drop 3 ?buf) = Some (b, r)" if "strn_eq 3 ?buf ''dw ''"
    using three [OF that] parsehex_terminated [of "drop 3 ?buf"] by auto
  have say: "steady app ?k (andthen (puts s m) (\<lambda>_. Done a))" if "0 \<notin> set (bytes s)" for s
    using that by (intro steady_bind steady_puts) simp_all
  have nz_help: "0 \<notin> set (bytes help_text)" by (simp add: help_text_def bytes_append)
  show ?thesis
    unfolding bl_command_def
  proof (intro steady_if)
    show "steady app ?k (andthen (puts help_text m) (\<lambda>_. Done a))" by (rule say [OF nz_help])
    show "steady app ?k (start_app app m)" by (simp add: start_app_def)
    show "steady app ?k (andthen (puts ''??'' m) (\<lambda>_. Done a))" by (rule say) simp
    show "steady app ?k (cmd_rw ?buf m)" if "strn_eq 3 ?buf ''rw ''" by (rule rw [OF that])
    show "steady app ?k (cmd_ww ?buf m)" if "strn_eq 3 ?buf ''ww ''" by (rule ww [OF that])
    show "steady app ?k (cmd_dump a m)" by (rule steady_cmd_dump) simp
    show "steady app ?k (case parsehex (drop 3 ?buf) of None \<Rightarrow> Fault Out_Of_Bounds m
        | Some (b, r) \<Rightarrow> cmd_dump b m)"
      if "strn_eq 3 ?buf ''dw '' \<or> ?buf ! 0 = 110" "?buf ! 0 \<noteq> 110"
      using dw that steady_cmd_dump [of m ?k app] by auto
  qed simp
qed

lemma length_edit: "length (edit sz line c) \<le> Suc (length line)"
  by (auto simp: edit.simps)

lemma length_line_of: "length (line_of sz cs) \<le> length cs"
proof -
  have "length (foldl (edit sz) line cs) \<le> length line + length cs" for line
  proof (induction cs arbitrary: line)
    case Nil
    then show ?case by simp
  next
    case (Cons c cs)
    show ?case using Cons [of "edit sz line c"] length_edit [of sz line c] by simp
  qed
  from this [of "[]"] show ?thesis by (simp add: line_of_def)
qed

lemma bl_round_progress:
  assumes "BUFLEN \<le> length buf"
  shows "(\<exists>n. bl_round app (a, buf) m = Stuck n) \<or> (\<exists>n. bl_round app (a, buf) m = Jumped app n)
    \<or> (\<exists>b buf' n. bl_round app (a, buf) m = Done (b, buf') n \<and> length buf' = length buf
          \<and> length (pending n) < length (pending m))"
proof -
  obtain p where p: "puts ''> '' m = Done () p" "serial [] (bytes ''> '') m p"
    by (rule trafficE [OF traffic_puts [of "''> ''" m]]) simp
  show ?thesis
  proof (cases rule: first_eol [of "pending p"])
    case 1
    then show ?thesis
      using gets_loop_stuck [of "pending p" p buf "[]" BUFLEN] assms p(1)
      by (auto simp: bl_round_def usart_gets_def BUFLEN_def)
  next
    case (2 cs e rest)
    let ?l = "line_of BUFLEN cs"
    obtain ys q where q: "usart_gets buf BUFLEN p = Done (?l @ 0 # ys, length ?l) q"
        "serial (cs @ [e]) (echoes BUFLEN [] cs) p q" "length (?l @ 0 # ys) = length buf"
      using gets_ok [OF 2 _ assms] by (auto simp: BUFLEN_def)
    have less: "length (pending q) + length ?l < length (pending m)"
      using serial_pending [OF p(2)] serial_pending [OF q(2)] length_line_of [of BUFLEN cs] by simp
    note cmd = steady_command [OF line_of_nonzero [of BUFLEN cs], of app q a ys]
    show ?thesis
    proof (cases "bl_command app a (?l @ 0 # ys) q")
      case (Done b r)
      obtain s where s: "puts [CR, LF] r = Done () s" "serial [] (bytes [CR, LF]) r s"
        by (rule trafficE [OF traffic_puts [of "[CR, LF]" r]]) simp
      have "length (pending s) < length (pending m)"
        using cmd less serial_pending [OF s(2)] by (auto simp: Done split: if_splits)
      then show ?thesis using p(1) q(1,3) s(1) by (simp add: bl_round_def Done)
    next
      case (Jumped t n)
      then show ?thesis using cmd p(1) q(1) by (simp add: bl_round_def)
    qed (use cmd in \<open>simp_all add: steady_def\<close>)
  qed
qed

text \<open>C2: Whatever is typed, the monitor never takes a memory fault, never reads or writes outside
  its line buffer and never loops without reading: it ends waiting for input or jumps to the
  application.\<close>

theorem monitor_never_fails:
  assumes "BUFLEN \<le> length buf"
  shows "\<exists>n. bl_monitor app (a, buf) m = Some (Stuck n) \<or> bl_monitor app (a, buf) m = Some (Jumped app n)"
  using assms
proof (induction "length (pending m)" arbitrary: a buf m rule: less_induct)
  case less
  consider n where "bl_round app (a, buf) m = Stuck n" | n where "bl_round app (a, buf) m = Jumped app n"
    | b buf' n where "bl_round app (a, buf) m = Done (b, buf') n" "length buf' = length buf"
      "length (pending n) < length (pending m)"
    using bl_round_progress [OF less.prems, of app a m] by blast
  then show ?case
  proof cases
    case 3
    then show ?thesis using less.hyps [OF 3(3), of buf' b] less.prems by (simp add: bl_monitor.simps [of app "(a, buf)"])
  qed (simp_all add: bl_monitor.simps [of app "(a, buf)"])
qed

theorem monitor_never_fails_witness:
  "\<exists>n. bl_monitor 64 (0, replicate 41 255) (power_on (bytes ''rw zz'' @ [10])) = Some (Stuck n)
    \<or> bl_monitor 64 (0, replicate 41 255) (power_on (bytes ''rw zz'' @ [10])) = Some (Jumped 64 n)"
  by (rule monitor_never_fails) (simp add: BUFLEN_def)

section \<open>The wait at reset\<close>

text \<open>A character has arrived, or will within \<open>k\<close> ticks.\<close>

definition due :: "nat \<Rightarrow> machine \<Rightarrow> bool" where
  "due k m \<longleftrightarrow> bit (ustat m) 2 \<or> (\<exists>d c r. line_in m = (d, c) # r \<and> d < k)"

lemma due_tick_Suc: "due (Suc k) m \<Longrightarrow> due k (tick m)"
  by (auto simp: due_def tick_def tick_rx_def bit_set_bit_iff split: nat.splits)

lemma due_mono: "due k m \<Longrightarrow> k \<le> j \<Longrightarrow> due j m"
  by (auto simp: due_def)

lemma due_tick: "due k m \<Longrightarrow> due k (tick m)"
  using due_tick_Suc due_mono [of k m "Suc k"] by simp

lemma due_udata [simp]: "due k (io_write UDATA v m) \<longleftrightarrow> due k m"
  by (simp add: due_def bit_unset_bit_iff)

lemma due_io [simp]:
  "due k (io_write POUT v m) \<longleftrightarrow> due k m" "due k (io_write UBAUD v m) \<longleftrightarrow> due k m"
  by (simp_all add: due_def)

lemma wait_stat_invariant:
  assumes "\<And>m. P m \<Longrightarrow> P (tick m)" and "wait_stat fl m = Some m'" and "P m"
  shows "P m'"
proof -
  have "P m \<longrightarrow> P m'"
  proof (rule wait_stat.raw_induct [where P = "\<lambda>fl m m'. P m \<longrightarrow> P m'", OF _ assms(2)])
    fix f :: "u32 \<Rightarrow> machine \<Rightarrow> machine option" and fl m m'
    assume IH: "\<And>fl m m'. f fl m = Some m' \<Longrightarrow> P m \<longrightarrow> P m'"
      and eq: "(case io_read USTAT m of (v, m') \<Rightarrow> if v AND fl = 0 then f fl m' else Some m') = Some m'"
    show "P m \<longrightarrow> P m'"
      using eq IH [of fl "tick m"] assms(1) by (auto simp: io_read_def split: if_splits)
  qed
  then show ?thesis using assms(3) by blast
qed

lemma due_putc: "due k m \<Longrightarrow> usart_putc c m = Done () n \<Longrightarrow> due k n"
  using wait_stat_invariant [of "due k" 16 "io_write UDATA (ucast (ucast c :: u8)) m" n] due_tick
  by (auto simp: usart_putc_def Let_def simp del: io_write.simps split: option.splits)

lemma due_puts_by: "due k m \<Longrightarrow> puts_by usart_putc cs m = Done () n \<Longrightarrow> due k n"
proof (induction cs arbitrary: m)
  case Nil
  then show ?case by simp
next
  case (Cons c cs)
  then show ?case using due_putc by (fastforce simp: andthen_Done_iff split: if_splits)
qed

text \<open>The stars: each step of the wait may print one and move the led bar.\<close>

definition boots :: "nat \<Rightarrow> machine \<Rightarrow> machine \<Rightarrow> bool" where
  "boots j m n \<longleftrightarrow> receives [] (replicate j 42) (\<lambda>f. f) (drop_bit j) m n"

lemma boots_0 [simp]: "serial [] [] m n \<Longrightarrow> boots 0 m n"
  using receives_serial [of "[]" "[]" m n] by (simp add: boots_def id_def fun_eq_iff)

lemma boots_trans: "boots i m n \<Longrightarrow> boots j n k \<Longrightarrow> boots (i + j) m k"
  using receives_trans [of "[]" "replicate i 42" "\<lambda>f. f" "drop_bit i" m n "[]" "replicate j 42" "\<lambda>f. f" "drop_bit j" k]
  by (simp add: boots_def replicate_add drop_bit_drop_bit add.commute)

lemma boot_star_boots:
  "\<exists>n. boot_star m = Done () n \<and> boots 1 m n \<and> (due k m \<longrightarrow> due k n)"
proof -
  obtain p where p: "usart_putc 42 m = Done () p" "serial [] [42] m p"
    using usart_putc_serial [of 42 m] by auto
  have "receives [] [42] (\<lambda>f. f) (\<lambda>x. x) m p" by (rule receives_serial [OF p(2)])
  then have "boots 1 m (io_write POUT (drop_bit 1 (pouta p)) (tick p))"
    using core_fields(2) [OF serial_core [OF p(2)]] by (simp add: boots_def receives_def)
  then show ?thesis
    using p(1) due_putc [OF _ p(1), of k] due_tick [of k p] by (simp add: boot_star_def io_read_def del: io_write.simps)
qed


text \<open>The number of stars that are still to come, from a given count on.\<close>

definition stars :: "nat \<Rightarrow> nat" where
  "stars count = 10 - (count - 1) div 1048576"

lemma stars_Suc:
  assumes "1 \<le> count" and "count \<le> 10485760"
  shows "stars count = (if count mod 1048576 = 0 then 1 else 0) + stars (Suc count)"
proof -
  obtain c where c: "count = Suc c" using assms(1) by (cases count) auto
  have "c div 1048576 < 10" using assms(2) c by (simp add: less_mult_imp_div_less)
  then show ?thesis by (simp add: stars_def c div_Suc)
qed

lemma boot_wait_step:
  assumes "count \<le> 10485760"
  shows "\<exists>n. boot_wait count m = (if bit (ustat n) 2 then Done True (tick n) else boot_wait (Suc count) (tick n))
    \<and> boots (if count mod 1048576 = 0 then 1 else 0) m n \<and> (due k m \<longrightarrow> due k n)"
proof -
  have le: "count \<le> BOOTWAIT * 1024 * 1024" using assms by (simp add: BOOTWAIT_def)
  obtain n where n: "(if count mod 1048576 = 0 then boot_star m else Done () m) = Done () n"
      "boots (if count mod 1048576 = 0 then 1 else 0) m n" "due k m \<longrightarrow> due k n"
    using boot_star_boots [of m k] by (cases "count mod 1048576 = 0") auto
  have "boot_wait count m = (case usart_received n of (r, m) \<Rightarrow>
      if r \<noteq> 0 then Done True m else boot_wait (Suc count) m)"
    using le n(1) by (simp add: boot_wait.simps [of count m])
  then show ?thesis using n(2,3) by (auto simp: usart_received_def io_read_def word_bits)
qed

lemma boots_pending: "boots j m n \<Longrightarrow> pending n = pending m"
  by (simp add: boots_def receives_def)

lemma boot_wait_idle:
  assumes "pending m = []" and "1 \<le> count" and "count \<le> 10485761"
  shows "\<exists>n. boot_wait count m = Done False n \<and> boots (stars count) m n"
  using assms
proof (induction "10485761 - count" arbitrary: count m)
  case 0
  then have "count = 10485761" by simp
  then show ?case by (auto simp: boot_wait.simps [of _ m] BOOTWAIT_def stars_def)
next
  case (Suc d)
  then have le: "count \<le> 10485760" by simp
  obtain n where n: "boot_wait count m = (if bit (ustat n) 2 then Done True (tick n) else boot_wait (Suc count) (tick n))"
      "boots (if count mod 1048576 = 0 then 1 else 0) m n"
    using boot_wait_step [OF le] by blast
  have pn: "pending n = []" using boots_pending [OF n(2)] Suc.prems(1) by simp
  then have p: "pending (tick n) = []" "\<not> bit (ustat n) 2"
    by (simp, simp add: pending_def split: if_splits)
  have d: "d = 10485761 - Suc count" using Suc.hyps(2) by simp
  obtain k where k: "boot_wait (Suc count) (tick n) = Done False k" "boots (stars (Suc count)) (tick n) k"
    using Suc.hyps(1) [OF d p(1)] le by auto
  have "boots 0 n (tick n)" by (simp add: serial_tick)
  from boots_trans [OF n(2) boots_trans [OF this k(2)]] show ?case
    using n(1) k(1) p(2) stars_Suc [OF Suc.prems(2) le] by auto
qed

lemma no_star: "1 \<le> count \<Longrightarrow> count < 1048576 \<Longrightarrow> \<not> 1048576 dvd (count::nat)"
  by (auto dest: dvd_imp_le)

lemma boot_wait_key:
  assumes "due k m" and "1 \<le> count" and "count + k \<le> 10485760"
  shows "\<exists>j n. boot_wait count m = Done True n \<and> boots j m n \<and> j \<le> stars count
    \<and> (count + k < 1048576 \<longrightarrow> j = 0)"
  using assms
proof (induction k arbitrary: count m)
  case 0
  obtain n where n: "boot_wait count m = (if bit (ustat n) 2 then Done True (tick n) else boot_wait (Suc count) (tick n))"
      "boots (if count mod 1048576 = 0 then 1 else 0) m n" "due 0 n"
    using boot_wait_step [of count m 0] 0 by auto
  have "boots 0 n (tick n)" by (simp add: serial_tick)
  from boots_trans [OF n(2) this] show ?case
    using n(1,3) stars_Suc [of count] 0 no_star [of count] by (auto simp: due_def)
next
  case (Suc k)
  obtain n where n: "boot_wait count m = (if bit (ustat n) 2 then Done True (tick n) else boot_wait (Suc count) (tick n))"
      "boots (if count mod 1048576 = 0 then 1 else 0) m n" "due (Suc k) n"
    using boot_wait_step [of count m "Suc k"] Suc.prems by auto
  have t: "boots 0 n (tick n)" by (simp add: serial_tick)
  have st: "stars count = (if count mod 1048576 = 0 then 1 else 0) + stars (Suc count)"
    using stars_Suc [of count] Suc.prems by simp
  show ?case
  proof (cases "bit (ustat n) 2")
    case True
    then show ?thesis using n(1) boots_trans [OF n(2) t] st no_star [of count] Suc.prems(2) by auto
  next
    case False
    obtain j k' where k': "boot_wait (Suc count) (tick n) = Done True k'" "boots j (tick n) k'" "j \<le> stars (Suc count)"
      "count + Suc k < 1048576 \<longrightarrow> j = 0"
      using Suc.IH [OF due_tick_Suc [OF n(3)], of "Suc count"] Suc.prems by auto
    show ?thesis
      using n(1) False k'(1,3,4) boots_trans [OF n(2) boots_trans [OF t k'(2)]] st no_star [of count] Suc.prems(2) by auto
  qed
qed

section \<open>From reset\<close>

lemma greet:
  "\<exists>n. puts greeting (usart_init m) = Done () n \<and> pending n = pending m
    \<and> line_out n = line_out m @ bytes greeting \<and> core n = (core m)\<lparr>ubaud := 5207\<rparr> \<and> (due k m \<longrightarrow> due k n)"
proof -
  have nz: "0 \<notin> set (bytes greeting)" by (simp add: greeting_def)
  have i: "usart_init m = m\<lparr>ubaud := 5207\<rparr>" by (simp add: usart_init_def F_CPU_def BAUD_RATE_def)
  obtain n where n: "puts greeting (usart_init m) = Done () n" "serial [] (bytes greeting) (usart_init m) n"
    by (rule trafficE [OF traffic_puts [OF nz, of "usart_init m"]])
  have "due k m \<longrightarrow> due k n"
    using due_puts_by [of k "usart_init m" "cstr greeting" n] n(1) by (auto simp: usart_puts_def i due_def)
  then show ?thesis using n unfolding i by (auto simp: serial_def)
qed

lemma receives_core:
  "receives i os f p m n \<Longrightarrow> core n = (core m)\<lparr>mem := f (mem m), pouta := p (pouta m)\<rparr>"
  by (simp add: receives_def)

lemma after_wait:
  assumes "core g = (core m)\<lparr>ubaud := b\<rparr>" and "boots j (io_write POUT v g) n"
  shows "core n = (core m)\<lparr>ubaud := b, pouta := drop_bit j v\<rparr>" and "pending n = pending g"
    and "line_out n = line_out g @ replicate j 42"
proof -
  have "mem g = mem m" using arg_cong [OF assms(1), of mem] by simp
  then show "core n = (core m)\<lparr>ubaud := b, pouta := drop_bit j v\<rparr>"
    using receives_core [OF assms(2) [unfolded boots_def]] assms(1) by (simp add: core_def)
  show "pending n = pending g" "line_out n = line_out g @ replicate j 42"
    using assms(2) by (simp_all add: boots_def receives_def)
qed

lemma boot_start_idle:
  assumes "pending m = []"
  shows "\<exists>n. boot_start m = Jumped 0 n \<and> line_out n = line_out m @ bytes greeting @ replicate 10 42
    \<and> core n = (core m)\<lparr>pouta := 0, ubaud := 0\<rparr> \<and> pending n = []"
proof -
  obtain g where g: "puts greeting (usart_init m) = Done () g" "pending g = []"
      "line_out g = line_out m @ bytes greeting" "core g = (core m)\<lparr>ubaud := 5207\<rparr>"
    using greet [of m 0] assms by auto
  let ?g = "io_write POUT (push_bit BOOTWAIT 1 - 1) g"
  obtain n where n: "boot_wait 1 ?g = Done False n" "boots 10 ?g n"
    using boot_wait_idle [of ?g 1] g(2) by (auto simp: stars_def)
  show ?thesis
    using g n(1) after_wait [OF g(4) n(2)] by (simp add: boot_start_def)
qed

lemma boot_start_key:
  assumes "due k m" and "k < 10485760"
  shows "\<exists>j n. boot_start m = Done () n \<and> j \<le> 10 \<and> (k < 1048575 \<longrightarrow> j = 0) \<and> line_out n = line_out m @ bytes greeting @ replicate j 42
    \<and> core n = (core m)\<lparr>pouta := 0, ubaud := 5207\<rparr> \<and> pending n = pending m"
proof -
  obtain g where g: "puts greeting (usart_init m) = Done () g" "pending g = pending m"
      "line_out g = line_out m @ bytes greeting" "core g = (core m)\<lparr>ubaud := 5207\<rparr>" "due k g"
    using greet [of m k] assms by auto
  let ?g = "io_write POUT (push_bit BOOTWAIT 1 - 1) g"
  obtain j n where n: "boot_wait 1 ?g = Done True n" "boots j ?g n" "j \<le> stars 1"
      "k < 1048575 \<longrightarrow> j = 0"
    using boot_wait_key [of k ?g 1] g(5) assms(2) by (auto simp del: io_write.simps)
  show ?thesis
    using g n(1,3,4) after_wait [OF g(4) n(2)] by (auto simp: boot_start_def stars_def)
qed

text \<open>C4: When no key arrives the boot loader prints its greeting and ten stars and starts the
  application at address 0, with leds and baud rate cleared and the rest of the machine as
  it was.\<close>

theorem boot_idle_starts_application:
  assumes "pending m = []"
  shows "\<exists>n. boot_main buf m = Some (Jumped 0 n) \<and> line_out n = line_out m @ bytes greeting @ replicate 10 42
    \<and> core n = (core m)\<lparr>pouta := 0, ubaud := 0\<rparr>"
  using boot_start_idle [OF assms] by (auto simp: boot_main_def)

lemma boot_uploads:
  assumes "due k m" and "k < 10485760" and "pending m = 33 # cs"
  shows "\<exists>j n. j \<le> 10 \<and> (k < 1048575 \<longrightarrow> j = 0) \<and> boot_main buf m =
      andthen_opt (andthen_opt (upload_loop 0 n) (\<lambda>app m. Some (Done app (io_write POUT 0xaa m))))
        (\<lambda>app m. andthen_opt (Some (puts [CR, LF] m)) (\<lambda>_ m. bl_monitor app (0, buf) m))
    \<and> line_out n = line_out m @ bytes greeting @ replicate j 42 @ ack
    \<and> core n = (core m)\<lparr>pouta := 0, ubaud := 5207\<rparr> \<and> pending n = cs"
proof -
  obtain j b where b: "boot_start m = Done () b" "j \<le> 10" "k < 1048575 \<longrightarrow> j = 0" "line_out b = line_out m @ bytes greeting @ replicate j 42"
      "core b = (core m)\<lparr>pouta := 0, ubaud := 5207\<rparr>" "pending b = pending m"
    using boot_start_key [OF assms(1,2)] by blast
  obtain c where c: "usart_getc b = Done 33 c" "serial [33] [] b c"
    using usart_getc_serial [of b 33 cs] b(6) assms(3) by auto
  obtain d where d: "puts [CHR ''?'', LF] c = Done () d" "serial [] ack c d"
    using puts_ack [of c] by blast
  have s: "serial [33] ack b d" using serial_trans [OF c(2) d(2)] by simp
  show ?thesis
    using b c(1) d(1) s assms(3) by (auto simp: boot_main_def boot_upload_def serial_def)
qed

lemma upload_then_jump:
  assumes "due k m" and "k < 10485760" and "list_all wf_srec rs" and "list_all loadable rs"
    and "pending m = 33 # srec_text rs @ 74 # rest"
  shows "\<exists>j n. j \<le> 10 \<and> (k < 1048575 \<longrightarrow> j = 0) \<and> boot_main buf m = Some (Jumped (file_start rs 0) n)
    \<and> mem n = file_mem rs (mem m)
    \<and> core n = (core m)\<lparr>mem := file_mem rs (mem m), pouta := 0, ubaud := 0\<rparr>
    \<and> line_out n = line_out m @ bytes greeting @ replicate j 42 @ concat (replicate (Suc (length rs)) ack)
    \<and> pending n = rest"
proof -
  obtain j b where b0: "k < 1048575 \<longrightarrow> j = 0" and b: "j \<le> 10" "boot_main buf m =
      andthen_opt (andthen_opt (upload_loop 0 b) (\<lambda>app m. Some (Done app (io_write POUT 0xaa m))))
        (\<lambda>app m. andthen_opt (Some (puts [CR, LF] m)) (\<lambda>_ m. bl_monitor app (0, buf) m))"
      "line_out b = line_out m @ bytes greeting @ replicate j 42 @ ack"
      "core b = (core m)\<lparr>pouta := 0, ubaud := 5207\<rparr>" "pending b = srec_text rs @ 74 # rest"
    using boot_uploads [OF assms(1,2,5)] by blast
  obtain n where n: "upload_loop 0 b = Some (Jumped (file_start rs 0) n)" "pending n = rest"
      "line_out n = line_out b @ concat (replicate (length rs) ack)"
      "core n = (core b)\<lparr>mem := file_mem rs (mem b), pouta := 0, ubaud := 0\<rparr>"
    using upload_file_jump [OF assms(3,4) b(5), of 0] by blast
  have mb: "mem b = mem m" using arg_cong [OF b(4), of mem] by simp
  have cn: "core n = (core m)\<lparr>mem := file_mem rs (mem m), pouta := 0, ubaud := 0\<rparr>"
    using n(4) b(4) mb by simp
  have "mem n = file_mem rs (mem m)" using arg_cong [OF cn, of mem] by simp
  then show ?thesis using b0 b n cn by auto
qed

text \<open>C1: From reset, with a key due within the 10 * 2^20 polls of the wait loop (about five
  seconds, says the documentation), an exclamation mark, a well-formed S-record file and a J
  on the serial line, the boot loader jumps to the start address of the file with memory
  holding exactly the image of the file, the led and baud registers cleared, and, after
  greeting and stars, one acknowledge sent for the exclamation mark and one per record.\<close>

theorem boot_runs_uploaded_file:
  assumes "due k m" and "k < 10485760" and "list_all wf_srec rs" and "list_all loadable rs"
    and "pending m = 33 # srec_text rs @ 74 # rest"
  shows "\<exists>j n. j \<le> 10 \<and> boot_main buf m = Some (Jumped (file_start rs 0) n)
    \<and> mem n = file_mem rs (mem m)
    \<and> core n = (core m)\<lparr>mem := file_mem rs (mem m), pouta := 0, ubaud := 0\<rparr>
    \<and> line_out n = line_out m @ bytes greeting @ replicate j 42 @ concat (replicate (Suc (length rs)) ack)
    \<and> pending n = rest"
  using upload_then_jump [OF assms] by blast

lemma upload_then_monitor:
  assumes "due k m" and "k < 10485760" and "list_all wf_srec rs" and "list_all loadable rs"
    and "pending m = 33 # srec_text rs @ 35 # rest"
  shows "\<exists>j n. j \<le> 10 \<and> (k < 1048575 \<longrightarrow> j = 0) \<and> boot_main buf m = bl_monitor (file_start rs 0) (0, buf) n
    \<and> mem n = file_mem rs (mem m) \<and> pouta n = 0xaa \<and> pending n = rest
    \<and> line_out n = line_out m @ bytes greeting @ replicate j 42 @ concat (replicate (Suc (length rs)) ack) @ bytes [CR, LF]"
proof -
  obtain j b where b0: "k < 1048575 \<longrightarrow> j = 0" and b: "j \<le> 10" "boot_main buf m =
      andthen_opt (andthen_opt (upload_loop 0 b) (\<lambda>app m. Some (Done app (io_write POUT 0xaa m))))
        (\<lambda>app m. andthen_opt (Some (puts [CR, LF] m)) (\<lambda>_ m. bl_monitor app (0, buf) m))"
      "line_out b = line_out m @ bytes greeting @ replicate j 42 @ ack"
      "core b = (core m)\<lparr>pouta := 0, ubaud := 5207\<rparr>" "pending b = srec_text rs @ 35 # rest"
    using boot_uploads [OF assms(1,2,5)] by blast
  have mb: "mem b = mem m" using arg_cong [OF b(4), of mem] by simp
  obtain n1 where n1: "upload_loop 0 b = upload_loop (file_start rs 0) n1"
      "receives (srec_text rs) (concat (replicate (length rs) ack)) (file_mem rs) (led (length rs)) b n1"
    using upload_loop_records [OF assms(3,4) b(5)] by blast
  obtain n2 where n2: "upload_loop (file_start rs 0) n1 = Some (Done (file_start rs 0) n2)"
      "receives [35] [] (\<lambda>f. f) (\<lambda>x. x XOR 1) n1 n2"
    using upload_loop_break [of n1 rest] receives_pending [OF n1(2)] b(5) by auto
  let ?n = "io_write POUT 0xaa n2"
  obtain n where n: "puts [CR, LF] ?n = Done () n" "serial [] (bytes [CR, LF]) ?n n"
    by (rule trafficE [OF traffic_puts [of "[CR, LF]" ?n]]) simp
  have 1: "receives (srec_text rs @ [35]) (concat (replicate (length rs) ack)) (file_mem rs)
      (\<lambda>x. led (length rs) x XOR 1) b n2"
    using receives_trans [OF n1(2) n2(2)] by simp
  have "mem n = file_mem rs (mem m)" "pouta n = 0xaa"
    using receives_fields(1) [OF 1] serial_mem [OF n(2)] mb core_fields(2) [OF serial_core [OF n(2)]] by simp_all
  moreover have "pending n = rest" using receives_pending [OF 1] serial_pending [OF n(2)] b(5) by simp
  moreover have "line_out n = line_out b @ concat (replicate (length rs) ack) @ bytes [CR, LF]"
    using 1 serial_out [OF n(2)] by (simp add: receives_def)
  ultimately show ?thesis using b0 b n1(1) n2(1) n(1) by auto
qed

text \<open>C3: After an upload that ends with a hash sign instead of J the boot loader is in the
  monitor with the start address and the image of the file, the leds showing 0xaa.\<close>

theorem boot_monitor_after_upload:
  assumes "due k m" and "k < 10485760" and "list_all wf_srec rs" and "list_all loadable rs"
    and "pending m = 33 # srec_text rs @ 35 # rest"
  shows "\<exists>j n. j \<le> 10 \<and> boot_main buf m = bl_monitor (file_start rs 0) (0, buf) n
    \<and> mem n = file_mem rs (mem m) \<and> pouta n = 0xaa \<and> pending n = rest
    \<and> line_out n = line_out m @ bytes greeting @ replicate j 42 @ concat (replicate (Suc (length rs)) ack) @ bytes [CR, LF]"
  using upload_then_monitor [OF assms] by blast

text \<open>The sessions on a concrete file: one data record and an entry point.\<close>

definition tiny_file :: "srec list" where
  "tiny_file = [Data 3 0x20000004 [0x13, 0, 0xff] [52, 56], End 3 0x20000004 [68, 52]]"

lemma tiny_file_ok: "list_all wf_srec tiny_file" "list_all loadable tiny_file"
    "file_start tiny_file 0 = 0x20000004"
  by code_simp+

theorem boot_idle_starts_application_witness:
  "\<exists>n. boot_main (replicate 41 0) (power_on []) = Some (Jumped 0 n)
    \<and> line_out n = bytes greeting @ replicate 10 42 \<and> core n = (core (power_on []))\<lparr>pouta := 0, ubaud := 0\<rparr>"
  using boot_idle_starts_application [of "power_on []" "replicate 41 0"] by simp

theorem boot_runs_uploaded_file_witness:
  "\<exists>j n. j \<le> 10 \<and> boot_main (replicate 41 0) (power_on (33 # srec_text tiny_file @ [74])) = Some (Jumped 0x20000004 n)
    \<and> mem n = file_mem tiny_file (\<lambda>_. 0)
    \<and> line_out n = bytes greeting @ replicate j 42 @ concat (replicate 3 ack)"
proof -
  have d: "due 1 (power_on (33 # cs))" for cs by (simp add: due_def power_on_def)
  have l: "Suc (length tiny_file) = 3" by (simp add: tiny_file_def)
  show ?thesis
    using boot_runs_uploaded_file [OF d [of "srec_text tiny_file @ [74]"] _ tiny_file_ok(1,2), of "[]" "replicate 41 0"]
    by (auto simp: tiny_file_ok(3) l)
qed

theorem boot_monitor_after_upload_witness:
  "\<exists>n. boot_main (replicate 41 0) (power_on (33 # srec_text tiny_file @ [35])) = bl_monitor 0x20000004 (0, replicate 41 0) n
    \<and> mem n = file_mem tiny_file (\<lambda>_. 0) \<and> pouta n = 0xaa"
proof -
  have d: "due 1 (power_on (33 # cs))" for cs by (simp add: due_def power_on_def)
  show ?thesis
    using boot_monitor_after_upload [OF d [of "srec_text tiny_file @ [35]"] _ tiny_file_ok(1,2), of "[]" "replicate 41 0"]
    by (auto simp: tiny_file_ok(3))
qed

end
