(* ===== verification/SysTime.thy ===== *)
theory SysTime
  imports Serial
begin

text \<open>
  The 64-bit microsecond clock of the processor, read by a 32-bit program: the loop that reads
  \<open>TIMEH\<close>, \<open>TIME\<close> and \<open>TIMEH\<close> again until both halves belong together. It stands in
  \<open>sys_gettimeofday.c\<close>, \<open>sys_times.c\<close>, \<open>universal_handler.c\<close> (on the CSR copies of the
  registers, which hold the same values) and \<open>handlers.c\<close> (on the memory-mapped registers). The
  loop returns a value the clock really had, and it does return.
\<close>

section \<open>The loop\<close>

partial_function (option) read_time :: "machine \<Rightarrow> (u32 \<times> u32 \<times> machine) option" where
  "read_time m =
     (case io_read TIMEH m of (hi, m) \<Rightarrow>
      case io_read TIMEL m of (lo, m) \<Rightarrow>
      case io_read TIMEH m of (hi', m) \<Rightarrow>
        if hi \<noteq> hi' then read_time m else Some (hi, lo, m))"

definition join64 :: "u32 \<Rightarrow> u32 \<Rightarrow> u64" where
  "join64 hi lo = push_bit 32 (ucast hi) OR ucast lo"

section \<open>The clock\<close>

lemma tick_clock:
  "mtime (tick m) = mtime m + of_nat (elapse m (ticks m))"
  "ticks (tick m) = Suc (ticks m)" "elapse (tick m) = elapse m"
  by (auto simp: tick_def tick_time_def tick_rx_def tick_tx_def
      split: option.splits nat.splits list.splits prod.splits)

definition hi32 :: "u64 \<Rightarrow> u32" where "hi32 t = ucast (drop_bit 32 t)"
definition lo32 :: "u64 \<Rightarrow> u32" where "lo32 t = ucast t"

lemma join64_halves: "join64 (hi32 t) (lo32 t) = t"
  by (rule bit_word_eqI) (auto simp: join64_def hi32_def lo32_def bit_simps)

lemma io_read_time:
  "io_read TIMEH m = (hi32 (mtime m), tick m)" "io_read TIMEL m = (lo32 (mtime m), tick m)"
  by (simp_all add: io_read_def hi32_def lo32_def)

lemma read_time_unfold:
  "read_time m = (if hi32 (mtime m) \<noteq> hi32 (mtime (tick (tick m))) then read_time (tick (tick (tick m)))
     else Some (hi32 (mtime m), lo32 (mtime (tick m)), tick (tick (tick m))))"
  by (subst read_time.simps) (simp add: io_read_time)

text \<open>The upper half of the clock, and how it moves.\<close>

lemma unat_hi32: "unat (hi32 t) = unat t div 2 ^ 32"
proof -
  have "unat t < 2 ^ 64" using unsigned_less [of t] by simp
  then have "unat t div 2 ^ 32 < 2 ^ 32" by simp
  then show ?thesis
    by (simp add: hi32_def unsigned_ucast_eq drop_bit_eq_div unat_div take_bit_nat_eq_self_iff)
qed

text \<open>Within less than half the range of the clock, an upper half seen twice has not changed
  in between.\<close>

lemma hi32_between:
  assumes "hi32 (t + of_nat (a + b)) = hi32 t" and "a + b < 2 ^ 63"
  shows "hi32 (t + of_nat a) = hi32 t"
proof -
  define p where "p = unat t"
  have p: "p < 2 ^ 64" unfolding p_def using unsigned_less [of t] by simp
  have u: "unat (t + of_nat k) = (p + k) mod 2 ^ 64" for k
    by (simp add: p_def unat_word_ariths unat_of_nat take_bit_eq_mod mod_simps)
  have same: "(p + (a + b)) mod 2 ^ 64 div 2 ^ 32 = p div 2 ^ 32"
    using arg_cong [OF assms(1), of unat] unfolding unat_hi32 u by (simp add: p_def)
  have small: "p + (a + b) < 2 ^ 64"
  proof (rule ccontr)
    assume "\<not> p + (a + b) < 2 ^ 64"
    then have "(p + (a + b)) mod 2 ^ 64 = p + (a + b) - 2 ^ 64"
      using p assms(2) by (simp add: mod_if)
    then have "(p + (a + b) - 2 ^ 64) div 2 ^ 32 = p div 2 ^ 32" using same by simp
    then have eq: "(p + (a + b) - 2 ^ 64) div 4294967296 = p div 4294967296" by simp
    have "p mod 4294967296 < 4294967296" by simp
    then have "p < (p + (a + b) - 2 ^ 64) + 4294967296"
      using eq div_mult_mod_eq [of p 4294967296] div_mult_mod_eq [of "p + (a + b) - 2 ^ 64" 4294967296]
      by linarith
    then show False using assms(2) p \<open>\<not> p + (a + b) < 2 ^ 64\<close> by simp
  qed
  then have "(p + a) mod 2 ^ 64 = p + a" "(p + (a + b)) div 2 ^ 32 = p div 2 ^ 32"
    using same by simp_all
  then have "(p + a) mod 2 ^ 64 div 2 ^ 32 = p div 2 ^ 32"
    using div_le_mono [of "p + a" "p + (a + b)" "2 ^ 32"] div_le_mono [of p "p + a" "2 ^ 32"] by simp
  then show ?thesis
    unfolding word_unat_eq_iff unat_hi32 u by (simp add: p_def)
qed

section \<open>The loop returns a time that was\<close>

text \<open>The environment \<open>brisk\<close>: a register access takes less than \<open>2 ^ 29\<close> microseconds.\<close>

definition brisk :: "machine \<Rightarrow> bool" where
  "brisk m \<longleftrightarrow> (\<forall>k. elapse m k < 2 ^ 29)"

lemma brisk_tick [simp]: "brisk (tick m) \<longleftrightarrow> brisk m"
  by (simp add: brisk_def tick_clock)

lemma clock_run:
  "mtime (tick m) = mtime m + of_nat (elapse m (ticks m))"
  "mtime (tick (tick m)) = mtime m + of_nat (elapse m (ticks m) + elapse m (Suc (ticks m)))"
  by (simp_all add: tick_clock)

lemma hi32_run:
  assumes "brisk m" and "hi32 (mtime (tick (tick m))) = hi32 (mtime m)"
  shows "hi32 (mtime (tick m)) = hi32 (mtime m)"
proof -
  have "elapse m (ticks m) < 2 ^ 29" "elapse m (Suc (ticks m)) < 2 ^ 29"
    using assms(1) by (simp_all add: brisk_def)
  then have "elapse m (ticks m) + elapse m (Suc (ticks m)) < 2 ^ 63" by simp
  then show ?thesis
    using hi32_between assms(2) [unfolded clock_run(2)] unfolding clock_run(1) by blast
qed

text \<open>The upper half moves at most once in \<open>2 ^ 32\<close> microseconds: two rounds are enough.\<close>

lemma hi32_changes_once:
  assumes "hi32 (t + of_nat a) \<noteq> hi32 t" and "a + b < 2 ^ 32"
  shows "hi32 (t + of_nat (a + b)) = hi32 (t + of_nat a)"
proof -
  define p where "p = unat t"
  have p: "p < 2 ^ 64" unfolding p_def using unsigned_less [of t] by simp
  have u: "unat (t + of_nat k) = (p + k) mod 2 ^ 64" for k
    by (simp add: p_def unat_word_ariths unat_of_nat take_bit_eq_mod mod_simps)
  have halves: "(x mod 2 ^ 64) div 2 ^ 32 = (x div 2 ^ 32) mod 2 ^ 32" for x :: nat
    using drop_bit_take_bit [of 32 64 x] by (simp add: take_bit_eq_mod drop_bit_eq_div)
  let ?q = "p div 2 ^ 32" and ?r = "p mod 2 ^ 32"
  have pq: "p = ?q * 2 ^ 32 + ?r" by simp
  have le: "(p + k) div 2 ^ 32 \<le> Suc ?q" "?q \<le> (p + k) div 2 ^ 32" if "k < 2 ^ 32" for k
  proof -
    have "p + k < (Suc (Suc ?q)) * 2 ^ 32" using pq that by (simp add: algebra_simps)
    then show "(p + k) div 2 ^ 32 \<le> Suc ?q" using less_mult_imp_div_less [of "p + k"] by fastforce
    show "?q \<le> (p + k) div 2 ^ 32" by (rule div_le_mono) simp
  qed
  have "(p + a) div 2 ^ 32 \<noteq> ?q"
    using assms(1) unfolding word_unat_eq_iff unat_hi32 u halves
    using p by (auto simp: p_def [symmetric])
  then have "(p + a) div 2 ^ 32 = Suc ?q" using le [of a] assms(2) by simp
  moreover have "(p + a) div 2 ^ 32 \<le> (p + (a + b)) div 2 ^ 32" by (rule div_le_mono) simp
  ultimately have "(p + (a + b)) div 2 ^ 32 = (p + a) div 2 ^ 32" using le(1) [OF assms(2)] by simp
  then show ?thesis unfolding word_unat_eq_iff unat_hi32 u halves by simp
qed

lemma second_round_agrees:
  assumes "brisk m" and "hi32 (mtime m) \<noteq> hi32 (mtime (tick (tick m)))"
  defines "n \<equiv> tick (tick (tick m))"
  shows "hi32 (mtime n) = hi32 (mtime (tick (tick n)))"
proof -
  let ?e = "\<lambda>k. elapse m (ticks m + k)"
  let ?a = "?e 0 + ?e 1"
  have e: "?e k < 2 ^ 29" for k using assms by (simp add: brisk_def)
  have t: "mtime (tick (tick m)) = mtime m + of_nat ?a"
    "mtime n = mtime m + of_nat (?a + ?e 2)"
    "mtime (tick (tick n)) = mtime m + of_nat (?a + (?e 2 + ?e 3 + ?e 4))"
    by (simp_all add: n_def tick_clock numeral_eq_Suc)
  have moved: "hi32 (mtime m + of_nat ?a) \<noteq> hi32 (mtime m)" using assms(2) t(1) by simp
  have small: "?a + ?e 2 < 2 ^ 32" "?a + (?e 2 + ?e 3 + ?e 4) < 2 ^ 32"
    using e [of 0] e [of 1] e [of 2] e [of 3] e [of 4] by simp_all
  show ?thesis
    unfolding t(2,3) hi32_changes_once [OF moved small(1)] hi32_changes_once [OF moved small(2)] ..
qed

lemma read_time_returns:
  assumes "brisk m"
  shows "\<exists>hi lo m'. read_time m = Some (hi, lo, m')"
  using second_round_agrees [OF assms]
  by (auto simp: read_time_unfold [of m] read_time_unfold [of "tick (tick (tick m))"])

text \<open>What the loop gives is the clock at a tick it passed: the second access of its first round,
  or of its second round when the upper half moved during the first. The machine is the one it
  began with, two ticks after that one.\<close>

definition read_tick :: "machine \<Rightarrow> nat" where
  "read_tick m = (if hi32 (mtime m) = hi32 (mtime (tick (tick m))) then 1 else 4)"

definition clock_after :: "nat \<Rightarrow> machine \<Rightarrow> u64" where
  "clock_after k m = mtime ((tick ^^ k) m)"

lemma read_time_ticks:
  assumes "brisk m"
  shows "\<exists>hi lo. read_time m = Some (hi, lo, (tick ^^ (read_tick m + 2)) m)
    \<and> join64 hi lo = clock_after (read_tick m) m"
proof -
  have agreed: "read_time n = Some (hi32 (mtime n), lo32 (mtime (tick n)), tick (tick (tick n)))
      \<and> join64 (hi32 (mtime n)) (lo32 (mtime (tick n))) = mtime (tick n)"
    if "brisk n" "hi32 (mtime n) = hi32 (mtime (tick (tick n)))" for n
    using hi32_run [OF that(1)] that(2) join64_halves [of "mtime (tick n)"] by (simp add: read_time_unfold [of n])
  show ?thesis
  proof (cases "hi32 (mtime m) = hi32 (mtime (tick (tick m)))")
    case True
    show ?thesis
      using agreed [OF assms True] True by (simp add: read_tick_def clock_after_def numeral_eq_Suc)
  next
    case False
    let ?n = "tick (tick (tick m))"
    have "read_time m = read_time ?n" using False by (simp add: read_time_unfold [of m])
    moreover have "brisk ?n" using assms by simp
    ultimately show ?thesis
      using agreed [OF _ second_round_agrees [OF assms False]] False
      by (simp add: read_tick_def clock_after_def numeral_eq_Suc)
  qed
qed

section \<open>The timer interrupt\<close>

text \<open>\<open>TIMECMP\<close> is written in halves; \<open>set_timecmp\<close> is the order the handler uses.\<close>

definition timecmp_steps :: "u64 \<Rightarrow> machine \<Rightarrow> machine list" where
  "timecmp_steps t m =
     (let m1 = io_write TIMECMPH (-1) m;
          m2 = io_write TIMECMPL (-1) m1;
          m3 = io_write TIMECMPL (lo32 (t AND 0xffffffff)) m2;
          m4 = io_write TIMECMPH (hi32 t) m3
      in [m1, m2, m3, m4])"

definition external_timer_handler :: "u64 \<Rightarrow> machine \<Rightarrow> machine option" where
  "external_timer_handler delta m = (case read_time m of
       None \<Rightarrow> None
     | Some (hi, lo, m) \<Rightarrow>
         let cur_time = join64 hi lo;
             cur_time = cur_time + delta;
             m = last (timecmp_steps cur_time m)
         in (case io_read POUT m of (v, m) \<Rightarrow> Some (io_write POUT (v XOR 0x2) m)))"

lemma time_masks:
  "(0xffffffff :: u64) = mask 32" "(0xffffffff00000000 :: u64) = push_bit 32 (mask 32)"
  by (simp_all add: mask_eq_exp_minus_1 push_bit_eq_mult)

lemma ucast_ones: "(ucast (-1 :: u32) :: u64) = mask 32"
  by (rule bit_word_eqI) (simp add: bit_simps)

lemma timecmp_write:
  "mtimecmp (io_write TIMECMPH v m) = (mtimecmp m AND mask 32) OR push_bit 32 (ucast v)"
  "mtimecmp (io_write TIMECMPL v m) = (mtimecmp m AND push_bit 32 (mask 32)) OR ucast v"
  by (simp_all add: time_masks)

lemma timecmp_values:
  "map mtimecmp (timecmp_steps t m) =
     [(mtimecmp m AND 0xffffffff) OR 0xffffffff00000000, -1, 0xffffffff00000000 OR (t AND 0xffffffff), t]"
proof -
  let ?lo = "mask 32 :: u64" and ?hi = "push_bit 32 (mask 32) :: u64"
  have 2: "(((mtimecmp m AND ?lo) OR ?hi) AND ?hi) OR ?lo = -1"
    by (rule bit_word_eqI) (auto simp: bit_simps)
  have 3: "(-1 AND ?hi) OR ucast (lo32 (t AND ?lo)) = ?hi OR (t AND ?lo)"
    by (rule bit_word_eqI) (auto simp: lo32_def bit_simps)
  have 4: "((?hi OR (t AND ?lo)) AND ?lo) OR push_bit 32 (ucast (hi32 t)) = t"
    by (rule bit_word_eqI) (auto simp: hi32_def bit_simps)
  show ?thesis
    by (simp only: timecmp_steps_def Let_def list.map timecmp_write ucast_ones time_masks 2 3 4)
qed

text \<open>No intermediate value raises the interrupt before its time, unless the clock is about to
  wrap: each is at least the new one.\<close>

lemma or_upper: "(x :: u64) \<le> x OR y" "(x :: u64) \<le> y OR x"
  by (simp_all add: word_le_def unsigned_or_eq or_greater_eq or.commute [of "uint y"])

lemma timecmp_steps_late:
  assumes "hi32 t < 0xffffffff" and "n \<in> set (timecmp_steps t m)"
  shows "t \<le> mtimecmp n"
proof -
  have "unat t div 2 ^ 32 < 0xffffffff"
    using assms(1) unfolding word_less_nat_alt unat_hi32 by simp
  then have "unat t < 0xffffffff * 2 ^ 32" by (simp add: div_less_iff_less_mult)
  then have "t \<le> 0xffffffff00000000" unfolding word_le_nat_alt by simp
  then have below: "t \<le> x OR 0xffffffff00000000" "t \<le> 0xffffffff00000000 OR x" for x
    using or_upper [of "0xffffffff00000000" x] by (blast intro: order_trans)+
  have "mtimecmp n \<in> set (map mtimecmp (timecmp_steps t m))" using assms(2) by simp
  then show ?thesis unfolding timecmp_values using below by auto
qed

text \<open>Time passes alike whatever the timer's compare register and the leds hold.\<close>

lemma tick_rearmed:
  "tick (m\<lparr>mtimecmp := t, pouta := p\<rparr>) = (tick m)\<lparr>mtimecmp := t, pouta := p\<rparr>"
  by (simp add: tick_def tick_tx_def tick_rx_def tick_time_def
      split: option.splits nat.splits list.splits prod.splits)

lemma timecmp_steps_exact: "last (timecmp_steps t m) = m\<lparr>mtimecmp := t\<rparr>"
proof -
  have "mtimecmp (last (timecmp_steps t m)) = t"
    using arg_cong [OF timecmp_values [of t m], of last] by (simp add: timecmp_steps_def Let_def)
  then show ?thesis by (simp add: timecmp_steps_def Let_def)
qed

lemma funpow_tick_fields:
  "pouta ((tick ^^ j) m) = pouta m" "core ((tick ^^ j) m) = core m" "mem ((tick ^^ j) m) = mem m"
  by (induction j) simp_all

lemma timer_handler_exact:
  assumes "brisk m"
  shows "external_timer_handler delta m = Some (((tick ^^ (read_tick m + 3)) m)
      \<lparr>mtimecmp := clock_after (read_tick m) m + delta, pouta := pouta m XOR 2\<rparr>)"
proof -
  let ?k = "read_tick m" and ?t = "clock_after (read_tick m) m + delta"
  define r where "r = (tick ^^ (?k + 2)) m"
  obtain hi lo where k: "read_time m = Some (hi, lo, r)" "join64 hi lo = clock_after ?k m"
    using read_time_ticks [OF assms] unfolding r_def by blast
  have l: "last (timecmp_steps ?t r) = r\<lparr>mtimecmp := ?t, pouta := pouta m\<rparr>"
    unfolding timecmp_steps_exact by (simp add: r_def funpow_tick_fields del: funpow.simps)
  have n: "(tick ^^ (?k + 3)) m = tick r" by (simp add: r_def numeral_eq_Suc)
  show ?thesis unfolding n
    by (simp add: external_timer_handler_def k l io_read_def tick_rearmed Let_def)
qed

lemma timer_handler_effect:
  assumes "brisk m"
  shows "\<exists>m' t. external_timer_handler delta m = Some m'
    \<and> core m' = (core m)\<lparr>mtimecmp := t, pouta := pouta m XOR 2\<rparr>"
  using timer_handler_exact [OF assms, of delta] by (simp add: funpow_tick_fields del: funpow.simps) blast

text \<open>C17: The timer interrupt handler returns with the compare register set to the clock it read
  plus the interval and its led flipped, and nothing else changed but by the passage of
  time; the clock read is that after the first access, or after the fourth when the upper
  half changed in between. As long as the upper half of the new value is below 0xffffffff,
  no intermediate value of the three half writes is below it, so that no early interrupt is
  raised.\<close>

theorem timer_handler_rearms:
  assumes "brisk m"
  shows "external_timer_handler delta m = Some (((tick ^^ (read_tick m + 3)) m)
      \<lparr>mtimecmp := clock_after (read_tick m) m + delta, pouta := pouta m XOR 2\<rparr>)
    \<and> read_tick m \<in> {1, 4}
    \<and> (let t = clock_after (read_tick m) m + delta in hi32 t < 0xffffffff
        \<longrightarrow> list_all (\<lambda>n. t \<le> mtimecmp n) (timecmp_steps t ((tick ^^ (read_tick m + 2)) m)))"
proof -
  have "hi32 t < 0xffffffff \<longrightarrow> list_all (\<lambda>n. t \<le> mtimecmp n) (timecmp_steps t n)" for t n
    using timecmp_steps_late [of t _ n] by (simp add: list_all_iff)
  then show ?thesis using timer_handler_exact [OF assms, of delta] unfolding Let_def by (auto simp: read_tick_def)
qed

text \<open>The clock of \<open>power_on\<close> counts one microsecond per tick.\<close>

theorem timer_handler_rearms_witness:
  "external_timer_handler 100000 (power_on [])
    = Some (((tick ^^ 4) (power_on []))\<lparr>mtimecmp := 100001, pouta := 2\<rparr>)"
proof -
  have b: "brisk (power_on [])" by (simp add: brisk_def power_on_def)
  have k: "read_tick (power_on []) = 1" "clock_after 1 (power_on []) = 1"
    by (simp_all add: read_tick_def clock_after_def tick_clock power_on_def hi32_def drop_bit_eq_div)
  show ?thesis
    using timer_handler_rearms [OF b, of 100000] unfolding k by simp
qed

end
