(* ===== verification/Handlers.thy ===== *)
theory Handlers
  imports LineInput SysTime
begin

text \<open>
  The interrupt handlers of \<open>CODE/interrupt_direct/handlers.c\<close> and
  \<open>CODE/interrupt_vectored/handlers.c\<close> (the two files differ in the frequency of the timer
  interrupt only), the USART glue of \<open>usart.c\<close> in those directories and the CSR macros of
  \<open>interrupt.h\<close>.
\<close>

section \<open>Definitions\<close>

definition CLOCK_FREQUENCY :: u64 where "CLOCK_FREQUENCY = 1000000"
definition INTERRUPT_FREQUENCY_direct :: u64 where "INTERRUPT_FREQUENCY_direct = 10"
definition INTERRUPT_FREQUENCY_vectored :: u64 where "INTERRUPT_FREQUENCY_vectored = 1000"

text \<open>What the timer handler of each program adds to the time it read.\<close>

definition external_timer_delta_direct :: u64 where
  "external_timer_delta_direct = CLOCK_FREQUENCY div INTERRUPT_FREQUENCY_direct"

definition external_timer_delta_vectored :: u64 where
  "external_timer_delta_vectored = CLOCK_FREQUENCY div INTERRUPT_FREQUENCY_vectored"

text \<open>The bits of \<open>mip\<close>, most significant first: \<open>while (mask) { ...; mask >>= 1; }\<close>\<close>

function debug_bits :: "u32 \<Rightarrow> u32 \<Rightarrow> machine \<Rightarrow> (machine, unit) outcome" where
  "debug_bits msk ip m =
     (if msk \<noteq> 0 then
        andthen (usart_putc (if ip AND msk \<noteq> 0 then 49 else 48) m) (\<lambda>_ m.
        debug_bits (drop_bit 1 msk) ip m)
      else Done () m)"
  by pat_completeness auto
termination
proof (relation "measure (\<lambda>(msk, ip, m). unat msk)")
  show "wf (measure (\<lambda>(msk, ip, m). unat msk))" by simp
  fix msk ip :: u32 and m a s
  assume "msk \<noteq> 0"
  then have "unat msk div 2 < unat msk" by (simp add: unat_gt_0)
  then show "((drop_bit 1 msk, ip, s), msk, ip, m) \<in> measure (\<lambda>(msk, ip, m). unat msk)"
    by (simp add: drop_bit_eq_div unat_div)
qed

declare debug_bits.simps [simp del]

definition debugger :: "machine \<Rightarrow> (machine, unit) outcome" where
  "debugger m =
     andthen (puts ([CR, LF] @ ''EBREAK! mip = '') m) (\<lambda>_ m.
     andthen (debug_bits 0x80000000 (mip m) m) (\<lambda>_ m.
     puts [CR, LF] m))"

definition timer1_cmpt_handler :: "machine \<Rightarrow> machine" where
  "timer1_cmpt_handler m =
     (case io_read T1STAT m of (v, m) \<Rightarrow>
      case io_read POUT (io_write T1STAT (v AND NOT (push_bit 4 1)) m) of (p, m) \<Rightarrow>
      io_write POUT (p XOR 0x1) m)"

text \<open>The processor is held: \<open>while (1);\<close>\<close>

definition default_handler :: "machine \<Rightarrow> (machine, unit) outcome" where
  "default_handler m = (case io_read POUT m of (v, m) \<Rightarrow> Stuck (io_write POUT (v OR push_bit 9 1) m))"

definition usart_handler :: "machine \<Rightarrow> machine" where
  "usart_handler m =
     (case io_read USTAT m of (v, m) \<Rightarrow>
        if v AND 0x04 \<noteq> 0 then
          (case io_read POUT m of (p, m) \<Rightarrow> snd (io_read UDATA (io_write POUT (p XOR 0x4) m)))
        else m)"

definition irq_usart_init :: "machine \<Rightarrow> machine" where
  "irq_usart_init m = io_write UCTRL 0x40 (io_write UBAUD (F_CPU div BAUD_RATE - 1) m)"

definition io_putchar :: "u32 \<Rightarrow> machine \<Rightarrow> (machine, u32) outcome" where
  "io_putchar ch m = andthen (usart_putc ch m) (\<lambda>_ m. Done 1 m)"

definition io_getchar :: "machine \<Rightarrow> (machine, u32) outcome" where
  "io_getchar m = usart_getc m"

text \<open>The CSR macros of \<open>interrupt.h\<close>.\<close>

definition TRAP_DIRECT_MODE :: nat where "TRAP_DIRECT_MODE = 0"
definition TRAP_VECTORED_MODE :: nat where "TRAP_VECTORED_MODE = 1"

definition enable_irq :: "machine \<Rightarrow> machine" where
  "enable_irq m = m\<lparr>mstatus := push_bit 3 1 OR push_bit 11 3\<rparr>"

definition disable_irq :: "machine \<Rightarrow> machine" where
  "disable_irq m = m\<lparr>mstatus := push_bit 11 3\<rparr>"

definition get_mtvec :: "machine \<Rightarrow> u32" where
  "get_mtvec m = mtvec m"

definition set_mtvec :: "u32 \<Rightarrow> nat \<Rightarrow> machine \<Rightarrow> machine" where
  "set_mtvec vector mode m = (let m = m\<lparr>mtvec := vector\<rparr> in
     if mode = TRAP_VECTORED_MODE then m\<lparr>mtvec := mtvec m OR 1\<rparr> else m)"

definition enable_external_timer_irq :: "machine \<Rightarrow> machine" where
  "enable_external_timer_irq m = m\<lparr>mie := push_bit 7 1\<rparr>"

definition disable_external_timer_irq :: "machine \<Rightarrow> machine" where
  "disable_external_timer_irq m = m\<lparr>mie := push_bit 7 0\<rparr>"

section \<open>The debugger\<close>

definition bit_text :: "u32 \<Rightarrow> nat \<Rightarrow> u8 list" where
  "bit_text v n = map (\<lambda>i. if bit v i then 49 else 48) (rev [0..<n])"

lemma bit_text_Suc: "bit_text v (Suc n) = (if bit v n then 49 else 48) # bit_text v n"
  by (simp add: bit_text_def)

lemma debug_bits_step:
  assumes "n < 32"
  shows "debug_bits (2 ^ n) ip m = andthen (usart_putc (if bit ip n then 49 else 48) m)
    (\<lambda>_ m. debug_bits (drop_bit 1 (2 ^ n)) ip m)"
proof -
  have "(2 :: u32) ^ n \<noteq> 0" using assms by (simp add: word_exp_length_eq_0 exp_eq_zero_iff)
  then show ?thesis by (simp add: debug_bits.simps [of "2 ^ n"] and_exp_eq_0_iff_not_bit)
qed

lemma debug_bits_traffic:
  "n < 32 \<Longrightarrow> traffic [] (bit_text ip (Suc n)) () (debug_bits (2 ^ n) ip m) m"
proof (induction n arbitrary: m)
  case 0
  have "traffic [] ([if bit ip 0 then 49 else 48] @ []) () (debug_bits (2 ^ 0) ip m) m"
    unfolding debug_bits_step [OF 0]
    by (rule traffic_says) (use traffic_putc [of "if bit ip 0 then 49 else 48" m] in
      \<open>simp_all add: debug_bits.simps [of 0] split: if_splits\<close>)
  then show ?case by (simp add: bit_text_def)
next
  case (Suc n)
  have d: "drop_bit 1 (2 ^ Suc n) = (2 ^ n :: u32)"
    by (rule bit_word_eqI) (use Suc.prems in \<open>auto simp: bit_simps bit_exp_iff\<close>)
  have "traffic [] ([if bit ip (Suc n) then 49 else 48] @ bit_text ip (Suc n)) () (debug_bits (2 ^ Suc n) ip m) m"
    unfolding debug_bits_step [OF Suc.prems] d
    by (rule traffic_says) (use traffic_putc [of "if bit ip (Suc n) then 49 else 48" m] Suc in
      \<open>simp_all split: if_splits\<close>)
  then show ?case by (simp add: bit_text_Suc [of ip "Suc n"])
qed

text \<open>The stub prints the bits of \<open>mip\<close> as they are after its greeting, and returns.\<close>

lemma debugger_traffic:
  "\<exists>n n'. debugger m = Done () n' \<and> puts ([CR, LF] @ ''EBREAK! mip = '') m = Done () n
    \<and> serial [] (bytes ([CR, LF] @ ''EBREAK! mip = '') @ bit_text (mip n) 32 @ bytes [CR, LF]) m n'"
proof -
  let ?s = "[CR, LF] @ ''EBREAK! mip = ''"
  obtain n where n: "puts ?s m = Done () n" "serial [] (bytes ?s) m n"
    by (rule trafficE [OF traffic_puts [of ?s m]]) simp
  obtain k where k: "debug_bits (2 ^ 31) (mip n) n = Done () k" "serial [] (bit_text (mip n) (Suc 31)) n k"
    by (rule trafficE [OF debug_bits_traffic [of 31 "mip n" n]]) simp
  obtain n' where n': "puts [CR, LF] k = Done () n'" "serial [] (bytes [CR, LF]) k n'"
    by (rule trafficE [OF traffic_puts [of "[CR, LF]" k]]) simp
  have "serial [] (bytes ?s @ bit_text (mip n) 32 @ bytes [CR, LF]) m n'"
    using serial_trans [OF n(2) serial_trans [OF k(2) n'(2)]] by simp
  then show ?thesis using n k(1) n'(1) by (auto simp: debugger_def)
qed

section \<open>The interrupt handlers\<close>

lemma timer1_handler_clears:
  "core (timer1_cmpt_handler m) = (core m)\<lparr>t1stat := unset_bit 4 (t1stat m) AND 0xfff, pouta := pouta m XOR 1\<rparr>"
  "pending (timer1_cmpt_handler m) = pending m" "line_out (timer1_cmpt_handler m) = line_out m"
  by (simp_all add: timer1_cmpt_handler_def io_read_def unset_bit_eq_and_not)

lemma timer1_handler_effect:
  "\<not> irq_timer1 (timer1_cmpt_handler m)
    \<and> core (timer1_cmpt_handler m) = (core m)\<lparr>t1stat := unset_bit 4 (t1stat m) AND 0xfff, pouta := pouta m XOR 1\<rparr>
    \<and> pending (timer1_cmpt_handler m) = pending m"
proof -
  have "t1stat (timer1_cmpt_handler m) = unset_bit 4 (t1stat m) AND 0xfff"
    using arg_cong [OF timer1_handler_clears(1) [of m], of t1stat] by simp
  then show ?thesis using timer1_handler_clears [of m] by (simp add: irq_timer1_def bit_unset_bit_iff bit_and_iff)
qed

text \<open>The receiver's request goes away with the character, unless another one has arrived.\<close>

lemma usart_handler_effect:
  "line_out (usart_handler m) = line_out m
    \<and> (if bit (ustat m) 2
       then pending (usart_handler m) = tl (pending m) \<and> core (usart_handler m) = (core m)\<lparr>pouta := pouta m XOR 4\<rparr>
       else pending (usart_handler m) = pending m \<and> core (usart_handler m) = core m)"
proof (cases "bit (ustat m) 2")
  case True
  then have b: "bit (ustat (tick (tick m))) 2" using tick_keeps_rc by blast
  then have p: "pending (tick (tick m)) = ucast (udata (tick (tick m))) # map snd (line_in (tick (tick m)))"
    by (simp add: pending_def)
  let ?k = "(tick (tick m))\<lparr>pouta := pouta m XOR 4\<rparr>"
  have "pending (?k\<lparr>ustat := ustat ?k AND NOT 0xf\<rparr>) = map snd (line_in (tick (tick m)))"
    by (simp add: pending_def bit_simps)
  then have "pending (usart_handler m) = map snd (line_in (tick (tick m)))"
    using True by (simp add: usart_handler_def io_read_def word_bits)
  moreover have "tl (pending m) = map snd (line_in (tick (tick m)))"
    using arg_cong [OF p, of tl] by simp
  moreover have "core (usart_handler m) = (core m)\<lparr>pouta := pouta m XOR 4\<rparr>"
    using True by (simp add: usart_handler_def io_read_def word_bits core_def tick_fields)
  moreover have "line_out (usart_handler m) = line_out m"
    using True by (simp add: usart_handler_def io_read_def word_bits)
  ultimately show ?thesis using True by simp
next
  case False
  then show ?thesis by (simp add: usart_handler_def io_read_def word_bits)
qed

text \<open>The handlers in full: the ticks of their register accesses, and the writes between them.\<close>

lemma tick_served:
  "tick (m\<lparr>t1stat := v\<rparr>) = (tick m)\<lparr>t1stat := v\<rparr>" "tick (m\<lparr>pouta := p\<rparr>) = (tick m)\<lparr>pouta := p\<rparr>"
  by (simp_all add: tick_def tick_tx_def tick_rx_def tick_time_def
      split: option.splits nat.splits list.splits prod.splits)

lemma timer1_handler_exact:
  "timer1_cmpt_handler m = (tick (tick m))\<lparr>t1stat := unset_bit 4 (t1stat m) AND 0xfff, pouta := pouta m XOR 1\<rparr>"
  by (simp add: timer1_cmpt_handler_def io_read_def tick_served unset_bit_eq_and_not)

lemma usart_handler_exact:
  "usart_handler m = (if bit (ustat m) 2
     then tick ((tick (tick m))\<lparr>pouta := pouta m XOR 4, ustat := ustat (tick (tick m)) AND NOT 0xf\<rparr>)
     else tick m)"
  by (simp add: usart_handler_def io_read_def word_bits)

text \<open>The transmitter does not see that a character is taken: its state and the flags above the
  receiver's four are those of time passing.\<close>

definition transmitter :: "machine \<Rightarrow> nat option \<times> u32 \<times> nat" where
  "transmitter m = (txleft m, drop_bit 4 (ustat m), txlat m)"

lemma upper_flags:
  "drop_bit 4 (set_bit 4 v) = set_bit 0 (drop_bit 4 (v :: u32))"
  "drop_bit 4 (set_bit 2 v) = drop_bit 4 (v :: u32)" "drop_bit 4 (v AND - 16) = drop_bit 4 (v :: u32)"
proof -
  have m: "(- 16 :: u32) = NOT (mask 4)" by (simp add: mask_eq_exp_minus_1)
  show "drop_bit 4 (v AND - 16) = drop_bit 4 (v :: u32)"
    unfolding m
    by (rule bit_word_eqI, unfold bit_drop_bit_eq o_apply, subst bit_and_iff, subst bit_not_iff)
      (auto simp: bit_mask_iff possible_bit_word dest: bit_imp_le_length)
qed (rule bit_word_eqI, auto simp: bit_simps bit_set_bit_iff)+

lemma transmitter_tick:
  "transmitter (tick m) = (case txleft m of
       None \<Rightarrow> transmitter m
     | Some 0 \<Rightarrow> (None, set_bit 0 (drop_bit 4 (ustat m)), txlat m)
     | Some (Suc n) \<Rightarrow> (Some n, drop_bit 4 (ustat m), txlat m))"
  by (auto simp: transmitter_def tick_def tick_tx_def tick_rx_def tick_time_def upper_flags
      split: option.splits nat.splits list.splits prod.splits)

lemma transmitter_cong: "transmitter n = transmitter m \<Longrightarrow> transmitter (tick n) = transmitter (tick m)"
  unfolding transmitter_tick by (simp add: transmitter_def split: option.splits nat.splits)

lemma usart_handler_transmitter:
  "transmitter (usart_handler m) = transmitter (if bit (ustat m) 2 then tick (tick (tick m)) else tick m)"
proof -
  let ?n = "(tick (tick m))\<lparr>pouta := pouta m XOR 4, ustat := ustat (tick (tick m)) AND NOT 0xf\<rparr>"
  have "transmitter ?n = transmitter (tick (tick m))" using upper_flags(3) by (simp add: transmitter_def)
  then show ?thesis using transmitter_cong [of ?n "tick (tick m)"] by (simp add: usart_handler_exact)
qed

text \<open>C18: The TIMER1 handler withdraws its interrupt request and flips its led. The USART
  handler, if a character has been received, takes it off the line, flips its led and clears
  the receiver's status bits; otherwise it only reads the status. But for the passage of
  time neither changes any other register, memory, what has been sent, or the state of the
  transmitter.\<close>

theorem device_handlers_acknowledge:
  "timer1_cmpt_handler m = (tick (tick m))\<lparr>t1stat := unset_bit 4 (t1stat m) AND 0xfff, pouta := pouta m XOR 1\<rparr>
    \<and> \<not> irq_timer1 (timer1_cmpt_handler m)
    \<and> usart_handler m = (if bit (ustat m) 2
         then tick ((tick (tick m))\<lparr>pouta := pouta m XOR 4, ustat := ustat (tick (tick m)) AND NOT 0xf\<rparr>)
         else tick m)
    \<and> pending (timer1_cmpt_handler m) = pending m \<and> line_out (timer1_cmpt_handler m) = line_out m
    \<and> pending (usart_handler m) = (if bit (ustat m) 2 then tl (pending m) else pending m)
    \<and> line_out (usart_handler m) = line_out m
    \<and> core (usart_handler m) = (core m)\<lparr>pouta := if bit (ustat m) 2 then pouta m XOR 4 else pouta m\<rparr>
    \<and> transmitter (usart_handler m) = transmitter (if bit (ustat m) 2 then tick (tick (tick m)) else tick m)"
  using timer1_handler_exact [of m] timer1_handler_effect [of m] timer1_handler_clears(3) [of m]
    usart_handler_exact [of m] usart_handler_effect [of m] usart_handler_transmitter [of m]
  by (auto split: if_splits)

section \<open>Set-up\<close>

lemma timer_deltas: "external_timer_delta_direct = 100000" "external_timer_delta_vectored = 1000"
  by (simp_all add: external_timer_delta_direct_def external_timer_delta_vectored_def CLOCK_FREQUENCY_def
      INTERRUPT_FREQUENCY_direct_def INTERRUPT_FREQUENCY_vectored_def)

lemma csr_macros:
  "mstatus (enable_irq m) = 0x1808" "mstatus (disable_irq m) = 0x1800"
  "mie (enable_external_timer_irq m) = 0x80" "mie (disable_external_timer_irq m) = 0"
  by (simp_all add: enable_irq_def disable_irq_def enable_external_timer_irq_def disable_external_timer_irq_def)

end
