(* ===== verification/Trap.thy ===== *)
theory Trap
  imports Handlers
begin

text \<open>
  The trap handler of \<open>CODE/interrupt_direct/universal_handler.c\<close>: the register frame it saves and
  restores in assembler, the dispatch on \<open>mcause\<close> and the system calls behind ECALL. What the
  C library and the linker script provide (system call numbers, the layout of \<open>struct stat\<close> and
  \<open>struct timeval\<close>, the symbols \<open>_end\<close>, \<open>__stack_pointer$\<close>, \<open>__stack_size\<close>) and the two
  character functions the linker may override are the record \<open>sysenv\<close>.
\<close>

section \<open>Environment and processor state\<close>

datatype sys =
    SYS_brk | SYS_read | SYS_write | SYS_gettimeofday | SYS_exit | SYS_open | SYS_close
  | SYS_fstat | SYS_stat | SYS_fstatat | SYS_lstat | SYS_unlink | SYS_lseek | SYS_link | SYS_access

datatype errno_code =
    ENOMEM | EBADF | ENOENT | EMLINK | EACCES | ENOSYS | EINVAL | ECHILD | EAGAIN

record sysenv =
  nr :: "sys \<Rightarrow> u32"
  put_timeval :: "u32 \<Rightarrow> u64 \<Rightarrow> u32 \<Rightarrow> (u32 \<Rightarrow> u8) \<Rightarrow> (u32 \<Rightarrow> u8)"
  put_mode :: "u32 \<Rightarrow> u32 \<Rightarrow> (u32 \<Rightarrow> u8) \<Rightarrow> (u32 \<Rightarrow> u8)"
  S_IFCHR :: u32
  end_sym :: u32
  stack_top :: u32
  stack_size :: u32
  putchar :: "u32 \<Rightarrow> machine \<Rightarrow> (machine, u32) outcome"
  getchar :: "machine \<Rightarrow> (machine, u32) outcome"

record cpu =
  gpr :: "nat \<Rightarrow> u32"
  dev :: machine
  errno_var :: "errno_code option"

definition on_dev :: "(machine \<Rightarrow> (machine, 'a) outcome) \<Rightarrow> cpu \<Rightarrow> (cpu, 'a) outcome" where
  "on_dev f c = (case f (dev c) of
       Done a m \<Rightarrow> Done a (c\<lparr>dev := m\<rparr>)
     | Stuck m \<Rightarrow> Stuck (c\<lparr>dev := m\<rparr>)
     | Fault e m \<Rightarrow> Fault e (c\<lparr>dev := m\<rparr>)
     | Jumped a m \<Rightarrow> Jumped a (c\<lparr>dev := m\<rparr>))"

definition set_reg :: "nat \<Rightarrow> u32 \<Rightarrow> cpu \<Rightarrow> cpu" where
  "set_reg r v c = c\<lparr>gpr := (gpr c)(r := v)\<rparr>"

text \<open>The weak definitions, used when the program has none of its own.\<close>

definition weak_io_putchar :: "u32 \<Rightarrow> machine \<Rightarrow> (machine, u32) outcome" where
  "weak_io_putchar ch m = Done 0 m"

definition weak_io_getchar :: "machine \<Rightarrow> (machine, u32) outcome" where
  "weak_io_getchar m = Done 0 m"

section \<open>System calls\<close>

definition fail :: "errno_code \<Rightarrow> cpu \<Rightarrow> (cpu, u32) outcome" where
  "fail e c = Done (-1) (c\<lparr>errno_var := Some e\<rparr>)"

definition sys_brk :: "sysenv \<Rightarrow> cpu \<Rightarrow> (cpu, u32) outcome" where
  "sys_brk E c = (let a0 = gpr c 10; sp_val = stack_top E; ss_val = stack_size E in
     if a0 = 0 then Done (end_sym E) c
     else if a0 < sp_val - ss_val then Done a0 c
     else fail ENOMEM c)"

fun read_chars :: "sysenv \<Rightarrow> nat \<Rightarrow> u32 \<Rightarrow> machine \<Rightarrow> (machine, unit) outcome" where
  "read_chars E 0 buf m = Done () m"
| "read_chars E (Suc n) buf m =
     andthen (getchar E m) (\<lambda>c m.
     andthen (store8 buf (ucast c) m) (\<lambda>_ m. read_chars E n (buf + 1) m))"

definition sys_read :: "sysenv \<Rightarrow> cpu \<Rightarrow> (cpu, u32) outcome" where
  "sys_read E c = (let buf = gpr c 11; len = gpr c 12 in
     andthen (on_dev (read_chars E (nat (sint len)) buf) c) (\<lambda>_ c. Done len c))"

fun write_chars :: "sysenv \<Rightarrow> nat \<Rightarrow> u32 \<Rightarrow> machine \<Rightarrow> (machine, unit) outcome" where
  "write_chars E 0 buf m = Done () m"
| "write_chars E (Suc n) buf m =
     andthen (load8 buf m) (\<lambda>c m.
     andthen (putchar E (ucast c) m) (\<lambda>_ m. write_chars E n (buf + 1) m))"

definition sys_write :: "sysenv \<Rightarrow> cpu \<Rightarrow> (cpu, u32) outcome" where
  "sys_write E c = (let buf = gpr c 11; len = gpr c 12 in
     andthen (on_dev (write_chars E (nat (sint len)) buf) c) (\<lambda>_ c. Done len c))"

definition sys_gettimeofday :: "sysenv \<Rightarrow> cpu \<Rightarrow> (cpu, u32) outcome" where
  "sys_gettimeofday E c = (case read_time (dev c) of
       None \<Rightarrow> Stuck c
     | Some (hi, lo, m) \<Rightarrow>
         let thetime = join64 hi lo in
         Done 0 (c\<lparr>dev := m\<lparr>mem := put_timeval E (gpr c 10) (thetime div 1000000)
           (ucast (thetime mod 1000000)) (mem m)\<rparr>\<rparr>))"

definition sys_stat :: "sysenv \<Rightarrow> cpu \<Rightarrow> (cpu, u32) outcome" where
  "sys_stat E c = Done 0 (c\<lparr>dev := (dev c)\<lparr>mem := put_mode E (gpr c 11) (S_IFCHR E) (mem (dev c))\<rparr>\<rparr>)"

text \<open>The chain of comparisons of \<open>syscall_id\<close>, which is \<open>a7\<close>.\<close>

definition ecall :: "sysenv \<Rightarrow> cpu \<Rightarrow> (cpu, u32) outcome" where
  "ecall E c = (let syscall_id = gpr c 17 in
     if syscall_id = nr E SYS_brk then sys_brk E c
     else if syscall_id = nr E SYS_read then sys_read E c
     else if syscall_id = nr E SYS_write then sys_write E c
     else if syscall_id = nr E SYS_gettimeofday then sys_gettimeofday E c
     else if syscall_id = nr E SYS_exit then Done 0 c
     else if syscall_id = nr E SYS_open then fail EBADF c
     else if syscall_id = nr E SYS_close then fail EBADF c
     else if syscall_id = nr E SYS_fstat then sys_stat E c
     else if syscall_id = nr E SYS_stat then sys_stat E c
     else if syscall_id = nr E SYS_fstatat then sys_stat E c
     else if syscall_id = nr E SYS_lstat then sys_stat E c
     else if syscall_id = nr E SYS_unlink then fail ENOENT c
     else if syscall_id = nr E SYS_lseek then Done 0 c
     else if syscall_id = nr E SYS_link then fail EMLINK c
     else if syscall_id = nr E SYS_access then fail EACCES c
     else fail ENOSYS c)"

section \<open>Dispatch\<close>

definition EBREAK_IN_MCAUSE :: u32 where "EBREAK_IN_MCAUSE = 3"
definition ECALL_IN_MCAUSE :: u32 where "ECALL_IN_MCAUSE = 11"
definition USART_IN_MCAUSE :: u32 where "USART_IN_MCAUSE = push_bit 31 1 + 18"
definition TIMER1_CMPT_IN_MCAUSE :: u32 where "TIMER1_CMPT_IN_MCAUSE = push_bit 31 1 + 17"
definition SYSTEM_TIMER_IN_MCAUSE :: u32 where "SYSTEM_TIMER_IN_MCAUSE = push_bit 31 1 + 7"

text \<open>The result is the value moved to \<open>a0\<close>, or \<open>None\<close> when \<open>a0\<close> is reloaded from the frame.
  The causes without action (illegal instruction, access faults, unknown) only reload \<open>a0\<close>.\<close>

definition timer_entry :: "u64 \<Rightarrow> machine \<Rightarrow> (machine, unit) outcome" where
  "timer_entry delta m = (case external_timer_handler delta m of None \<Rightarrow> Stuck m | Some m \<Rightarrow> Done () m)"

definition dispatch :: "sysenv \<Rightarrow> u64 \<Rightarrow> cpu \<Rightarrow> (cpu, u32 option) outcome" where
  "dispatch E delta c = (let cause = mcause (dev c) in
     if cause = SYSTEM_TIMER_IN_MCAUSE then andthen (on_dev (timer_entry delta) c) (\<lambda>_ c. Done None c)
     else if cause = USART_IN_MCAUSE then Done None (c\<lparr>dev := usart_handler (dev c)\<rparr>)
     else if cause = TIMER1_CMPT_IN_MCAUSE then Done None (c\<lparr>dev := timer1_cmpt_handler (dev c)\<rparr>)
     else if cause = ECALL_IN_MCAUSE then andthen (ecall E c) (\<lambda>v c. Done (Some v) c)
     else if cause = EBREAK_IN_MCAUSE then andthen (on_dev debugger c) (\<lambda>_ c. Done None c)
     else Done None c)"

section \<open>Saving and restoring the registers\<close>

fun save_regs :: "nat list \<Rightarrow> cpu \<Rightarrow> (cpu, unit) outcome" where
  "save_regs [] c = Done () c"
| "save_regs (r # rs) c =
     andthen (on_dev (store32 (gpr c 2 + 4 * of_nat r) (gpr c r)) c) (\<lambda>_ c. save_regs rs c)"

definition load_reg :: "nat \<Rightarrow> cpu \<Rightarrow> (cpu, unit) outcome" where
  "load_reg r c = andthen (on_dev (load32 (gpr c 2 + 4 * of_nat r)) c) (\<lambda>v c. Done () (set_reg r v c))"

fun load_regs :: "nat list \<Rightarrow> cpu \<Rightarrow> (cpu, unit) outcome" where
  "load_regs [] c = Done () c"
| "load_regs (r # rs) c = andthen (load_reg r c) (\<lambda>_ c. load_regs rs c)"

text \<open>\<open>addi sp,sp,-32*4\<close> and \<open>sw x1\<close> to \<open>sw x31\<close>; then \<open>lw x31\<close> down to \<open>lw x1\<close> without \<open>x10\<close> and
  \<open>addi sp,sp,32*4\<close>.\<close>

definition save_context :: "cpu \<Rightarrow> (cpu, unit) outcome" where
  "save_context c = save_regs [1..<32] (set_reg 2 (gpr c 2 - 32 * 4) c)"

definition restore_context :: "cpu \<Rightarrow> (cpu, unit) outcome" where
  "restore_context c = andthen (load_regs (rev [11..<32] @ rev [1..<10]) c)
     (\<lambda>_ c. Done () (set_reg 2 (gpr c 2 + 32 * 4) c))"

text \<open>The compiled C code between them may leave anything in the registers other than \<open>x0\<close> and
  the stack pointer: \<open>junk\<close> is what it leaves.\<close>

definition clobber :: "(nat \<Rightarrow> u32) \<Rightarrow> cpu \<Rightarrow> cpu" where
  "clobber junk c = c\<lparr>gpr := (\<lambda>r. if r = 0 \<or> r = 2 then gpr c r else junk r)\<rparr>"

definition deliver :: "u32 option \<Rightarrow> cpu \<Rightarrow> (cpu, unit) outcome" where
  "deliver rv c = (case rv of Some v \<Rightarrow> Done () (set_reg 10 v c) | None \<Rightarrow> load_reg 10 c)"

definition universal_handler :: "sysenv \<Rightarrow> u64 \<Rightarrow> (nat \<Rightarrow> u32) \<Rightarrow> cpu \<Rightarrow> (cpu, unit) outcome" where
  "universal_handler E delta junk c =
     andthen (save_context c) (\<lambda>_ c.
     andthen (dispatch E delta c) (\<lambda>rv c.
     andthen (deliver rv (clobber junk c)) (\<lambda>_ c. restore_context c)))"

end
