(* ===== verification/TrapProof.thy ===== *)
theory TrapProof
  imports Trap SrecText
begin

text \<open>
  The trap handler keeps the context of the interrupted program, whatever the compiled code
  between the two blocks of assembler does to the registers; ECALL delivers its result in \<open>a0\<close>;
  and the system calls do what their callers expect.
\<close>

section \<open>The frame\<close>

lemma on_dev_Done [simp]:
  "on_dev f c = Done a d \<longleftrightarrow> (\<exists>m. f (dev c) = Done a m \<and> d = c\<lparr>dev := m\<rparr>)"
  by (auto simp: on_dev_def split: outcome.splits)

lemma on_dev_eq: "f (dev c) = Done a m \<Longrightarrow> on_dev f c = Done a (c\<lparr>dev := m\<rparr>)"
  by simp

definition slot :: "u32 \<Rightarrow> nat \<Rightarrow> u32" where
  "slot b r = b + 4 * of_nat r"

lemma small_word_eq:
  assumes "(of_nat i :: u32) = of_nat j" and "i < 2 ^ 32" and "j < 2 ^ 32"
  shows "i = j"
  using assms by (simp add: word_of_nat_eq_iff take_bit_nat_eq_self)

lemma slot_byte: "slot b r + of_nat k = b + of_nat (4 * r + k)"
  by (simp add: slot_def)

lemma slot_apart:
  assumes "i < 32" "j < 32" "i \<noteq> j" "k < 4" "l < 4"
  shows "slot b i + of_nat k \<noteq> slot b j + of_nat l"
proof
  assume "slot b i + of_nat k = slot b j + of_nat l"
  then have "(of_nat (4 * i + k) :: u32) = of_nat (4 * j + l)" unfolding slot_byte by (rule add_left_imp_eq)
  then have "4 * i + k = 4 * j + l" by (rule small_word_eq) (use assms in simp_all)
  then have "(4 * i + k) div 4 = (4 * j + l) div 4" by simp
  then show False using assms by simp
qed

lemma set_word_bytes:
  assumes "\<And>l. l < 4 \<Longrightarrow> x \<noteq> a + of_nat l"
  shows "set_word f a v x = f x"
  using assms [of 0] assms [of 1] assms [of 2] assms [of 3] by (simp add: set_word_def)

lemma mem_word_cong:
  assumes "\<And>k. k < 4 \<Longrightarrow> f (a + of_nat k) = g (a + of_nat k)"
  shows "mem_word f a = mem_word g a"
  using assms [of 0] assms [of 1] assms [of 2] assms [of 3] by (simp add: mem_word_def)

lemma mem_word_slot:
  assumes "i < 32" "j < 32"
  shows "mem_word (set_word f (slot b i) v) (slot b j) = (if i = j then v else mem_word f (slot b j))"
proof (cases "i = j")
  case True
  then show ?thesis by (simp add: mem_word_set_word)
next
  case False
  have "mem_word (set_word f (slot b i) v) (slot b j) = mem_word f (slot b j)"
    by (rule mem_word_cong, rule set_word_bytes, rule slot_apart) (use assms False in auto)
  then show ?thesis using False by simp
qed

text \<open>A frame the handler can use: 32 word slots in writable memory.\<close>

definition frame_ok :: "u32 \<Rightarrow> bool" where
  "frame_ok b \<longleftrightarrow> b AND 3 = 0 \<and> list_all (\<lambda>r. writable (slot b r)) [0..<32]"

lemma frame_slot:
  assumes "frame_ok b" and "r < 32"
  shows "slot b r AND 3 = 0" and "writable (slot b r)" and "region (slot b r) \<noteq> 15"
proof -
  show w: "writable (slot b r)" using assms by (simp add: frame_ok_def list_all_iff)
  show "slot b r AND 3 = 0" using assms aligned_words [of b r] by (simp add: frame_ok_def slot_def)
  show "region (slot b r) \<noteq> 15" using w by (auto simp: writable_def)
qed

definition save_mem :: "u32 \<Rightarrow> (nat \<Rightarrow> u32) \<Rightarrow> nat list \<Rightarrow> (u32 \<Rightarrow> u8) \<Rightarrow> (u32 \<Rightarrow> u8)" where
  "save_mem b g rs f = fold (\<lambda>r f. set_word f (slot b r) (g r)) rs f"

lemma save_mem_simps [simp]:
  "save_mem b g [] f = f" "save_mem b g (r # rs) f = save_mem b g rs (set_word f (slot b r) (g r))"
  by (simp_all add: save_mem_def)

lemma save_mem_slot:
  assumes "\<forall>r \<in> set rs. r < 32" and "j < 32"
  shows "mem_word (save_mem b g rs f) (slot b j) = (if j \<in> set rs then g j else mem_word f (slot b j))"
  using assms
proof (induction rs arbitrary: f)
  case Nil
  then show ?case by simp
next
  case (Cons r rs)
  then show ?case using mem_word_slot [of r j f b "g r"] by auto
qed

lemma save_regs_frame:
  assumes "frame_ok (gpr c 2)" and "\<forall>r \<in> set rs. r < 32"
  shows "save_regs rs c = Done () (c\<lparr>dev := (dev c)\<lparr>mem := save_mem (gpr c 2) (gpr c) rs (mem (dev c))\<rparr>\<rparr>)"
  using assms
proof (induction rs arbitrary: c)
  case Nil
  then show ?case by simp
next
  case (Cons r rs)
  let ?d = "c\<lparr>dev := (dev c)\<lparr>mem := set_word (mem (dev c)) (slot (gpr c 2) r) (gpr c r)\<rparr>\<rparr>"
  have "store32 (gpr c 2 + 4 * of_nat r) (gpr c r) (dev c) = Done () (dev ?d)"
    using frame_slot [OF Cons.prems(1), of r] Cons.prems(2) store32_mem by (simp add: slot_def)
  then show ?case using Cons.IH [of ?d] Cons.prems by (simp add: on_dev_eq)
qed

text \<open>Reloading a register from its slot.\<close>

lemma load_reg_slot:
  assumes "frame_ok (gpr c 2)" and "r < 32"
  shows "load_reg r c = Done () (set_reg r (mem_word (mem (dev c)) (slot (gpr c 2) r)) c)"
proof -
  have "load32 (gpr c 2 + 4 * of_nat r) (dev c) = Done (mem_word (mem (dev c)) (slot (gpr c 2) r)) (dev c)"
    using frame_slot [OF assms] load32_mem by (simp add: slot_def)
  then show ?thesis by (simp add: load_reg_def on_dev_eq)
qed

lemma load_regs_frame:
  assumes "frame_ok b" and "gpr c 2 = b" and "\<forall>r \<in> set rs. r < 32"
    and "mem_word (mem (dev c)) (slot b 2) = b"
  shows "\<exists>d. load_regs rs c = Done () d \<and> dev d = dev c \<and> errno_var d = errno_var c
    \<and> gpr d = (\<lambda>r. if r \<in> set rs then mem_word (mem (dev c)) (slot b r) else gpr c r)"
  using assms
proof (induction rs arbitrary: c)
  case Nil
  then show ?case by auto
next
  case (Cons r rs)
  let ?d = "set_reg r (mem_word (mem (dev c)) (slot b r)) c"
  have l: "load_reg r c = Done () ?d" using load_reg_slot [of c r] Cons.prems by simp
  have "gpr ?d 2 = b" using Cons.prems by (simp add: set_reg_def)
  then obtain d where d: "load_regs rs ?d = Done () d" "dev d = dev ?d" "errno_var d = errno_var ?d"
      "gpr d = (\<lambda>r. if r \<in> set rs then mem_word (mem (dev ?d)) (slot b r) else gpr ?d r)"
    using Cons.IH [of ?d] Cons.prems by (auto simp: set_reg_def)
  then show ?case using l by (auto simp: set_reg_def fun_eq_iff)
qed


section \<open>The handler is transparent\<close>

text \<open>The state the dispatch sees: registers stored below the stack pointer.\<close>

definition frame_of :: "cpu \<Rightarrow> u32" where
  "frame_of c = gpr c 2 - 32 * 4"

definition saved :: "cpu \<Rightarrow> cpu" where
  "saved c = (let d = set_reg 2 (frame_of c) c in
     d\<lparr>dev := (dev c)\<lparr>mem := save_mem (frame_of c) (gpr d) [1..<32] (mem (dev c))\<rparr>\<rparr>)"

lemma saved_fields [simp]:
  "gpr (saved c) = (gpr c)(2 := frame_of c)" "errno_var (saved c) = errno_var c"
  "mcause (dev (saved c)) = mcause (dev c)" "pending (dev (saved c)) = pending (dev c)"
  "line_out (dev (saved c)) = line_out (dev c)"
  by (simp_all add: saved_def set_reg_def)

text \<open>Storing the frame changes memory only.\<close>

lemma saved_devices: "dev (saved c) = (dev c)\<lparr>mem := mem (dev (saved c))\<rparr>"
  by (simp add: saved_def set_reg_def)

lemma save_context_saved: "frame_ok (frame_of c) \<Longrightarrow> save_context c = Done () (saved c)"
  using save_regs_frame [of "set_reg 2 (gpr c 2 - 32 * 4) c" "[1..<32]"]
  by (simp add: save_context_def saved_def frame_of_def set_reg_def)

lemma saved_slot:
  "1 \<le> r \<Longrightarrow> r < 32 \<Longrightarrow> mem_word (mem (dev (saved c))) (slot (frame_of c) r) = ((gpr c)(2 := frame_of c)) r"
  using save_mem_slot [of "[1..<32]" r "frame_of c" "gpr (set_reg 2 (frame_of c) c)" "mem (dev c)"]
  by (simp add: saved_def set_reg_def)

text \<open>The dispatch leaves the registers alone.\<close>

lemma on_dev_gpr: "on_dev f c = Done a d \<Longrightarrow> gpr d = gpr c"
  by auto

lemma ecall_gpr: "ecall E c = Done v d \<Longrightarrow> gpr d = gpr c"
  by (auto simp: ecall_def Let_def sys_brk_def sys_read_def sys_write_def sys_gettimeofday_def
      sys_stat_def fail_def andthen_Done_iff split: if_splits option.splits prod.splits)

lemma dispatch_gpr: "dispatch E delta c = Done rv d \<Longrightarrow> gpr d = gpr c"
  by (auto simp: dispatch_def Let_def andthen_Done_iff dest: ecall_gpr split: if_splits)

definition keeps_frame :: "u32 \<Rightarrow> machine \<Rightarrow> machine \<Rightarrow> bool" where
  "keeps_frame b m n \<longleftrightarrow> (\<forall>r \<in> {1..<32}. mem_word (mem n) (slot b r) = mem_word (mem m) (slot b r))"

lemma universal_handler_context:
  assumes f: "frame_ok (frame_of c)" and d: "dispatch E delta (saved c) = Done rv d"
    and k: "keeps_frame (frame_of c) (dev (saved c)) (dev d)"
  shows "\<exists>e. universal_handler E delta junk c = Done () e \<and> dev e = dev d \<and> errno_var e = errno_var d
    \<and> (\<forall>r < 32. gpr e r = (if r = 10 then (case rv of Some v \<Rightarrow> v | None \<Rightarrow> gpr c 10) else gpr c r))"
proof -
  let ?b = "frame_of c" and ?k = "clobber junk d"
  let ?v = "case rv of Some v \<Rightarrow> v | None \<Rightarrow> gpr c 10"
  have g: "gpr d = (gpr c)(2 := ?b)" using dispatch_gpr [OF d] by simp
  have slots: "mem_word (mem (dev d)) (slot ?b r) = ((gpr c)(2 := ?b)) r" if "1 \<le> r" "r < 32" for r
    using k saved_slot [OF that] that by (simp add: keeps_frame_def)
  have k2: "gpr ?k 2 = ?b" "dev ?k = dev d" "errno_var ?k = errno_var d" "gpr ?k 0 = gpr c 0"
    using g by (simp_all add: clobber_def)
  have del: "deliver rv ?k = Done () (set_reg 10 ?v ?k)"
    using load_reg_slot [of ?k 10] slots [of 10] f k2 by (cases rv) (simp_all add: deliver_def)
  let ?l = "set_reg 10 ?v ?k" and ?rs = "rev [11..<32] @ rev [1..<10]"
  have l: "gpr ?l 2 = ?b" "dev ?l = dev d" "errno_var ?l = errno_var d" using k2 by (simp_all add: set_reg_def)
  have rs: "set ?rs = {1..<32} - {10}" by (simp only: set_append set_rev set_upt) auto
  have "\<forall>r \<in> set ?rs. r < 32" "mem_word (mem (dev ?l)) (slot ?b 2) = ?b"
    using l(2) slots [of 2] unfolding rs by simp_all
  from load_regs_frame [OF f l(1) this] obtain e where e:
    "load_regs ?rs ?l = Done () e" "dev e = dev d" "errno_var e = errno_var d"
    "gpr e = (\<lambda>r. if r \<in> {1..<32} - {10} then mem_word (mem (dev d)) (slot ?b r) else gpr ?l r)"
    unfolding rs l(2,3) by blast
  have g0: "gpr e 0 = gpr c 0" using e(4) k2(4) by (simp add: set_reg_def)
  have g10: "gpr e 10 = ?v" using e(4) by (simp add: set_reg_def)
  have gr: "gpr e r = gpr c r" if "1 \<le> r" "r < 32" "r \<noteq> 10" "r \<noteq> 2" for r
    using e(4) slots [of r] that by simp
  have g2: "gpr e 2 = ?b" using e(4) slots [of 2] by simp
  let ?e = "set_reg 2 (gpr e 2 + 32 * 4) e"
  have "restore_context ?l = Done () ?e" unfolding restore_context_def e(1) by simp
  then have u: "universal_handler E delta junk c = Done () ?e"
    using save_context_saved [OF f] d del by (simp add: universal_handler_def)
  have "gpr ?e r = (if r = 10 then ?v else gpr c r)" if "r < 32" for r
  proof (cases "r = 0 \<or> r = 2 \<or> r = 10")
    case True
    then show ?thesis using g0 g2 g10 by (auto simp: set_reg_def frame_of_def)
  next
    case False
    then show ?thesis using gr [of r] that by (simp add: set_reg_def)
  qed
  then show ?thesis using u e(2,3) by (intro exI [of _ ?e]) (simp add: set_reg_def)
qed

section \<open>Interrupts and exceptions\<close>

definition in_frame :: "u32 \<Rightarrow> u32 \<Rightarrow> bool" where
  "in_frame b x \<longleftrightarrow> list_ex (\<lambda>k. x = b + of_nat k) [0..<128]"

lemma in_frame_slot: "r < 32 \<Longrightarrow> l < 4 \<Longrightarrow> in_frame b (slot b r + of_nat l)"
  unfolding slot_byte in_frame_def list_ex_iff by (intro bexI [of _ "4 * r + l"]) auto

lemma save_mem_outside:
  "\<forall>r \<in> set rs. r < 32 \<Longrightarrow> \<not> in_frame b x \<Longrightarrow> save_mem b g rs f x = f x"
proof (induction rs arbitrary: f)
  case Nil
  then show ?case by simp
next
  case (Cons r rs)
  have "set_word f (slot b r) (g r) x = f x"
    using in_frame_slot [of r _ b] Cons.prems by (intro set_word_bytes) auto
  then show ?case using Cons by simp
qed

lemma saved_outside: "\<not> in_frame (frame_of c) x \<Longrightarrow> mem (dev (saved c)) x = mem (dev c) x"
  using save_mem_outside [of "[1..<32]"] by (simp add: saved_def set_reg_def)

lemma keeps_frame_mem:
  assumes "\<And>x. in_frame b x \<Longrightarrow> mem n x = mem m x"
  shows "keeps_frame b m n"
  unfolding keeps_frame_def by (auto intro!: mem_word_cong assms in_frame_slot)

lemma keeps_frame_same: "mem n = mem m \<Longrightarrow> keeps_frame b m n"
  by (simp add: keeps_frame_def)

lemma core_mem: "core n = (core m)\<lparr>mtimecmp := t, pouta := p\<rparr> \<Longrightarrow> mem n = mem m"
  by (drule arg_cong [of _ _ mem]) simp

lemma timer_entry_mem: "brisk m \<Longrightarrow> \<exists>n. timer_entry delta m = Done () n \<and> mem n = mem m"
proof -
  assume "brisk m"
  from timer_handler_effect [OF this, of delta] show ?thesis
    by (auto simp: timer_entry_def dest: core_mem)
qed


lemma usart_handler_mem: "mem (usart_handler m) = mem m"
  by (simp add: usart_handler_def io_read_def)

lemma timer1_handler_mem: "mem (timer1_cmpt_handler m) = mem m"
  by (simp add: timer1_cmpt_handler_def io_read_def)

lemma debugger_mem: "\<exists>n. debugger m = Done () n \<and> mem n = mem m"
  using debugger_traffic [of m] serial_mem by blast

lemma brisk_saved [simp]: "brisk (dev (saved c)) \<longleftrightarrow> brisk (dev c)"
  by (simp add: brisk_def saved_def set_reg_def)

lemma dispatch_no_ecall:
  assumes "mcause (dev c) \<noteq> ECALL_IN_MCAUSE" and "brisk (dev c)"
  shows "\<exists>d. dispatch E delta c = Done None d \<and> mem (dev d) = mem (dev c) \<and> errno_var d = errno_var c"
proof -
  obtain n where n: "timer_entry delta (dev c) = Done () n" "mem n = mem (dev c)"
    using timer_entry_mem [OF assms(2)] by blast
  obtain k where k: "debugger (dev c) = Done () k" "mem k = mem (dev c)"
    using debugger_mem by blast
  show ?thesis
    using assms(1) n k
    by (simp add: dispatch_def Let_def on_dev_eq usart_handler_mem timer1_handler_mem)
qed

text \<open>C8: Every interrupt and every exception other than ECALL returns with all registers, errno
  and all memory outside the handler's own stack frame as they were, whatever the compiled
  part of the handler leaves in the registers.\<close>

theorem trap_transparent:
  assumes "frame_ok (frame_of c)" and "mcause (dev c) \<noteq> ECALL_IN_MCAUSE" and "brisk (dev c)"
  shows "\<exists>d e. dispatch E delta (saved c) = Done None d \<and> universal_handler E delta junk c = Done () e
    \<and> dev e = dev d \<and> (\<forall>r < 32. gpr e r = gpr c r) \<and> errno_var e = errno_var c
    \<and> (\<forall>x. \<not> in_frame (frame_of c) x \<longrightarrow> mem (dev e) x = mem (dev c) x)"
proof -
  obtain d where d: "dispatch E delta (saved c) = Done None d" "mem (dev d) = mem (dev (saved c))"
      "errno_var d = errno_var c"
    using dispatch_no_ecall [of "saved c" E delta] assms(2,3) by auto
  obtain e where "universal_handler E delta junk c = Done () e" "dev e = dev d" "errno_var e = errno_var d"
      "\<forall>r < 32. gpr e r = (if r = 10 then gpr c 10 else gpr c r)"
    using universal_handler_context [OF assms(1) d(1) keeps_frame_same [OF d(2)], of junk] by auto
  then show ?thesis using d saved_outside [of c] by (intro exI [of _ d] exI [of _ e]) auto
qed

section \<open>System calls\<close>

text \<open>What ECALL leaves: \<open>a0\<close> holds \<open>v\<close>, the rest of the registers is the caller's.\<close>

definition returns :: "cpu \<Rightarrow> u32 \<Rightarrow> cpu \<Rightarrow> bool" where
  "returns c v e \<longleftrightarrow> (\<forall>r < 32. gpr e r = (if r = 10 then v else gpr c r))"

lemma ecall_context:
  assumes "frame_ok (frame_of c)" and "mcause (dev c) = ECALL_IN_MCAUSE"
    and "ecall E (saved c) = Done v d" and "keeps_frame (frame_of c) (dev (saved c)) (dev d)"
  shows "\<exists>e. universal_handler E delta junk c = Done () e \<and> returns c v e \<and> dev e = dev d \<and> errno_var e = errno_var d"
proof -
  have "dispatch E delta (saved c) = Done (Some v) d"
    using assms(2,3) by (simp add: dispatch_def Let_def SYSTEM_TIMER_IN_MCAUSE_def USART_IN_MCAUSE_def
        TIMER1_CMPT_IN_MCAUSE_def ECALL_IN_MCAUSE_def EBREAK_IN_MCAUSE_def)
  from universal_handler_context [OF assms(1) this assms(4), of junk] show ?thesis
    by (auto simp: returns_def)
qed

fun plain_call :: "sys \<Rightarrow> (u32 \<times> errno_code option) option" where
  "plain_call SYS_exit = Some (0, None)"
| "plain_call SYS_lseek = Some (0, None)"
| "plain_call SYS_open = Some (-1, Some EBADF)"
| "plain_call SYS_close = Some (-1, Some EBADF)"
| "plain_call SYS_unlink = Some (-1, Some ENOENT)"
| "plain_call SYS_link = Some (-1, Some EMLINK)"
| "plain_call SYS_access = Some (-1, Some EACCES)"
| "plain_call _ = None"

definition after_errno :: "errno_code option \<Rightarrow> errno_code option \<Rightarrow> errno_code option" where
  "after_errno e old = (case e of None \<Rightarrow> old | Some x \<Rightarrow> Some x)"

lemma ecall_plain:
  assumes "inj (nr E)" and "gpr c 17 = nr E s" and "plain_call s = Some (v, er)"
  shows "ecall E c = Done v (c\<lparr>errno_var := after_errno er (errno_var c)\<rparr>)"
  using assms(2,3) by (cases s) (auto simp: ecall_def Let_def inj_eq [OF assms(1)] fail_def after_errno_def)

lemma ecall_unknown:
  assumes "gpr c 17 \<notin> range (nr E)"
  shows "ecall E c = Done (-1) (c\<lparr>errno_var := Some ENOSYS\<rparr>)"
proof -
  have "gpr c 17 \<noteq> nr E s" for s using assms by auto
  then show ?thesis by (simp add: ecall_def Let_def fail_def)
qed

text \<open>C16: Each system call that only reports a result or an error, and every call number that is
  not known (ENOSYS), leaves that value in a0 and the matching errno; the other registers,
  all devices and all memory outside the handler's frame stay as they were.\<close>

theorem ecall_plain_result:
  assumes "frame_ok (frame_of c)" and "mcause (dev c) = ECALL_IN_MCAUSE" and "inj (nr E)"
    and "(\<exists>s. gpr c 17 = nr E s \<and> plain_call s = Some (v, er))
      \<or> gpr c 17 \<notin> range (nr E) \<and> v = -1 \<and> er = Some ENOSYS"
  shows "\<exists>e. universal_handler E delta junk c = Done () e \<and> returns c v e
    \<and> errno_var e = after_errno er (errno_var c) \<and> dev e = (dev c)\<lparr>mem := mem (dev e)\<rparr>
    \<and> (\<forall>x. \<not> in_frame (frame_of c) x \<longrightarrow> mem (dev e) x = mem (dev c) x)"
proof -
  have "ecall E (saved c) = Done v ((saved c)\<lparr>errno_var := after_errno er (errno_var c)\<rparr>)"
    using assms(4) ecall_plain [OF assms(3), of "saved c"] ecall_unknown [of "saved c" E]
    by (auto simp: after_errno_def)
  from ecall_context [OF assms(1,2) this, of delta junk] show ?thesis
    using saved_outside [of c] saved_devices [of c] by (auto simp: keeps_frame_same)
qed

section \<open>The heap and the character calls\<close>

text \<open>C14: The brk system call grants an address below the reserved stack, answers 0 with the
  start of the heap, and refuses anything else with ENOMEM.\<close>

theorem ecall_brk:
  assumes "frame_ok (frame_of c)" and "mcause (dev c) = ECALL_IN_MCAUSE"
    and "gpr c 17 = nr E SYS_brk"
  shows "\<exists>e v. universal_handler E delta junk c = Done () e \<and> returns c v e
    \<and> (if gpr c 10 = 0 then v = end_sym E \<and> errno_var e = errno_var c
       else if gpr c 10 < stack_top E - stack_size E then v = gpr c 10 \<and> errno_var e = errno_var c
       else v = -1 \<and> errno_var e = Some ENOMEM)"
proof -
  obtain v d where d: "ecall E (saved c) = Done v d" "dev d = dev (saved c)"
      "if gpr c 10 = 0 then v = end_sym E \<and> errno_var d = errno_var c
       else if gpr c 10 < stack_top E - stack_size E then v = gpr c 10 \<and> errno_var d = errno_var c
       else v = -1 \<and> errno_var d = Some ENOMEM"
  proof -
    consider "gpr c 10 = 0" | "gpr c 10 \<noteq> 0" "gpr c 10 < stack_top E - stack_size E"
      | "gpr c 10 \<noteq> 0" "\<not> gpr c 10 < stack_top E - stack_size E" by blast
    then show thesis
    proof cases
      case 1
      show thesis by (rule that [of "end_sym E" "saved c"]) (use 1 assms(3) in \<open>simp_all add: ecall_def sys_brk_def\<close>)
    next
      case 2
      show thesis by (rule that [of "gpr c 10" "saved c"]) (use 2 assms(3) in \<open>simp_all add: ecall_def sys_brk_def\<close>)
    next
      case 3
      show thesis
        by (rule that [of "-1" "(saved c)\<lparr>errno_var := Some ENOMEM\<rparr>"])
          (use 3 assms(3) in \<open>simp_all add: ecall_def sys_brk_def fail_def Let_def\<close>)
    qed
  qed
  have "keeps_frame (frame_of c) (dev (saved c)) (dev d)" using d(2) by (simp add: keeps_frame_same)
  from ecall_context [OF assms(1,2) d(1) this, of delta junk] show ?thesis
    using d(3) by (metis (no_types, lifting))
qed

lemma write_chars_traffic:
  assumes "putchar E = io_putchar" and "list_all (\<lambda>i. region (p + of_nat i) \<noteq> 15) [0..<n]"
  shows "traffic [] (map (\<lambda>i. mem m (p + of_nat i)) [0..<n]) () (write_chars E n p m) m"
  using assms(2)
proof (induction n arbitrary: p m)
  case 0
  then show ?case by simp
next
  case (Suc n)
  have reg: "region p \<noteq> 15" "list_all (\<lambda>i. region ((p + 1) + of_nat i) \<noteq> 15) [0..<n]"
    using Suc.prems list_all_upt_word [of "\<lambda>x. region x \<noteq> 15" p n] by blast+
  have rest: "traffic [] (map (\<lambda>i. mem m ((p + 1) + of_nat i)) [0..<n]) () (write_chars E n (p + 1) k) k"
    if "serial [] os m k" for os k
    using Suc.IH [OF reg(2), of k] serial_mem [OF that] by simp
  have "traffic [] ([mem m p] @ map (\<lambda>i. mem m ((p + 1) + of_nat i)) [0..<n]) ()
     (andthen (usart_putc (ucast (mem m p)) m) (\<lambda>_ m. write_chars E n (p + 1) m)) m"
    by (rule traffic_says) (use traffic_putc [of "ucast (mem m p)" m] rest in simp_all)
  then show ?case
    using reg(1) unfolding map_upt_word [of "mem m" p n]
    by (simp add: load8_def assms(1) io_putchar_def andthen_assoc)
qed

text \<open>C12: The write system call sends exactly the bytes of the buffer over the USART and returns
  their number in a0, the other registers kept.\<close>

theorem ecall_write:
  assumes "frame_ok (frame_of c)" and "mcause (dev c) = ECALL_IN_MCAUSE" and "inj (nr E)"
    and "gpr c 17 = nr E SYS_write" and "putchar E = io_putchar"
    and "list_all (\<lambda>i. region (gpr c 11 + of_nat i) \<noteq> 15 \<and> \<not> in_frame (frame_of c) (gpr c 11 + of_nat i))
      [0..<nat (sint (gpr c 12))]"
  shows "\<exists>e. universal_handler E delta junk c = Done () e \<and> returns c (gpr c 12) e
    \<and> line_out (dev e) = line_out (dev c) @ map (\<lambda>i. mem (dev c) (gpr c 11 + of_nat i)) [0..<nat (sint (gpr c 12))]
    \<and> pending (dev e) = pending (dev c) \<and> errno_var e = errno_var c"
proof -
  let ?p = "gpr c 11" and ?n = "nat (sint (gpr c 12))" and ?s = "saved c"
  have reg: "list_all (\<lambda>i. region (?p + of_nat i) \<noteq> 15) [0..<?n]"
    using assms(6) by (simp add: list_all_iff)
  have same: "map (\<lambda>i. mem (dev ?s) (?p + of_nat i)) [0..<?n] = map (\<lambda>i. mem (dev c) (?p + of_nat i)) [0..<?n]"
    using assms(6) saved_outside [of c] by (simp add: list_all_iff)
  obtain n where n: "write_chars E ?n ?p (dev ?s) = Done () n"
      "serial [] (map (\<lambda>i. mem (dev c) (?p + of_nat i)) [0..<?n]) (dev ?s) n"
    using trafficE [OF write_chars_traffic [OF assms(5) reg, of "dev ?s"]] unfolding same by metis
  have "ecall E ?s = Done (gpr c 12) (?s\<lparr>dev := n\<rparr>)"
    using assms(4) n(1) by (simp add: ecall_def Let_def inj_eq [OF assms(3)] sys_write_def on_dev_eq)
  from ecall_context [OF assms(1,2) this, of delta junk] show ?thesis
    using n(2) serial_mem [OF n(2)] by (auto simp: keeps_frame_same serial_def)
qed

lemma read_chars_effect:
  assumes "getchar E = io_getchar" and "pending m = cs @ rest"
    and "list_all (\<lambda>i. region (p + of_nat i) = 2) [0..<length cs]"
  shows "\<exists>n. read_chars E (length cs) p m = Done () n \<and> receives cs [] (store_bytes p cs) (\<lambda>x. x) m n"
  using assms(2,3)
proof (induction cs arbitrary: p m)
  case Nil
  then show ?case by (auto simp: receives_def fun_eq_iff)
next
  case (Cons d cs)
  obtain k where k: "usart_getc m = Done (ucast d) k" "serial [d] [] m k"
    using usart_getc_serial [of m d "cs @ rest"] Cons.prems(1) by auto
  have reg: "region p = 2" "list_all (\<lambda>i. region (p + 1 + of_nat i) = 2) [0..<length cs]"
    using Cons.prems(2) list_all_upt_word [of "\<lambda>x. region x = 2" p "length cs"] unfolding list.size add_0_right add_Suc_right by blast+
  let ?k = "k\<lparr>mem := (mem k)(p := d)\<rparr>"
  have p: "pending ?k = cs @ rest" using serial_pending [OF k(2)] Cons.prems(1) by simp
  obtain n where n: "read_chars E (length cs) (p + 1) ?k = Done () n"
      "receives cs [] (store_bytes (p + 1) cs) (\<lambda>x. x) ?k n"
    using Cons.IH [OF p reg(2)] by blast
  have st: "receives [] [] (\<lambda>f. f(p := d)) (\<lambda>x. x) k ?k" by (simp add: receives_def)
  have "receives (d # cs) [] (\<lambda>h. store_bytes (p + 1) cs (h(p := d))) (\<lambda>x. x) m n"
    using receives_trans [OF receives_serial [OF k(2)] receives_trans [OF st n(2)]] by simp
  then show ?case
    using k(1) n(1) reg(1) by (auto simp: assms(1) io_getchar_def store8_def)
qed

lemma store_bytes_frame:
  assumes "list_all (\<lambda>i. \<not> in_frame b (p + of_nat i)) [0..<length cs]" and "in_frame b x"
  shows "store_bytes p cs f x = f x"
  using assms(1)
proof (induction cs arbitrary: p f)
  case Nil
  then show ?case by simp
next
  case (Cons d cs)
  then have "\<not> in_frame b p" "list_all (\<lambda>i. \<not> in_frame b (p + 1 + of_nat i)) [0..<length cs]"
    using list_all_upt_word [of "\<lambda>x. \<not> in_frame b x" p "length cs"]
    unfolding list.size add_0_right add_Suc_right by blast+
  then show ?case using Cons.IH assms(2) by auto
qed

lemma store_bytes_cong: "f x = g x \<Longrightarrow> store_bytes p cs f x = store_bytes p cs g x"
proof (induction cs arbitrary: p f g)
  case Nil
  then show ?case by simp
next
  case (Cons d cs)
  have "(f(p := d)) x = (g(p := d)) x" using Cons.prems by simp
  from Cons.IH [of "f(p := d)" "g(p := d)" "p + 1", OF this] show ?case unfolding store_bytes.simps .
qed

text \<open>C13: The read system call puts the next characters received into the buffer, changes no
  other memory outside its frame and returns their number in a0.\<close>

theorem ecall_read:
  assumes "frame_ok (frame_of c)" and "mcause (dev c) = ECALL_IN_MCAUSE" and "inj (nr E)"
    and "gpr c 17 = nr E SYS_read" and "getchar E = io_getchar"
    and "pending (dev c) = cs @ rest" and "sint (gpr c 12) = int (length cs)"
    and "list_all (\<lambda>i. region (gpr c 11 + of_nat i) = 2 \<and> \<not> in_frame (frame_of c) (gpr c 11 + of_nat i))
      [0..<length cs]"
  shows "\<exists>e. universal_handler E delta junk c = Done () e \<and> returns c (gpr c 12) e
    \<and> pending (dev e) = rest \<and> line_out (dev e) = line_out (dev c) \<and> errno_var e = errno_var c
    \<and> (\<forall>x. \<not> in_frame (frame_of c) x \<longrightarrow> mem (dev e) x = store_bytes (gpr c 11) cs (mem (dev c)) x)"
proof -
  let ?p = "gpr c 11" and ?s = "saved c"
  have reg: "list_all (\<lambda>i. region (?p + of_nat i) = 2) [0..<length cs]"
    and out: "list_all (\<lambda>i. \<not> in_frame (frame_of c) (?p + of_nat i)) [0..<length cs]"
    using assms(8) by (simp_all add: list_all_iff)
  obtain n where n: "read_chars E (length cs) ?p (dev ?s) = Done () n"
      "receives cs [] (store_bytes ?p cs) (\<lambda>x. x) (dev ?s) n"
    using read_chars_effect [OF assms(5) _ reg, of "dev ?s" rest] assms(6) by auto
  have m: "mem n = store_bytes ?p cs (mem (dev ?s))" by (rule receives_fields(1) [OF n(2)])
  have "ecall E ?s = Done (gpr c 12) (?s\<lparr>dev := n\<rparr>)"
    using assms(4,7) n(1) by (simp add: ecall_def Let_def inj_eq [OF assms(3)] sys_read_def on_dev_eq)
  moreover have "keeps_frame (frame_of c) (dev ?s) (dev (?s\<lparr>dev := n\<rparr>))"
    by (rule keeps_frame_mem) (simp add: m store_bytes_frame [OF out])
  ultimately obtain e where "universal_handler E delta junk c = Done () e" "returns c (gpr c 12) e"
      "dev e = n" "errno_var e = errno_var c"
    using ecall_context [OF assms(1,2)] by fastforce
  moreover have "mem n x = store_bytes ?p cs (mem (dev c)) x" if "\<not> in_frame (frame_of c) x" for x
    unfolding m using saved_outside [OF that] by (rule store_bytes_cong)
  ultimately show ?thesis
    using n(2) assms(6) by (intro exI [of _ e]) (auto simp: receives_def)
qed

text \<open>The time of day is the clock of the processor, split into seconds and microseconds.\<close>

lemma tick_mem: "tick (m\<lparr>mem := f\<rparr>) = (tick m)\<lparr>mem := f\<rparr>"
  by (simp add: tick_def tick_tx_def tick_rx_def tick_time_def
      split: option.splits nat.splits list.splits prod.splits)

lemma funpow_tick_mem: "(tick ^^ k) (m\<lparr>mem := f\<rparr>) = ((tick ^^ k) m)\<lparr>mem := f\<rparr>"
  by (induction k) (simp_all add: tick_mem)

lemma clock_mem: "read_tick (m\<lparr>mem := f\<rparr>) = read_tick m" "clock_after k (m\<lparr>mem := f\<rparr>) = clock_after k m"
  by (simp_all add: read_tick_def clock_after_def tick_mem funpow_tick_mem)

text \<open>C15: The gettimeofday system call returns 0 and stores one value of the 64-bit clock, split
  into seconds and microseconds: the clock after the first access, or after the fourth when
  the upper half changed between the two reads of it. The other registers, errno, memory
  outside the frame and the time structure, and, but for the time that passes, the devices
  stay as they were.\<close>

theorem ecall_gettimeofday:
  assumes "frame_ok (frame_of c)" and "mcause (dev c) = ECALL_IN_MCAUSE" and "inj (nr E)"
    and "gpr c 17 = nr E SYS_gettimeofday" and "brisk (dev c)"
    and "\<And>s u f x. in_frame (frame_of c) x \<Longrightarrow> put_timeval E (gpr c 10) s u f x = f x"
  shows "\<exists>e. universal_handler E delta junk c = Done () e \<and> returns c 0 e \<and> errno_var e = errno_var c
    \<and> read_tick (dev c) \<in> {1, 4}
    \<and> (let k = read_tick (dev c); t = clock_after k (dev c)
       in dev e = ((tick ^^ (k + 2)) (dev c))\<lparr>mem :=
         put_timeval E (gpr c 10) (t div 1000000) (ucast (t mod 1000000)) (mem (dev (saved c)))\<rparr>)
    \<and> (\<forall>x. \<not> in_frame (frame_of c) x \<longrightarrow> mem (dev (saved c)) x = mem (dev c) x)"
proof -
  let ?s = "saved c" and ?k = "read_tick (dev c)" and ?f = "mem (dev (saved c))"
  let ?t = "clock_after ?k (dev c)"
  define r where "r = (tick ^^ (?k + 2)) (dev c)"
  let ?m = "put_timeval E (gpr c 10) (?t div 1000000) (ucast (?t mod 1000000)) ?f"
  have b: "brisk (dev ?s)" using assms(5) by simp
  obtain hi lo where t: "read_time (dev ?s) = Some (hi, lo, r\<lparr>mem := ?f\<rparr>)" "join64 hi lo = ?t"
    using read_time_ticks [OF b] saved_devices [of c]
    by (metis clock_mem funpow_tick_mem r_def)
  have "ecall E ?s = Done 0 (?s\<lparr>dev := r\<lparr>mem := ?m\<rparr>\<rparr>)"
    using assms(4) t by (simp add: ecall_def Let_def inj_eq [OF assms(3)] sys_gettimeofday_def)
  moreover have "keeps_frame (frame_of c) (dev ?s) (dev (?s\<lparr>dev := r\<lparr>mem := ?m\<rparr>\<rparr>))"
    by (rule keeps_frame_mem) (simp add: assms(6))
  ultimately obtain e where "universal_handler E delta junk c = Done () e" "returns c 0 e"
      "dev e = r\<lparr>mem := ?m\<rparr>" "errno_var e = errno_var c"
    using ecall_context [OF assms(1,2)] by fastforce
  then show ?thesis
    using saved_outside [of c] unfolding r_def Let_def by (auto simp: read_tick_def)
qed

section \<open>A concrete system\<close>

text \<open>System call numbers of newlib for RISC-V, its \<open>struct timeval\<close> (8 and 4 bytes) and its
  \<open>st_mode\<close> at offset 4, and the memory map of the linker script.\<close>

fun newlib_nr :: "sys \<Rightarrow> u32" where
  "newlib_nr SYS_brk = 214" | "newlib_nr SYS_read = 63" | "newlib_nr SYS_write = 64"
| "newlib_nr SYS_gettimeofday = 169" | "newlib_nr SYS_exit = 93" | "newlib_nr SYS_open = 1024"
| "newlib_nr SYS_close = 57" | "newlib_nr SYS_fstat = 80" | "newlib_nr SYS_stat = 1038"
| "newlib_nr SYS_fstatat = 79" | "newlib_nr SYS_lstat = 1039" | "newlib_nr SYS_unlink = 1026"
| "newlib_nr SYS_lseek = 62" | "newlib_nr SYS_link = 1025" | "newlib_nr SYS_access = 1033"

lemma newlib_nr_inj: "inj newlib_nr"
proof (rule injI)
  fix x y show "newlib_nr x = newlib_nr y \<Longrightarrow> x = y" by (cases x; cases y) simp_all
qed

definition board :: sysenv where
  "board = \<lparr>nr = newlib_nr,
     put_timeval = (\<lambda>a s u f. set_word (set_word (set_word f a (ucast s)) (a + 4) (ucast (drop_bit 32 s))) (a + 8) u),
     put_mode = (\<lambda>a v f. set_word f (a + 4) v), S_IFCHR = 0x2000,
     end_sym = 0x20000800, stack_top = 0x20004000, stack_size = 0x400,
     putchar = io_putchar, getchar = io_getchar\<rparr>"

lemma board_simps [simp]:
  "nr board = newlib_nr" "end_sym board = 0x20000800" "stack_top board = 0x20004000"
  "stack_size board = 0x400" "putchar board = io_putchar" "getchar board = io_getchar"
  by (simp_all add: board_def)

text \<open>A program with its stack pointer at 0x20003f80 that calls the system or is interrupted.\<close>

definition caller :: "u32 \<Rightarrow> u32 \<Rightarrow> u32 \<Rightarrow> u32 \<Rightarrow> u32 \<Rightarrow> u8 list \<Rightarrow> cpu" where
  "caller cause a7 a0 a1 a2 cs =
     \<lparr>gpr = (\<lambda>r. if r = 2 then 0x20003f80 else if r = 17 then a7 else if r = 10 then a0 else
        if r = 11 then a1 else if r = 12 then a2 else of_nat r),
      dev = (power_on cs)\<lparr>mcause := cause\<rparr>, errno_var = None\<rparr>"

lemma caller_simps [simp]:
  "gpr (caller cause a7 a0 a1 a2 cs) 17 = a7" "gpr (caller cause a7 a0 a1 a2 cs) 10 = a0"
  "gpr (caller cause a7 a0 a1 a2 cs) 11 = a1" "gpr (caller cause a7 a0 a1 a2 cs) 12 = a2"
  "frame_of (caller cause a7 a0 a1 a2 cs) = 0x20003f00" "mcause (dev (caller cause a7 a0 a1 a2 cs)) = cause"
  "errno_var (caller cause a7 a0 a1 a2 cs) = None" "mem (dev (caller cause a7 a0 a1 a2 cs)) = (\<lambda>_. 0)"
  "pending (dev (caller cause a7 a0 a1 a2 cs)) = cs" "line_out (dev (caller cause a7 a0 a1 a2 cs)) = []"
  by (simp_all add: caller_def frame_of_def pending_def power_on_def o_def)

lemma caller_brisk [simp]: "brisk (dev (caller cause a7 a0 a1 a2 cs))"
  by (simp add: brisk_def caller_def power_on_def)

lemma board_frame: "frame_ok 0x20003f00"
  by code_simp

theorem trap_transparent_witness:
  "\<exists>e. universal_handler board 100000 (\<lambda>_. 0xdeadbeef) (caller USART_IN_MCAUSE 0 1 2 3 [65]) = Done () e
    \<and> (\<forall>r < 32. gpr e r = gpr (caller USART_IN_MCAUSE 0 1 2 3 [65]) r) \<and> errno_var e = None"
  using trap_transparent [of "caller USART_IN_MCAUSE 0 1 2 3 [65]" board 100000 "\<lambda>_. 0xdeadbeef"] board_frame
  by (auto simp: USART_IN_MCAUSE_def ECALL_IN_MCAUSE_def)

theorem ecall_plain_result_witness:
  "\<exists>e d. universal_handler board 100000 (\<lambda>_. 0) (caller ECALL_IN_MCAUSE 1026 1 2 3 []) = Done () e
    \<and> gpr e 10 = -1 \<and> gpr e 11 = 2 \<and> errno_var e = Some ENOENT
    \<and> universal_handler board 100000 (\<lambda>_. 0) (caller ECALL_IN_MCAUSE 5 1 2 3 []) = Done () d
    \<and> gpr d 10 = -1 \<and> gpr d 11 = 2 \<and> errno_var d = Some ENOSYS"
proof -
  have "newlib_nr s \<noteq> 5" for s by (cases s) simp_all
  then have s: "5 \<notin> range newlib_nr" by (metis rangeE)
  obtain e where e: "universal_handler board 100000 (\<lambda>_. 0) (caller ECALL_IN_MCAUSE 1026 1 2 3 []) = Done () e"
      "gpr e 10 = -1" "gpr e 11 = 2" "errno_var e = Some ENOENT"
    using ecall_plain_result [of "caller ECALL_IN_MCAUSE 1026 1 2 3 []" board "-1" "Some ENOENT" 100000 "\<lambda>_. 0"]
      board_frame newlib_nr_inj exI [of "\<lambda>s. 1026 = newlib_nr s \<and> plain_call s = Some (-1, Some ENOENT)" SYS_unlink]
    by (auto simp: returns_def after_errno_def)
  obtain d where "universal_handler board 100000 (\<lambda>_. 0) (caller ECALL_IN_MCAUSE 5 1 2 3 []) = Done () d"
      "gpr d 10 = -1" "gpr d 11 = 2" "errno_var d = Some ENOSYS"
    using ecall_plain_result [of "caller ECALL_IN_MCAUSE 5 1 2 3 []" board "-1" "Some ENOSYS" 100000 "\<lambda>_. 0"]
      board_frame newlib_nr_inj s by (auto simp: returns_def after_errno_def)
  with e show ?thesis by blast
qed

theorem ecall_brk_witness:
  "\<exists>e. universal_handler board 100000 (\<lambda>_. 0) (caller ECALL_IN_MCAUSE 214 0x20003c00 2 3 []) = Done () e
    \<and> gpr e 10 = -1 \<and> errno_var e = Some ENOMEM"
  using ecall_brk [of "caller ECALL_IN_MCAUSE 214 0x20003c00 2 3 []" board 100000 "\<lambda>_. 0"] board_frame
  by (auto simp: returns_def)

theorem ecall_write_witness:
  "\<exists>e. universal_handler board 100000 (\<lambda>_. 0) (caller ECALL_IN_MCAUSE 64 1 0x20001000 2 []) = Done () e
    \<and> gpr e 10 = 2 \<and> line_out (dev e) = [0, 0]"
proof -
  have b: "list_all (\<lambda>i. region (0x20001000 + of_nat i) \<noteq> 15 \<and> \<not> in_frame 0x20003f00 (0x20001000 + of_nat i)) [0..<2]"
    by code_simp
  from ecall_write [of "caller ECALL_IN_MCAUSE 64 1 0x20001000 2 []" board 100000 "\<lambda>_. 0"] board_frame newlib_nr_inj b
  show ?thesis by (auto simp: returns_def numeral_2_eq_2)
qed

theorem ecall_read_witness:
  "\<exists>e. universal_handler board 100000 (\<lambda>_. 0) (caller ECALL_IN_MCAUSE 63 0 0x20001000 2 [72, 105, 33]) = Done () e
    \<and> gpr e 10 = 2 \<and> pending (dev e) = [33] \<and> mem (dev e) 0x20001001 = 105"
proof -
  have b: "list_all (\<lambda>i. region (0x20001000 + of_nat i) = 2 \<and> \<not> in_frame 0x20003f00 (0x20001000 + of_nat i))
      [0..<length [72, 105 :: u8]]"
    by code_simp
  have o: "\<not> in_frame 0x20003f00 0x20001001" by code_simp
  from ecall_read [of "caller ECALL_IN_MCAUSE 63 0 0x20001000 2 [72, 105, 33]" board "[72, 105]" "[33]" 100000 "\<lambda>_. 0"]
    board_frame newlib_nr_inj b o
  show ?thesis by (auto simp: returns_def)
qed

theorem ecall_gettimeofday_witness:
  "\<exists>e. universal_handler board 100000 (\<lambda>_. 0) (caller ECALL_IN_MCAUSE 169 0x20001000 0 3 []) = Done () e
    \<and> gpr e 10 = 0 \<and> errno_var e = None \<and> mem_word (mem (dev e)) 0x20001008 = 1 \<and> ticks (dev e) = 3"
proof -
  let ?c = "caller ECALL_IN_MCAUSE 169 0x20001000 0 3 []"
  have "list_all (\<lambda>k. 0x20003f00 \<le> (0x20003f00 :: u32) + of_nat k) [0..<128]" by code_simp
  then have high: "0x20003f00 \<le> x" if "in_frame 0x20003f00 x" for x
    using that by (auto simp: in_frame_def list_all_iff list_ex_iff)
  have keep: "put_timeval board 0x20001000 s u f x = f x" if "in_frame 0x20003f00 x" for s u f x
    using high [OF that] by (auto simp: board_def set_word_def)
  have k: "read_tick (dev ?c) = 1" "clock_after 1 (dev ?c) = 1" "ticks (dev ?c) = 0" "(1 :: nat) + 2 = 3"
    by (simp_all add: read_tick_def clock_after_def tick_clock caller_def power_on_def hi32_def drop_bit_eq_div)
  have put: "mem_word (put_timeval board a s u f) (a + 8) = u" for a s u f
    by (simp add: board_def mem_word_set_word)
  obtain e where e: "universal_handler board 100000 (\<lambda>_. 0) ?c = Done () e" "returns ?c 0 e" "errno_var e = None"
      "dev e = ((tick ^^ 3) (dev ?c))\<lparr>mem := put_timeval board 0x20001000 0 1 (mem (dev (saved ?c)))\<rparr>"
    using ecall_gettimeofday [of ?c board 100000 "\<lambda>_. 0"] board_frame newlib_nr_inj keep
    unfolding k(1) Let_def k(2) k(4) by auto
  then show ?thesis
    using put [of "0x20001000"] k(3) by (auto simp: returns_def numeral_eq_Suc tick_clock)
qed

end
