(* ===== verification/Oblivious.thy ===== *)
theory Oblivious
  imports TrapProof
begin

text \<open>
  Code that works on devices only: it looks neither at memory nor at \<open>mcause\<close>. Such code does
  the same whether the trap handler has stored a frame below the stack pointer or not. The driver,
  the clock, the debugger stub and the interrupt handlers are of this kind.
\<close>

section \<open>Other memory, other cause\<close>

definition remap :: "(u32 \<Rightarrow> u8) \<Rightarrow> u32 \<Rightarrow> machine \<Rightarrow> machine" where
  "remap f x m = m\<lparr>mem := f, mcause := x\<rparr>"

lemma remap_fields [simp]:
  "mem (remap f x m) = f" "mcause (remap f x m) = x" "pouta (remap f x m) = pouta m"
  "ustat (remap f x m) = ustat m" "mtime (remap f x m) = mtime m" "mstatus (remap f x m) = mstatus m"
  "mie (remap f x m) = mie m" "t1ctrl (remap f x m) = t1ctrl m" "t1stat (remap f x m) = t1stat m"
  "brisk (remap f x m) \<longleftrightarrow> brisk m" "remap f x (remap g y m) = remap f x m"
  by (simp_all add: remap_def brisk_def)

lemma remap_same [simp]: "remap (mem m) (mcause m) m = m"
  by (simp add: remap_def)

lemma remap_mem: "m\<lparr>mem := f\<rparr> = remap f (mcause m) m"
  by (simp add: remap_def)

lemma remap_irq [simp]:
  "irq_timer (remap f x m) \<longleftrightarrow> irq_timer m" "irq_timer1 (remap f x m) \<longleftrightarrow> irq_timer1 m"
  "irq_usart (remap f x m) \<longleftrightarrow> irq_usart m" "mip (remap f x m) = mip m"
  by (simp_all add: remap_def irq_timer_def irq_timer1_def irq_usart_def mip_def)

lemma tick_remap [simp]: "tick (remap f x m) = remap f x (tick m)"
  by (simp add: remap_def tick_def tick_tx_def tick_rx_def tick_time_def
      split: option.splits nat.splits list.splits prod.splits)

lemma io_value_remap [simp]: "io_value r (remap f x m) = io_value r m"
  by (cases r) (simp_all add: remap_def)

lemma io_read_remap [simp]: "io_read r (remap f x m) = (fst (io_read r m), remap f x (snd (io_read r m)))"
proof -
  have "(remap f x m)\<lparr>ustat := v\<rparr> = remap f x (m\<lparr>ustat := v\<rparr>)" for v by (simp add: remap_def)
  then show ?thesis by (simp add: io_read_def)
qed

lemma io_write_remap [simp]: "io_write r v (remap f x m) = remap f x (io_write r v m)"
  by (cases r) (simp_all add: remap_def)

section \<open>Device code\<close>

definition oblivious :: "(machine \<Rightarrow> (machine, 'a) outcome) \<Rightarrow> bool" where
  "oblivious g \<longleftrightarrow> (\<forall>m f x a n. g m = Done a n \<longrightarrow> g (remap f x m) = Done a (remap f x n))"

named_theorems device_code

lemma oblivious_run: "oblivious g \<Longrightarrow> g m = Done a n \<Longrightarrow> g (remap f x m) = Done a (remap f x n)"
  unfolding oblivious_def by blast

text \<open>Code that does not look at memory does not change it either.\<close>

lemma oblivious_keeps: "oblivious g \<Longrightarrow> g m = Done a n \<Longrightarrow> mem n = mem m \<and> mcause n = mcause m"
proof -
  assume "oblivious g" "g m = Done a n"
  from oblivious_run [OF this, of "mem m" "mcause m"] have n: "n = remap (mem m) (mcause m) n"
    using \<open>g m = _\<close> by simp
  show ?thesis using arg_cong [OF n, of mem] arg_cong [OF n, of mcause] by simp
qed

lemma oblivious_Done [device_code]: "oblivious (Done a)"
  by (simp add: oblivious_def)

lemma oblivious_andthen [device_code]:
  "oblivious g \<Longrightarrow> (\<And>a. oblivious (h a)) \<Longrightarrow> oblivious (\<lambda>m. andthen (g m) h)"
  unfolding oblivious_def by (auto simp: andthen_Done_iff)

lemma oblivious_if [device_code]:
  "(b \<Longrightarrow> oblivious g) \<Longrightarrow> (\<not> b \<Longrightarrow> oblivious h) \<Longrightarrow> oblivious (\<lambda>m. if b then g m else h m)"
  by (cases b) simp_all

lemma oblivious_Fault [device_code]: "oblivious (Fault e)"
  by (simp add: oblivious_def)

lemma wait_stat_remap: "wait_stat flag m = Some n \<Longrightarrow> wait_stat flag (remap f x m) = Some (remap f x n)"
proof (rule wait_stat.raw_induct [where P = "\<lambda>flag m n. wait_stat flag (remap f x m) = Some (remap f x n)"])
  fix g flag m n
  assume IH: "\<And>flag m n. g flag m = Some n \<Longrightarrow> wait_stat flag (remap f x m) = Some (remap f x n)"
    and eq: "(case io_read USTAT m of (v, m') \<Rightarrow> if v AND flag = 0 then g flag m' else Some m') = Some n"
  show "wait_stat flag (remap f x m) = Some (remap f x n)"
    using eq IH [of flag "snd (io_read USTAT m)" n]
    by (subst wait_stat.simps) (auto simp: split_beta split: if_splits)
qed

lemma putc_oblivious [device_code]: "oblivious (usart_putc ch)"
  unfolding oblivious_def usart_putc_def Let_def
  by (auto simp: wait_stat_remap simp del: io_write.simps split: option.splits)

lemma puts_by_oblivious: "oblivious (puts_by usart_putc cs)"
proof (induction cs)
  case (Cons c cs)
  then show ?case by (simp add: device_code)
qed (simp add: device_code)

lemma puts_oblivious [device_code]: "oblivious (usart_puts s)"
  by (cases s) (simp_all add: usart_puts_def [abs_def] puts_by_oblivious oblivious_Done)

lemma debug_bits_oblivious [device_code]: "oblivious (debug_bits msk ip)"
proof (induction "unat msk" arbitrary: msk rule: less_induct)
  case less
  show ?case
  proof (cases "msk = 0")
    case True
    then show ?thesis by (simp add: debug_bits.simps [abs_def] device_code)
  next
    case False
    then have "unat (drop_bit 1 msk) < unat msk" by (simp add: drop_bit_eq_div unat_div unat_gt_0)
    then show ?thesis using less False by (subst debug_bits.simps [abs_def]) (simp add: device_code)
  qed
qed

lemma debugger_oblivious [device_code]: "oblivious debugger"
proof -
  have "oblivious (\<lambda>m. andthen (debug_bits 0x80000000 (mip m) m) (\<lambda>_. puts [CR, LF]))"
    unfolding oblivious_def
  proof (intro allI impI)
    fix m f x a n
    assume "andthen (debug_bits 0x80000000 (mip m) m) (\<lambda>_. puts [CR, LF]) = Done a n"
    with oblivious_run [OF oblivious_andthen [OF debug_bits_oblivious puts_oblivious], of "0x80000000" "mip m"]
    show "andthen (debug_bits 0x80000000 (mip (remap f x m)) (remap f x m)) (\<lambda>_. puts [CR, LF]) = Done a (remap f x n)"
      by simp
  qed
  then show ?thesis
    unfolding debugger_def [abs_def] by (rule oblivious_andthen [OF puts_oblivious])
qed

section \<open>The clock and the handlers\<close>

lemma read_time_remap:
  "read_time m = Some r \<Longrightarrow> read_time (remap f x m) = Some (fst r, fst (snd r), remap f x (snd (snd r)))"
proof (rule read_time.raw_induct [where P = "\<lambda>m r. read_time (remap f x m)
    = Some (fst r, fst (snd r), remap f x (snd (snd r)))"])
  fix g m r
  assume IH: "\<And>m r. g m = Some r \<Longrightarrow> read_time (remap f x m) = Some (fst r, fst (snd r), remap f x (snd (snd r)))"
    and eq: "(case io_read TIMEH m of (hi, m) \<Rightarrow> case io_read TIMEL m of (lo, m) \<Rightarrow>
      case io_read TIMEH m of (hi', m) \<Rightarrow> if hi \<noteq> hi' then g m else Some (hi, lo, m)) = Some r"
  show "read_time (remap f x m) = Some (fst r, fst (snd r), remap f x (snd (snd r)))"
    using eq IH [of "tick (tick (tick m))" r]
    by (auto simp: read_time_unfold [of "remap f x m"] io_read_time split: if_splits)
qed

lemma timecmp_remap: "last (timecmp_steps t (remap f x m)) = remap f x (last (timecmp_steps t m))"
  by (simp add: timecmp_steps_def Let_def del: io_write.simps)

lemma timer_entry_oblivious [device_code]: "oblivious (timer_entry delta)"
  unfolding oblivious_def
proof (intro allI impI)
  fix m f x a n
  assume e: "timer_entry delta m = Done a n"
  then obtain hi lo k where r: "read_time m = Some (hi, lo, k)"
    by (cases "read_time m") (auto simp: timer_entry_def external_timer_handler_def)
  show "timer_entry delta (remap f x m) = Done a (remap f x n)"
    using e r read_time_remap [OF r, of f x]
    by (auto simp: timer_entry_def external_timer_handler_def Let_def timecmp_remap split_beta
        simp del: io_write.simps)
qed

lemma usart_handler_remap [simp]: "usart_handler (remap f x m) = remap f x (usart_handler m)"
  by (simp add: usart_handler_def split_beta del: io_write.simps)

lemma timer1_handler_remap [simp]: "timer1_cmpt_handler (remap f x m) = remap f x (timer1_cmpt_handler m)"
  by (simp add: timer1_cmpt_handler_def split_beta del: io_write.simps)

section \<open>Serving a trap\<close>

text \<open>What the dispatch does to the devices when the cause is not ECALL.\<close>

definition serve :: "u64 \<Rightarrow> u32 \<Rightarrow> machine \<Rightarrow> (machine, unit) outcome" where
  "serve delta cause m =
     (if cause = SYSTEM_TIMER_IN_MCAUSE then timer_entry delta m
      else if cause = USART_IN_MCAUSE then Done () (usart_handler m)
      else if cause = TIMER1_CMPT_IN_MCAUSE then Done () (timer1_cmpt_handler m)
      else if cause = EBREAK_IN_MCAUSE then debugger m
      else Done () m)"

lemma causes_differ:
  "USART_IN_MCAUSE \<noteq> SYSTEM_TIMER_IN_MCAUSE" "TIMER1_CMPT_IN_MCAUSE \<noteq> SYSTEM_TIMER_IN_MCAUSE"
  "TIMER1_CMPT_IN_MCAUSE \<noteq> USART_IN_MCAUSE" "EBREAK_IN_MCAUSE \<noteq> SYSTEM_TIMER_IN_MCAUSE"
  "EBREAK_IN_MCAUSE \<noteq> USART_IN_MCAUSE" "EBREAK_IN_MCAUSE \<noteq> TIMER1_CMPT_IN_MCAUSE"
  "EBREAK_IN_MCAUSE \<noteq> ECALL_IN_MCAUSE" "ECALL_IN_MCAUSE \<noteq> SYSTEM_TIMER_IN_MCAUSE"
  "ECALL_IN_MCAUSE \<noteq> USART_IN_MCAUSE" "ECALL_IN_MCAUSE \<noteq> TIMER1_CMPT_IN_MCAUSE"
  by (simp_all add: USART_IN_MCAUSE_def TIMER1_CMPT_IN_MCAUSE_def SYSTEM_TIMER_IN_MCAUSE_def
      EBREAK_IN_MCAUSE_def ECALL_IN_MCAUSE_def)

lemma dispatch_serve:
  "mcause (dev c) \<noteq> ECALL_IN_MCAUSE \<Longrightarrow> serve delta (mcause (dev c)) (dev c) = Done () n
    \<Longrightarrow> dispatch E delta c = Done None (c\<lparr>dev := n\<rparr>)"
  by (auto simp: dispatch_def serve_def Let_def on_dev_eq split: if_splits)

lemma serve_oblivious [device_code]: "oblivious (serve delta cause)"
proof -
  have "oblivious (\<lambda>m. Done () (usart_handler m))" "oblivious (\<lambda>m. Done () (timer1_cmpt_handler m))"
    by (simp_all add: oblivious_def)
  then show ?thesis unfolding serve_def [abs_def] by (intro device_code)
qed

lemma serve_returns: "brisk m \<Longrightarrow> \<exists>n. serve delta cause m = Done () n"
  using timer_entry_mem [of m delta] debugger_mem [of m] by (auto simp: serve_def)

lemmas serve_keeps = oblivious_keeps [OF serve_oblivious]

text \<open>The program sees the devices served, its own memory and its registers.\<close>

definition served :: "cpu \<Rightarrow> machine \<Rightarrow> cpu \<Rightarrow> bool" where
  "served c n e \<longleftrightarrow> (\<forall>r < 32. gpr e r = gpr c r) \<and> errno_var e = errno_var c
     \<and> (\<exists>f. dev e = remap f (mcause n) n \<and> (\<forall>x. \<not> in_frame (frame_of c) x \<longrightarrow> f x = mem n x))"

lemma saved_dev: "dev (saved c) = remap (mem (dev (saved c))) (mcause (dev c)) (dev c)"
  by (simp add: remap_def saved_def set_reg_def)

lemma universal_handler_serves:
  assumes f: "frame_ok (frame_of c)" and e: "mcause (dev c) \<noteq> ECALL_IN_MCAUSE"
    and s: "serve delta (mcause (dev c)) (dev c) = Done () n"
  shows "\<exists>e. universal_handler E delta junk c = Done () e \<and> served c n e"
proof -
  let ?f = "mem (dev (saved c))" and ?x = "mcause (dev c)"
  have n: "mem n = mem (dev c)" "mcause n = ?x" using serve_keeps [OF s] by simp_all
  have "serve delta ?x (dev (saved c)) = Done () (remap ?f ?x n)"
    using oblivious_run [OF serve_oblivious s, of ?f ?x] saved_dev [of c] by simp
  then have d: "dispatch E delta (saved c) = Done None ((saved c)\<lparr>dev := remap ?f ?x n\<rparr>)"
    using dispatch_serve [of "saved c"] e by simp
  have "keeps_frame (frame_of c) (dev (saved c)) (dev ((saved c)\<lparr>dev := remap ?f ?x n\<rparr>))"
    by (simp add: keeps_frame_same)
  from universal_handler_context [OF f d this, of junk] obtain e where e:
    "universal_handler E delta junk c = Done () e" "dev e = remap ?f ?x n" "errno_var e = errno_var c"
    "\<forall>r < 32. gpr e r = gpr c r"
    by auto
  moreover have "\<forall>x. \<not> in_frame (frame_of c) x \<longrightarrow> ?f x = mem n x" using saved_outside [of c] n by simp
  ultimately show ?thesis unfolding served_def n(2) by blast
qed

end
