(* ===== verification/Vectored.thy ===== *)
theory Vectored
  imports Oblivious
begin

text \<open>
  The vectored variant, \<open>CODE/interrupt_vectored/universal_handler.c\<close>: a table of jumps the
  processor enters at the number of the interrupt, and the universal handler for the synchronous
  traps only. The two variants treat the program they interrupt alike and differ in the
  interval of the timer interrupt.
\<close>

section \<open>Definitions\<close>

datatype target =
    Universal_Handler | Default_Handler | External_Timer_Handler | Timer1_Cmpt_Handler | Usart_Handler

definition handler_jump_table :: "target list" where
  "handler_jump_table =
     [Universal_Handler, Default_Handler, Default_Handler, Default_Handler,
      Default_Handler, Default_Handler, Default_Handler, External_Timer_Handler,
      Default_Handler, Default_Handler, Default_Handler, Default_Handler,
      Default_Handler, Default_Handler, Default_Handler, Default_Handler,
      Default_Handler, Timer1_Cmpt_Handler, Usart_Handler, Default_Handler,
      Default_Handler, Default_Handler, Default_Handler, Default_Handler,
      Default_Handler, Default_Handler, Default_Handler, Default_Handler,
      Default_Handler, Default_Handler, Default_Handler, Default_Handler]"

text \<open>The chain of system calls of this variant.\<close>

definition v_ecall :: "sysenv \<Rightarrow> cpu \<Rightarrow> (cpu, u32) outcome" where
  "v_ecall E c = (let syscall_id = gpr c 17 in
     if syscall_id = nr E SYS_brk then sys_brk E c
     else if syscall_id = nr E SYS_read then sys_read E c
     else if syscall_id = nr E SYS_write then sys_write E c
     else if syscall_id = nr E SYS_gettimeofday then sys_gettimeofday E c
     else if syscall_id = nr E SYS_exit then Done 0 c
     else if syscall_id = nr E SYS_open then fail EBADF c
     else if syscall_id = nr E SYS_close then fail EBADF c
     else if syscall_id = nr E SYS_fstat then sys_stat E c
     else if syscall_id = nr E SYS_stat then sys_stat E c
     else if syscall_id = nr E SYS_fstatat then sys_stat E c
     else if syscall_id = nr E SYS_lstat then sys_stat E c
     else if syscall_id = nr E SYS_unlink then fail ENOENT c
     else if syscall_id = nr E SYS_lseek then Done 0 c
     else if syscall_id = nr E SYS_link then fail EMLINK c
     else if syscall_id = nr E SYS_access then fail EACCES c
     else fail ENOSYS c)"

definition v_dispatch :: "sysenv \<Rightarrow> cpu \<Rightarrow> (cpu, u32 option) outcome" where
  "v_dispatch E c = (let cause = mcause (dev c) in
     if cause = ECALL_IN_MCAUSE then andthen (v_ecall E c) (\<lambda>v c. Done (Some v) c)
     else if cause = EBREAK_IN_MCAUSE then andthen (on_dev debugger c) (\<lambda>_ c. Done None c)
     else Done None c)"

definition v_restore_context :: "cpu \<Rightarrow> (cpu, unit) outcome" where
  "v_restore_context c = andthen (load_regs (rev [11..<32] @ rev [1..<10]) c)
     (\<lambda>_ c. Done () (set_reg 2 (gpr c 2 + 32 * 4) c))"

definition v_universal_handler :: "sysenv \<Rightarrow> (nat \<Rightarrow> u32) \<Rightarrow> cpu \<Rightarrow> (cpu, unit) outcome" where
  "v_universal_handler E junk c =
     andthen (save_context c) (\<lambda>_ c.
     andthen (v_dispatch E c) (\<lambda>rv c.
     andthen (deliver rv (clobber junk c)) (\<lambda>_ c. v_restore_context c)))"

text \<open>Where the processor enters in vectored mode: slot \<open>cause\<close> for an interrupt, slot 0 for
  an exception. The handlers in the other slots have the attribute \<open>interrupt\<close>: the compiler
  makes them keep every register.\<close>

definition vector_slot :: "u32 \<Rightarrow> nat" where
  "vector_slot cause = (if bit cause 31 then unat (take_bit 31 cause) else 0)"

fun run_target :: "sysenv \<Rightarrow> u64 \<Rightarrow> (nat \<Rightarrow> u32) \<Rightarrow> target \<Rightarrow> cpu \<Rightarrow> (cpu, unit) outcome" where
  "run_target E delta junk Universal_Handler c = v_universal_handler E junk c"
| "run_target E delta junk Default_Handler c = on_dev default_handler c"
| "run_target E delta junk External_Timer_Handler c = on_dev (timer_entry delta) c"
| "run_target E delta junk Timer1_Cmpt_Handler c = Done () (c\<lparr>dev := timer1_cmpt_handler (dev c)\<rparr>)"
| "run_target E delta junk Usart_Handler c = Done () (c\<lparr>dev := usart_handler (dev c)\<rparr>)"

definition vectored_trap :: "sysenv \<Rightarrow> u64 \<Rightarrow> (nat \<Rightarrow> u32) \<Rightarrow> cpu \<Rightarrow> (cpu, unit) outcome" where
  "vectored_trap E delta junk c = run_target E delta junk (handler_jump_table ! vector_slot (mcause (dev c))) c"

section \<open>Both variants agree\<close>

definition interrupts :: "u32 list" where
  "interrupts = [SYSTEM_TIMER_IN_MCAUSE, USART_IN_MCAUSE, TIMER1_CMPT_IN_MCAUSE]"

lemma v_ecall_ecall: "v_ecall = ecall"
  by (intro ext) (simp add: v_ecall_def ecall_def)

lemma v_restore_restore: "v_restore_context = restore_context"
  by (intro ext) (simp add: v_restore_context_def restore_context_def)

lemma v_dispatch_exception:
  assumes "mcause (dev c) \<notin> set interrupts"
  shows "v_dispatch E c = dispatch E delta c"
  using assms unfolding v_dispatch_def v_ecall_ecall by (simp add: dispatch_def interrupts_def)

lemma v_universal_exception:
  assumes "frame_ok (frame_of c)" and "mcause (dev c) \<notin> set interrupts"
  shows "v_universal_handler E junk c = universal_handler E delta junk c"
  using save_context_saved [OF assms(1)] v_dispatch_exception [of "saved c" E delta] assms(2)
  unfolding v_universal_handler_def v_restore_restore by (simp add: universal_handler_def)

lemma table_slots:
  "handler_jump_table ! vector_slot SYSTEM_TIMER_IN_MCAUSE = External_Timer_Handler"
  "handler_jump_table ! vector_slot USART_IN_MCAUSE = Usart_Handler"
  "handler_jump_table ! vector_slot TIMER1_CMPT_IN_MCAUSE = Timer1_Cmpt_Handler"
  by code_simp+

lemma vectored_interrupt:
  "mcause (dev c) \<in> set interrupts \<Longrightarrow> serve delta (mcause (dev c)) (dev c) = Done () n
    \<Longrightarrow> vectored_trap E delta junk c = Done () (c\<lparr>dev := n\<rparr>)"
  by (auto simp: interrupts_def vectored_trap_def table_slots serve_def causes_differ on_dev_eq)

lemma interrupts_no_ecall: "cause \<in> set interrupts \<Longrightarrow> cause \<noteq> ECALL_IN_MCAUSE"
  using causes_differ by (auto simp: interrupts_def)

text \<open>The interval of the timer handler goes into the compare register and nowhere else.\<close>

lemma serve_interval:
  assumes "brisk m"
  shows "\<exists>n p. serve d cause m = Done () n \<and> serve d' cause m = Done () p
    \<and> n = p\<lparr>mtimecmp := mtimecmp n\<rparr>
    \<and> (if cause = SYSTEM_TIMER_IN_MCAUSE
       then mtimecmp n = clock_after (read_tick m) m + d \<and> mtimecmp p = clock_after (read_tick m) m + d'
       else mtimecmp n = mtimecmp p)"
proof (cases "cause = SYSTEM_TIMER_IN_MCAUSE")
  case True
  then show ?thesis
    using timer_handler_exact [OF assms, of d] timer_handler_exact [OF assms, of d']
    by (simp add: serve_def timer_entry_def del: funpow.simps)
next
  case False
  obtain n where "serve d cause m = Done () n" using serve_returns [OF assms] by blast
  moreover have "serve d' cause m = serve d cause m" using False by (simp add: serve_def)
  ultimately show ?thesis using False by simp
qed

text \<open>C9: For the three interrupts in use, jump table and handlers of the vectored variant and the
  universal handler of the direct variant, each with the timer interval of its own file,
  have the same effect on registers, errno, devices and the memory outside the handler's
  frame, but for the compare register: the timer interrupt sets it to the same reading of
  the clock plus 100000 microseconds (10 Hz) in the direct variant and plus 1000 (1000 Hz)
  in the vectored one.\<close>

theorem vectored_agrees_with_direct:
  assumes "frame_ok (frame_of c)" and "mcause (dev c) \<in> set interrupts" and "brisk (dev c)"
  shows "\<exists>e v. universal_handler E external_timer_delta_direct junk c = Done () e
    \<and> vectored_trap E external_timer_delta_vectored junk' c = Done () v
    \<and> (\<forall>r < 32. gpr e r = gpr c r \<and> gpr v r = gpr c r) \<and> errno_var e = errno_var c \<and> errno_var v = errno_var c
    \<and> dev e = (dev v)\<lparr>mem := mem (dev e), mtimecmp := mtimecmp (dev e)\<rparr>
    \<and> (let t = clock_after (read_tick (dev c)) (dev c) in
       if mcause (dev c) = SYSTEM_TIMER_IN_MCAUSE
       then mtimecmp (dev e) = t + 100000 \<and> mtimecmp (dev v) = t + 1000
       else mtimecmp (dev e) = mtimecmp (dev v))
    \<and> (\<forall>x. \<not> in_frame (frame_of c) x \<longrightarrow> mem (dev e) x = mem (dev c) x) \<and> mem (dev v) = mem (dev c)"
proof -
  obtain n p where n: "serve external_timer_delta_direct (mcause (dev c)) (dev c) = Done () n"
    "serve external_timer_delta_vectored (mcause (dev c)) (dev c) = Done () p" "n = p\<lparr>mtimecmp := mtimecmp n\<rparr>"
    and t: "if mcause (dev c) = SYSTEM_TIMER_IN_MCAUSE
       then mtimecmp n = clock_after (read_tick (dev c)) (dev c) + external_timer_delta_direct
         \<and> mtimecmp p = clock_after (read_tick (dev c)) (dev c) + external_timer_delta_vectored
       else mtimecmp n = mtimecmp p"
    using serve_interval [OF assms(3), of external_timer_delta_direct "mcause (dev c)" external_timer_delta_vectored] by blast
  obtain e where e: "universal_handler E external_timer_delta_direct junk c = Done () e" "served c n e"
    using universal_handler_serves [OF assms(1) interrupts_no_ecall [OF assms(2)] n(1)] by blast
  obtain f where f: "dev e = remap f (mcause n) n" "\<forall>x. \<not> in_frame (frame_of c) x \<longrightarrow> f x = mem n x"
    using e(2) unfolding served_def by blast
  let ?v = "c\<lparr>dev := p\<rparr>"
  have v: "vectored_trap E external_timer_delta_vectored junk' c = Done () ?v"
    by (rule vectored_interrupt [OF assms(2) n(2)])
  have m: "mem n = mem (dev c)" "mem p = mem (dev c)" using serve_keeps [OF n(1)] serve_keeps [OF n(2)] by simp_all
  have cmp: "mtimecmp (dev e) = mtimecmp n" using f(1) by (simp add: remap_def)
  have "dev e = n\<lparr>mem := mem (dev e)\<rparr>" using f(1) by (simp add: remap_def)
  also have "\<dots> = p\<lparr>mem := mem (dev e), mtimecmp := mtimecmp (dev e)\<rparr>" by (subst n(3)) (simp add: cmp)
  finally have d: "dev e = (dev ?v)\<lparr>mem := mem (dev e), mtimecmp := mtimecmp (dev e)\<rparr>" by simp
  have "\<forall>x. \<not> in_frame (frame_of c) x \<longrightarrow> mem (dev e) x = mem (dev c) x" using f m(1) by simp
  moreover have "(\<forall>r < 32. gpr e r = gpr c r) \<and> errno_var e = errno_var c" using e(2) by (simp add: served_def)
  ultimately show ?thesis
    using t m(2) by (intro exI [of _ e] exI [of _ ?v] conjI e(1) v d) (simp_all add: cmp timer_deltas Let_def)
qed

theorem vectored_agrees_with_direct_witness:
  "\<exists>e v. universal_handler board external_timer_delta_direct (\<lambda>_. 7) (caller SYSTEM_TIMER_IN_MCAUSE 0 1 2 3 []) = Done () e
    \<and> vectored_trap board external_timer_delta_vectored (\<lambda>_. 8) (caller SYSTEM_TIMER_IN_MCAUSE 0 1 2 3 []) = Done () v
    \<and> (\<forall>r < 32. gpr e r = gpr v r) \<and> mtimecmp (dev e) = 100001 \<and> mtimecmp (dev v) = 1001"
proof -
  let ?c = "caller SYSTEM_TIMER_IN_MCAUSE 0 1 2 3 []"
  have k: "read_tick (dev ?c) = 1" "clock_after 1 (dev ?c) = 1"
    by (simp_all add: read_tick_def clock_after_def tick_clock caller_def power_on_def hi32_def drop_bit_eq_div)
  show ?thesis
    using vectored_agrees_with_direct [of ?c board "\<lambda>_. 7" "\<lambda>_. 8"] board_frame
    unfolding k(1) Let_def k(2) by (auto simp: interrupts_def)
qed

text \<open>Exceptions take the same path in both.\<close>

lemma vectored_exceptions:
  assumes "frame_ok (frame_of c)" and "\<not> bit (mcause (dev c)) 31"
  shows "vectored_trap E delta junk c = universal_handler E delta junk c"
proof -
  have "handler_jump_table ! 0 = Universal_Handler" by (simp add: handler_jump_table_def)
  moreover have "mcause (dev c) \<notin> set interrupts"
    using assms(2) by (auto simp: interrupts_def SYSTEM_TIMER_IN_MCAUSE_def USART_IN_MCAUSE_def TIMER1_CMPT_IN_MCAUSE_def bit_simps)
  ultimately show ?thesis
    using v_universal_exception [OF assms(1)] assms(2) by (simp add: vectored_trap_def vector_slot_def)
qed

end
