(* ===== verification/Startup.thy ===== *)
theory Startup
  imports TrapProof BootMain
begin

text \<open>
  What runs before \<open>main\<close>: \<open>CODE/crt/startup.c\<close> (the same file in every program), the one of the
  boot loader and the one of the interrupt programs. They set the stack and global pointers,
  clear \<open>.bss\<close>, copy the initialised data from ROM and call \<open>main\<close>. The symbols of the linker
  script are the record \<open>layout\<close>; \<open>__libc_init_array\<close> and \<open>main\<close> are parameters.
\<close>

section \<open>Definitions\<close>

record layout =
  sbss :: u32
  ebss :: u32
  sdata :: u32
  edata :: u32
  start_of_rom_to_copy :: u32
  global_pointer :: u32
  stack_pointer :: u32

lemma pointer_step: "p < q \<Longrightarrow> unat (p + 1) = Suc (unat p)" for p q :: u32
proof -
  assume "p < q"
  then have "unat p < unat q" by (simp add: word_less_nat_alt)
  moreover have "unat q < 2 ^ 32" using unsigned_less [of q] by simp
  ultimately show ?thesis by (simp add: unat_word_ariths)
qed

lemma pointer_less: "p < q \<Longrightarrow> unat q - unat (p + 1) < unat q - unat (p :: u32)"
  using pointer_step [of p q] by (simp add: word_less_nat_alt)

function zero_bss :: "u32 \<Rightarrow> u32 \<Rightarrow> machine \<Rightarrow> (machine, unit) outcome" where
  "zero_bss pStart pEnd m =
     (if pStart < pEnd then andthen (store8 pStart 0 m) (\<lambda>_ m. zero_bss (pStart + 1) pEnd m)
      else Done () m)"
  by pat_completeness auto
termination
  by (relation "measure (\<lambda>(p, q, m). unat q - unat p)") (auto intro: pointer_less)

function copy_data :: "u32 \<Rightarrow> u32 \<Rightarrow> u32 \<Rightarrow> machine \<Rightarrow> (machine, unit) outcome" where
  "copy_data pStart pEnd pdRom m =
     (if pStart < pEnd then
        andthen (load8 pdRom m) (\<lambda>b m.
        andthen (store8 pStart b m) (\<lambda>_ m. copy_data (pStart + 1) pEnd (pdRom + 1) m))
      else Done () m)"
  by pat_completeness auto
termination
  by (relation "measure (\<lambda>(p, q, r, m). unat q - unat p)") (auto intro: pointer_less)

declare zero_bss.simps [simp del] copy_data.simps [simp del]

definition init_ram :: "layout \<Rightarrow> machine \<Rightarrow> (machine, unit) outcome" where
  "init_ram L m = andthen (zero_bss (sbss L) (ebss L) m) (\<lambda>_ m.
     copy_data (sdata L) (edata L) (start_of_rom_to_copy L) m)"

definition set_pointers :: "layout \<Rightarrow> cpu \<Rightarrow> cpu" where
  "set_pointers L c = set_reg 2 (stack_pointer L) (set_reg 3 (global_pointer L) c)"

text \<open>A loop without end.\<close>

definition hold :: "cpu \<Rightarrow> (cpu, 'a) outcome" where
  "hold c = Stuck c"

definition crt_start :: "layout \<Rightarrow> (cpu \<Rightarrow> (cpu, unit) outcome) \<Rightarrow> (cpu \<Rightarrow> (cpu, u32) outcome)
    \<Rightarrow> cpu \<Rightarrow> (cpu, unit) outcome" where
  "crt_start L libc_init main c =
     andthen (on_dev (init_ram L) (set_pointers L c)) (\<lambda>_ c.
     andthen (libc_init c) (\<lambda>_ c.
     andthen (main c) (\<lambda>status c. hold c)))"

text \<open>\<open>pre_init\<close> is the address of \<open>pre_init_universal_handler\<close>, which holds the processor.\<close>

definition pre_init_universal_handler :: "cpu \<Rightarrow> (cpu, unit) outcome" where
  "pre_init_universal_handler c = hold c"

definition set_pre_init :: "u32 \<Rightarrow> cpu \<Rightarrow> cpu" where
  "set_pre_init pre_init c = c\<lparr>dev := (dev c)\<lparr>mtvec := pre_init\<rparr>\<rparr>"

definition bl_start :: "layout \<Rightarrow> u32 \<Rightarrow> (cpu \<Rightarrow> (cpu, u32) outcome) \<Rightarrow> cpu \<Rightarrow> (cpu, unit) outcome" where
  "bl_start L pre_init main c =
     andthen (on_dev (init_ram L) (set_pre_init pre_init (set_pointers L c))) (\<lambda>_ c.
     andthen (main c) (\<lambda>_ c. hold c))"

text \<open>The interrupt programs pass \<open>argc\<close> and \<open>argv\<close> and end in the library's \<open>exit\<close>.\<close>

definition irq_argv :: "string list" where
  "irq_argv = [''interrupt_direct'', ''THUAS RISC-V RV32IM bare metal processor'',
     ''The Hague University of Applied Sciences'', ''Department of Electrical Engineering'',
     ''J.E.J. op den Brouw'']"

definition irq_start :: "layout \<Rightarrow> u32 \<Rightarrow> (cpu \<Rightarrow> (cpu, unit) outcome)
    \<Rightarrow> (string list \<Rightarrow> cpu \<Rightarrow> (cpu, u32) outcome) \<Rightarrow> (u32 \<Rightarrow> cpu \<Rightarrow> (cpu, unit) outcome)
    \<Rightarrow> cpu \<Rightarrow> (cpu, unit) outcome" where
  "irq_start L pre_init libc_init main exit c =
     andthen (on_dev (init_ram L) (set_pre_init pre_init (set_pointers L c))) (\<lambda>_ c.
     andthen (libc_init c) (\<lambda>_ c.
     andthen (main irq_argv c) (\<lambda>status c. exit status c)))"

text \<open>The vectored program has a start-up file of its own.\<close>

definition vectored_argv :: "string list" where
  "vectored_argv = [''interrupt_vectored'', ''THUAS RISC-V RV32IM bare metal processor'',
     ''The Hague University of Applied Sciences'', ''Department of Electrical Engineering'',
     ''J.E.J. op den Brouw'']"

definition vectored_start :: "layout \<Rightarrow> u32 \<Rightarrow> (cpu \<Rightarrow> (cpu, unit) outcome)
    \<Rightarrow> (string list \<Rightarrow> cpu \<Rightarrow> (cpu, u32) outcome) \<Rightarrow> (u32 \<Rightarrow> cpu \<Rightarrow> (cpu, unit) outcome)
    \<Rightarrow> cpu \<Rightarrow> (cpu, unit) outcome" where
  "vectored_start L pre_init libc_init main exit c =
     (let c = c\<lparr>gpr := (gpr c)(3 := global_pointer L, 2 := stack_pointer L)\<rparr>;
          c = c\<lparr>dev := (dev c)\<lparr>mtvec := pre_init\<rparr>\<rparr>
      in andthen (on_dev (zero_bss (sbss L) (ebss L)) c) (\<lambda>_ c.
         andthen (on_dev (copy_data (sdata L) (edata L) (start_of_rom_to_copy L)) c) (\<lambda>_ c.
         andthen (libc_init c) (\<lambda>_ c.
         andthen (main vectored_argv c) (\<lambda>status c. exit status c)))))"

lemma on_dev_andthen: "on_dev (\<lambda>m. andthen (f m) g) c = andthen (on_dev f c) (\<lambda>a c. on_dev (g a) c)"
  by (cases "f (dev c)") (simp_all add: on_dev_def split: outcome.split)

text \<open>It does what the one of the direct program does, on its own arguments.\<close>

lemma vectored_start_is_irq_start:
  "vectored_start L pre_init libc_init main exit c
    = irq_start L pre_init libc_init (\<lambda>_ c. main vectored_argv c) exit c"
  by (simp add: vectored_start_def irq_start_def init_ram_def [abs_def] on_dev_andthen andthen_assoc
      set_pre_init_def set_pointers_def set_reg_def Let_def)

section \<open>Memory when main starts\<close>

definition span_of :: "u32 \<Rightarrow> u32 \<Rightarrow> nat" where
  "span_of p q = unat q - unat p"

definition bytes_at :: "(u32 \<Rightarrow> u8) \<Rightarrow> u32 \<Rightarrow> nat \<Rightarrow> u8 list" where
  "bytes_at f a n = map (\<lambda>i. f (a + of_nat i)) [0..<n]"

lemma span_of_step: "p < q \<Longrightarrow> span_of p q = Suc (span_of (p + 1) q)"
  using pointer_step [of p q] by (simp add: span_of_def word_less_nat_alt)

lemma span_of_0: "\<not> p < q \<Longrightarrow> span_of p q = 0"
  by (simp add: span_of_def word_less_nat_alt)

definition segment :: "(u32 \<Rightarrow> bool) \<Rightarrow> u32 \<Rightarrow> nat \<Rightarrow> bool" where
  "segment P a n \<longleftrightarrow> list_all (\<lambda>i. P (a + of_nat i)) [0..<n]"

lemma segment_Suc: "segment P a (Suc n) \<longleftrightarrow> P a \<and> segment P (a + 1) n"
  unfolding segment_def by (rule list_all_upt_word)

lemma bytes_at_Suc: "bytes_at f a (Suc n) = f a # bytes_at f (a + 1) n"
  unfolding bytes_at_def by (rule map_upt_word)

lemma length_bytes_at [simp]: "length (bytes_at f a n) = n"
  by (simp add: bytes_at_def)

lemma bytes_at_cong: "segment (\<lambda>x. f x = g x) a n \<Longrightarrow> bytes_at f a n = bytes_at g a n"
  by (simp add: segment_def bytes_at_def list_all_iff)

lemma segment_mono: "segment P a n \<Longrightarrow> (\<And>x. P x \<Longrightarrow> Q x) \<Longrightarrow> segment Q a n"
  by (simp add: segment_def list_all_iff)

lemma store_bytes_outside: "segment (\<lambda>y. y \<noteq> x) a (length ds) \<Longrightarrow> store_bytes a ds f x = f x"
  by (induction ds arbitrary: a f) (auto simp: segment_Suc)

lemma zero_bss_mem:
  assumes "segment (\<lambda>x. region x = 2) p (span_of p q)"
  shows "zero_bss p q m = Done () (m\<lparr>mem := store_bytes p (replicate (span_of p q) 0) (mem m)\<rparr>)"
  using assms
proof (induction p q m rule: zero_bss.induct)
  case (1 p q m)
  show ?case
  proof (cases "p < q")
    case True
    then have "region p = 2" "segment (\<lambda>x. region x = 2) (p + 1) (span_of (p + 1) q)"
      using 1(2) by (simp_all add: span_of_step segment_Suc)
    then show ?thesis
      using True 1(1) [OF True, of "()" "m\<lparr>mem := (mem m)(p := 0)\<rparr>"]
      by (simp add: zero_bss.simps [of p q m] store8_def span_of_step fun_upd_def)
  next
    case False
    then show ?thesis by (simp add: zero_bss.simps [of p q m] span_of_0)
  qed
qed

lemma copy_data_mem:
  assumes "segment (\<lambda>x. region x = 2) p (span_of p q)" and "segment (\<lambda>x. region x < 2) r (span_of p q)"
  shows "copy_data p q r m = Done () (m\<lparr>mem := store_bytes p (bytes_at (mem m) r (span_of p q)) (mem m)\<rparr>)"
  using assms
proof (induction p q r m rule: copy_data.induct)
  case (1 p q r m)
  show ?case
  proof (cases "p < q")
    case True
    have reg: "region p = 2" "segment (\<lambda>x. region x = 2) (p + 1) (span_of (p + 1) q)"
        "region r < 2" "segment (\<lambda>x. region x < 2) (r + 1) (span_of (p + 1) q)"
      using 1(2,3) True by (simp_all add: span_of_step segment_Suc)
    let ?m = "m\<lparr>mem := (mem m)(p := mem m r)\<rparr>"
    have "segment (\<lambda>x. mem ?m x = mem m x) (r + 1) (span_of (p + 1) q)"
      by (rule segment_mono [OF reg(4)]) (use reg(1) in auto)
    then have same: "bytes_at (mem ?m) (r + 1) (span_of (p + 1) q) = bytes_at (mem m) (r + 1) (span_of (p + 1) q)"
      by (rule bytes_at_cong)
    have l: "load8 r m = Done (mem m r) m" using reg(3) by (auto simp: load8_def)
    have s: "store8 p (mem m r) m = Done () ?m" using reg(1) by (simp add: store8_def)
    have IH: "copy_data (p + 1) q (r + 1) ?m
        = Done () (?m\<lparr>mem := store_bytes (p + 1) (bytes_at (mem ?m) (r + 1) (span_of (p + 1) q)) (mem ?m)\<rparr>)"
      by (rule 1(1) [OF True l s reg(2,4)])
    show ?thesis
      using True l s IH [unfolded same]
      by (simp add: copy_data.simps [of p q r m] span_of_step bytes_at_Suc)
  next
    case False
    then show ?thesis by (simp add: copy_data.simps [of p q r m] span_of_0 bytes_at_def)
  qed
qed

text \<open>The linker's promise on the segments (both lie in RAM, they do not overlap, and the initial
  values lie in ROM), and the memory it buys.\<close>

definition layout_ok :: "layout \<Rightarrow> bool" where
  "layout_ok L \<longleftrightarrow> segment (\<lambda>x. region x = 2) (sbss L) (span_of (sbss L) (ebss L))
     \<and> segment (\<lambda>x. region x = 2) (sdata L) (span_of (sdata L) (edata L))
     \<and> segment (\<lambda>x. region x < 2) (start_of_rom_to_copy L) (span_of (sdata L) (edata L))
     \<and> segment (\<lambda>x. segment (\<lambda>y. y \<noteq> x) (sdata L) (span_of (sdata L) (edata L))) (sbss L) (span_of (sbss L) (ebss L))"

definition initial_mem :: "layout \<Rightarrow> (u32 \<Rightarrow> u8) \<Rightarrow> (u32 \<Rightarrow> u8)" where
  "initial_mem L f = store_bytes (sdata L) (bytes_at f (start_of_rom_to_copy L) (span_of (sdata L) (edata L)))
     (store_bytes (sbss L) (replicate (span_of (sbss L) (ebss L)) 0) f)"

lemma init_ram_mem:
  assumes "layout_ok L"
  shows "init_ram L m = Done () (m\<lparr>mem := initial_mem L (mem m)\<rparr>)"
proof -
  let ?z = "replicate (span_of (sbss L) (ebss L)) (0 :: u8)"
  have seg: "segment (\<lambda>x. region x = 2) (sbss L) (span_of (sbss L) (ebss L))"
    "segment (\<lambda>x. region x = 2) (sdata L) (span_of (sdata L) (edata L))"
    "segment (\<lambda>x. region x < 2) (start_of_rom_to_copy L) (span_of (sdata L) (edata L))"
    using assms by (simp_all add: layout_ok_def)
  have rom: "store_bytes (sbss L) ?z f x = f x" if "region x < 2" for f x
  proof (rule store_bytes_outside)
    show "segment (\<lambda>y. y \<noteq> x) (sbss L) (length ?z)"
      unfolding length_replicate by (rule segment_mono [OF seg(1)]) (use that in auto)
  qed
  have "bytes_at (store_bytes (sbss L) ?z (mem m)) (start_of_rom_to_copy L) (span_of (sdata L) (edata L))
      = bytes_at (mem m) (start_of_rom_to_copy L) (span_of (sdata L) (edata L))"
    by (rule bytes_at_cong, rule segment_mono [OF seg(3)]) (rule rom)
  then show ?thesis
    using zero_bss_mem [OF seg(1)] copy_data_mem [OF seg(2,3)]
    by (simp add: init_ram_def initial_mem_def)
qed

text \<open>\<open>main\<close> starts with the pointers set, \<open>.bss\<close> zero and the data segment copied.\<close>

definition ready :: "layout \<Rightarrow> cpu \<Rightarrow> cpu" where
  "ready L c = (set_pointers L c)\<lparr>dev := (dev c)\<lparr>mem := initial_mem L (mem (dev c))\<rparr>\<rparr>"

lemma start_ready:
  assumes "layout_ok L"
  shows "crt_start L libc_init main c =
      andthen (libc_init (ready L c)) (\<lambda>_ c. andthen (main c) (\<lambda>_ c. Stuck c))
    \<and> bl_start L pre_init main c = andthen (main (set_pre_init pre_init (ready L c))) (\<lambda>_ c. Stuck c)
    \<and> irq_start L pre_init libc_init main' exit c =
      andthen (libc_init (set_pre_init pre_init (ready L c))) (\<lambda>_ c. andthen (main' irq_argv c) (\<lambda>v c. exit v c))
    \<and> vectored_start L pre_init libc_init main' exit c =
      andthen (libc_init (set_pre_init pre_init (ready L c))) (\<lambda>_ c. andthen (main' vectored_argv c) (\<lambda>v c. exit v c))"
proof -
  have d: "dev (set_pointers L c) = dev c" by (simp add: set_pointers_def set_reg_def)
  have i: "init_ram L (dev c) = Done () ((dev c)\<lparr>mem := initial_mem L (mem (dev c))\<rparr>)"
    by (rule init_ram_mem [OF assms])
  have j: "init_ram L ((dev c)\<lparr>mtvec := pre_init\<rparr>)
      = Done () ((dev c)\<lparr>mtvec := pre_init, mem := initial_mem L (mem (dev c))\<rparr>)"
    using init_ram_mem [OF assms, of "(dev c)\<lparr>mtvec := pre_init\<rparr>"] by simp
  have swap: "(dev c)\<lparr>mtvec := pre_init, mem := f\<rparr> = (dev c)\<lparr>mem := f, mtvec := pre_init\<rparr>" for f
    by simp
  show ?thesis
    using d i j unfolding swap vectored_start_is_irq_start by (simp add: crt_start_def bl_start_def irq_start_def hold_def ready_def set_pre_init_def on_dev_eq)
qed

text \<open>What a variable of each segment holds then.\<close>

lemma initial_mem_cells:
  assumes "layout_ok L"
  shows "i < span_of (sbss L) (ebss L) \<Longrightarrow> initial_mem L f (sbss L + of_nat i) = 0"
    and "i < span_of (sdata L) (edata L) \<Longrightarrow>
         initial_mem L f (sdata L + of_nat i) = f (start_of_rom_to_copy L + of_nat i)"
    and "segment (\<lambda>y. y \<noteq> x) (sbss L) (span_of (sbss L) (ebss L))
      \<Longrightarrow> segment (\<lambda>y. y \<noteq> x) (sdata L) (span_of (sdata L) (edata L)) \<Longrightarrow> initial_mem L f x = f x"
proof -
  let ?n = "span_of (sdata L) (edata L)" and ?k = "span_of (sbss L) (ebss L)"
  have small: "span_of p q < 2 ^ 32" for p q
    using unsigned_less [of q, where 'a = nat] by (simp add: span_of_def)
  have idx: "unat (p + of_nat i - p) = i" if "i < 2 ^ 32" for p :: u32 and i
    using that by (simp add: unat_of_nat take_bit_nat_eq_self)
  show "initial_mem L f (sbss L + of_nat i) = 0" if i: "i < ?k"
  proof -
    have "segment (\<lambda>y. y \<noteq> sbss L + of_nat i) (sdata L) ?n"
      using assms i by (simp add: layout_ok_def segment_def list_all_iff)
    moreover have "i < 2 ^ 32" using i small [of "sbss L" "ebss L"] by (rule less_trans)
    ultimately show ?thesis
      using i idx [of i "sbss L"] store_bytes_lookup [of "replicate ?k 0" "sbss L" f "sbss L + of_nat i"]
        small [of "sbss L" "ebss L"]
      by (simp add: initial_mem_def store_bytes_outside)
  qed
  show "initial_mem L f (sdata L + of_nat i) = f (start_of_rom_to_copy L + of_nat i)" if i: "i < ?n"
  proof -
    have "i < 2 ^ 32" using i small [of "sdata L" "edata L"] by (rule less_trans)
    then show ?thesis
      using i idx [of i "sdata L"] small [of "sdata L" "edata L"]
      by (simp add: initial_mem_def store_bytes_lookup bytes_at_def)
  qed
  show "initial_mem L f x = f x" if "segment (\<lambda>y. y \<noteq> x) (sbss L) ?k" "segment (\<lambda>y. y \<noteq> x) (sdata L) ?n"
    using that by (simp add: initial_mem_def store_bytes_outside)
qed

lemma ready_fields:
  "gpr (ready L c) 2 = stack_pointer L" "gpr (ready L c) 3 = global_pointer L"
  "dev (ready L c) = (dev c)\<lparr>mem := initial_mem L (mem (dev c))\<rparr>"
  by (simp_all add: ready_def set_pointers_def set_reg_def)

text \<open>C19: Each of the four start-up files sets stack and global pointer, clears the bss segment,
  copies the data segment from ROM, leaves all other memory and devices alone, and in that
  state calls the library set-up, if it has one, and main; that of the C runtime and of the
  boot loader hold the processor when main returns, those of the interrupt programs hand
  main's result to exit.\<close>

theorem start_prepares:
  assumes "layout_ok L"
  shows "crt_start L libc_init main c =
      andthen (libc_init (ready L c)) (\<lambda>_ c. andthen (main c) (\<lambda>_ c. Stuck c))
    \<and> bl_start L pre_init main c = andthen (main (set_pre_init pre_init (ready L c))) (\<lambda>_ c. Stuck c)
    \<and> irq_start L pre_init libc_init main' exit c =
      andthen (libc_init (set_pre_init pre_init (ready L c))) (\<lambda>_ c. andthen (main' irq_argv c) (\<lambda>v c. exit v c))
    \<and> vectored_start L pre_init libc_init main' exit c =
      andthen (libc_init (set_pre_init pre_init (ready L c))) (\<lambda>_ c. andthen (main' vectored_argv c) (\<lambda>v c. exit v c))
    \<and> gpr (ready L c) 2 = stack_pointer L \<and> gpr (ready L c) 3 = global_pointer L
    \<and> dev (ready L c) = (dev c)\<lparr>mem := mem (dev (ready L c))\<rparr>
    \<and> (\<forall>i < span_of (sbss L) (ebss L). mem (dev (ready L c)) (sbss L + of_nat i) = 0)
    \<and> (\<forall>i < span_of (sdata L) (edata L).
         mem (dev (ready L c)) (sdata L + of_nat i) = mem (dev c) (start_of_rom_to_copy L + of_nat i))
    \<and> (\<forall>x. segment (\<lambda>y. y \<noteq> x) (sbss L) (span_of (sbss L) (ebss L))
         \<and> segment (\<lambda>y. y \<noteq> x) (sdata L) (span_of (sdata L) (edata L)) \<longrightarrow> mem (dev (ready L c)) x = mem (dev c) x)"
  using start_ready [OF assms, of libc_init main c pre_init main' exit] initial_mem_cells [OF assms]
  by (simp add: ready_fields)

definition small_layout :: layout where
  "small_layout = \<lparr>sbss = 0x20000008, ebss = 0x20000010, sdata = 0x20000000, edata = 0x20000005,
     start_of_rom_to_copy = 0x00000200, global_pointer = 0x20000800, stack_pointer = 0x20004000\<rparr>"

lemma small_layout_fields [simp]:
  "sbss small_layout = 0x20000008" "ebss small_layout = 0x20000010" "sdata small_layout = 0x20000000"
  "edata small_layout = 0x20000005" "start_of_rom_to_copy small_layout = 0x00000200"
  by (simp_all add: small_layout_def)

lemma small_spans [simp]: "span_of 0x20000008 0x20000010 = 8" "span_of 0x20000000 0x20000005 = 5"
  by (simp_all add: span_of_def)

lemma small_segments:
  "segment (\<lambda>x. region x = 2) 0x20000008 8" "segment (\<lambda>x. region x = 2) 0x20000000 5"
  "segment (\<lambda>x. region x < 2) 0x200 5" "segment (\<lambda>x. segment (\<lambda>y. y \<noteq> x) 0x20000000 5) 0x20000008 8"
  by code_simp+

lemma small_layout_ok: "layout_ok small_layout"
  by (simp add: layout_ok_def small_segments)

theorem start_prepares_witness:
  "crt_start small_layout (Done ()) (Done 0) (caller 0 0 0 0 0 []) = Stuck (ready small_layout (caller 0 0 0 0 0 []))
    \<and> mem (dev (ready small_layout (caller 0 0 0 0 0 []))) (0x20000008 + of_nat 3) = 0"
proof -
  let ?c = "caller 0 0 0 0 0 []"
  note r = start_prepares [OF small_layout_ok, of "Done ()" "Done 0" ?c 0 "\<lambda>_. Done 0" "\<lambda>_. Done ()"]
  have "crt_start small_layout (Done ()) (Done 0) ?c = Stuck (ready small_layout ?c)" using r by simp
  moreover have "\<forall>i < 8. mem (dev (ready small_layout ?c)) (0x20000008 + of_nat i) = 0" using r by simp
  then have "mem (dev (ready small_layout ?c)) (0x20000008 + of_nat 3) = 0" by (rule allE [of _ 3]) simp
  ultimately show ?thesis by blast
qed

end
