(* ===== verification/Syscalls.thy ===== *)
theory Syscalls
  imports TrapProof
begin

text \<open>
  The system call library \<open>CODE/syscalls/syscalls/*.c\<close> (copied into the programs that use
  newlib): the heap limit \<open>_sbrk\<close>, character I/O, the clock and the stubs.
\<close>

section \<open>Definitions\<close>

text \<open>The state of the library: the machine, \<open>errno\<close> and the static \<open>__sbrk_heap_end\<close>, with 0
  for \<open>NULL\<close>.\<close>

record clib =
  cdev :: machine
  cerrno :: "errno_code option"
  heap_end :: u32

definition sbrk :: "sysenv \<Rightarrow> u32 \<Rightarrow> clib \<Rightarrow> u32 \<times> clib" where
  "sbrk E incr s =
     (let stack_limit = stack_top E - stack_size E;
          max_heap = stack_limit;
          s = (if heap_end s = 0 then s\<lparr>heap_end := end_sym E\<rparr> else s)
      in if heap_end s + incr > max_heap then (-1, s\<lparr>cerrno := Some ENOMEM\<rparr>)
         else (heap_end s, s\<lparr>heap_end := heap_end s + incr\<rparr>))"

lemma sint_next:
  assumes "sint (i :: u32) < sint (n :: u32)"
  shows "sint (i + 1) = sint i + 1"
proof -
  have "sint i + 1 < 2 ^ 31" using assms sint_less [of n] by simp
  moreover have "- (2 ^ 31) \<le> sint i + 1" using sint_greater_eq [of i] by simp
  ultimately show ?thesis by (simp add: signed_take_bit_int_eq_self sint_word_ariths(1))
qed

text \<open>The loops of \<open>_write\<close> and \<open>_read\<close>, with the signed index \<open>i\<close> and the moving pointer \<open>buf\<close>.\<close>

function lib_write_loop :: "sysenv \<Rightarrow> u32 \<Rightarrow> u32 \<Rightarrow> u32 \<Rightarrow> machine \<Rightarrow> (machine, unit) outcome" where
  "lib_write_loop E i n buf m =
     (if sint i < sint n then
        andthen (load8 buf m) (\<lambda>c m.
        andthen (putchar E (ucast c) m) (\<lambda>_ m. lib_write_loop E (i + 1) n (buf + 1) m))
      else Done () m)"
  by pat_completeness auto
termination
  by (relation "measure (\<lambda>(E, i, n, buf, m). nat (sint n - sint i))") (simp_all add: sint_next)

function lib_read_loop :: "sysenv \<Rightarrow> u32 \<Rightarrow> u32 \<Rightarrow> u32 \<Rightarrow> machine \<Rightarrow> (machine, unit) outcome" where
  "lib_read_loop E i n buf m =
     (if sint i < sint n then
        andthen (getchar E m) (\<lambda>c m.
        andthen (store8 buf (ucast c) m) (\<lambda>_ m. lib_read_loop E (i + 1) n (buf + 1) m))
      else Done () m)"
  by pat_completeness auto
termination
  by (relation "measure (\<lambda>(E, i, n, buf, m). nat (sint n - sint i))") (simp_all add: sint_next)

declare lib_write_loop.simps [simp del] lib_read_loop.simps [simp del]

definition lib_write :: "sysenv \<Rightarrow> u32 \<Rightarrow> u32 \<Rightarrow> machine \<Rightarrow> (machine, u32) outcome" where
  "lib_write E buf n m = andthen (lib_write_loop E 0 n buf m) (\<lambda>_ m. Done n m)"

definition lib_read :: "sysenv \<Rightarrow> u32 \<Rightarrow> u32 \<Rightarrow> machine \<Rightarrow> (machine, u32) outcome" where
  "lib_read E buf n m = andthen (lib_read_loop E 0 n buf m) (\<lambda>_ m. Done n m)"

text \<open>The loop in assembler: \<open>rdtimeh\<close>, \<open>rdtime\<close>, \<open>rdtimeh\<close> and a branch back while the two upper
  halves differ; its result are the three registers. The registers it reads are copies of the memory
  mapped ones.\<close>

partial_function (option) rdtime_loop :: "machine \<Rightarrow> (u32 \<times> u32 \<times> u32 \<times> machine) option" where
  "rdtime_loop m =
     (let (th, m) = io_read TIMEH m;
          (tlo, m) = io_read TIMEL m;
          (tt, m) = io_read TIMEH m
      in if th \<noteq> tt then rdtime_loop m else Some (th, tlo, tt, m))"

definition lib_gettimeofday :: "sysenv \<Rightarrow> u32 \<Rightarrow> machine \<Rightarrow> (machine, u32) outcome" where
  "lib_gettimeofday E tp m = (case rdtime_loop m of
       None \<Rightarrow> Stuck m
     | Some (th, tlo, tt, m) \<Rightarrow>
         let thetime = push_bit 32 (ucast th) OR ucast tlo;
             usec = thetime mod 1000000;
             sec = thetime div 1000000
         in Done 0 (m\<lparr>mem := put_timeval E tp sec (ucast usec) (mem m)\<rparr>))"

text \<open>\<open>put_tms\<close> is the layout of \<open>struct tms\<close>: user, system and the two child times.\<close>

definition lib_times :: "(u32 \<Rightarrow> u64 \<Rightarrow> u64 \<Rightarrow> u64 \<Rightarrow> u64 \<Rightarrow> (u32 \<Rightarrow> u8) \<Rightarrow> (u32 \<Rightarrow> u8)) \<Rightarrow> u32
    \<Rightarrow> machine \<Rightarrow> (machine, u32) outcome" where
  "lib_times put_tms buf m = (case rdtime_loop m of
       None \<Rightarrow> Stuck m
     | Some (th, tlo, tt, m) \<Rightarrow>
         let thetime = push_bit 32 (ucast th) OR ucast tlo
         in Done 0 (m\<lparr>mem := put_tms buf thetime 0 0 0 (mem m)\<rparr>))"

definition lib_stat :: "sysenv \<Rightarrow> u32 \<Rightarrow> clib \<Rightarrow> u32 \<times> clib" where
  "lib_stat E st s = (0, s\<lparr>cdev := (cdev s)\<lparr>mem := put_mode E st (S_IFCHR E) (mem (cdev s))\<rparr>\<rparr>)"

definition lib_fail :: "errno_code \<Rightarrow> clib \<Rightarrow> u32 \<times> clib" where
  "lib_fail e s = (-1, s\<lparr>cerrno := Some e\<rparr>)"

text \<open>The stubs of \<open>syscalls.c\<close>, by name.\<close>

datatype stub =
    Getpid | Kill | Close | Fstat u32 | Isatty | Lseek | Open | Wait | Unlink | Stat u32
  | Link | Fork | Execve

fun run_stub :: "sysenv \<Rightarrow> stub \<Rightarrow> clib \<Rightarrow> u32 \<times> clib" where
  "run_stub E Getpid s = (1, s)"
| "run_stub E Kill s = lib_fail EINVAL s"
| "run_stub E Close s = (-1, s)"
| "run_stub E (Fstat st) s = lib_stat E st s"
| "run_stub E Isatty s = (1, s)"
| "run_stub E Lseek s = (0, s)"
| "run_stub E Open s = (-1, s)"
| "run_stub E Wait s = lib_fail ECHILD s"
| "run_stub E Unlink s = lib_fail ENOENT s"
| "run_stub E (Stat st) s = lib_stat E st s"
| "run_stub E Link s = lib_fail EMLINK s"
| "run_stub E Fork s = lib_fail EAGAIN s"
| "run_stub E Execve s = lib_fail ENOMEM s"

section \<open>The heap\<close>

text \<open>The end of the heap, once it is initialised, and the room between it and the stack.\<close>

definition brk_of :: "sysenv \<Rightarrow> clib \<Rightarrow> u32" where
  "brk_of E s = (if heap_end s = 0 then end_sym E else heap_end s)"

definition limit :: "sysenv \<Rightarrow> u32" where
  "limit E = stack_top E - stack_size E"

definition heap_ok :: "sysenv \<Rightarrow> clib \<Rightarrow> bool" where
  "heap_ok E s \<longleftrightarrow> end_sym E \<noteq> 0 \<and> end_sym E \<le> brk_of E s \<and> brk_of E s \<le> limit E"

lemma sbrk_eq:
  "sbrk E incr s = (if brk_of E s + incr > limit E then (-1, s\<lparr>heap_end := brk_of E s, cerrno := Some ENOMEM\<rparr>)
     else (brk_of E s, s\<lparr>heap_end := brk_of E s + incr\<rparr>))"
  by (simp add: sbrk_def brk_of_def limit_def Let_def)

text \<open>Requests of at most 2 GB, as \<open>ptrdiff_t\<close> allows, on a memory map below 2 GB.\<close>

lemma sbrk_correct_step:
  assumes "heap_ok E s" and "unat incr < 2 ^ 31" and "unat (limit E) < 2 ^ 31"
  shows "case sbrk E incr s of (p, s') \<Rightarrow> heap_ok E s' \<and> cdev s' = cdev s
    \<and> (if unat (brk_of E s) + unat incr \<le> unat (limit E)
       then p = brk_of E s \<and> unat (brk_of E s') = unat p + unat incr \<and> cerrno s' = cerrno s
       else p = -1 \<and> brk_of E s' = brk_of E s \<and> cerrno s' = Some ENOMEM)"
proof -
  have b: "brk_of E s \<noteq> 0" "unat (brk_of E s) \<le> unat (limit E)" "end_sym E \<le> brk_of E s" "end_sym E \<noteq> 0"
    using assms(1) by (auto simp: heap_ok_def word_le_nat_alt brk_of_def)
  have nowrap: "unat (brk_of E s + incr) = unat (brk_of E s) + unat incr"
    using b(2) assms(2,3) by (simp add: unat_word_ariths)
  have nz: "brk_of E s + incr \<noteq> 0"
    using nowrap b(1) by (auto simp: unat_eq_zero)
  show ?thesis
  proof (cases "unat (brk_of E s) + unat incr \<le> unat (limit E)")
    case True
    then have le: "\<not> brk_of E s + incr > limit E" using nowrap by (simp add: word_less_nat_alt)
    then show ?thesis
      using True nowrap nz b
      by (simp add: sbrk_eq heap_ok_def brk_of_def word_le_nat_alt split: if_splits)
  next
    case False
    then have gt: "brk_of E s + incr > limit E" using nowrap by (simp add: word_less_nat_alt)
    then show ?thesis
      using False b assms(1) by (simp add: sbrk_eq heap_ok_def brk_of_def)
  qed
qed

text \<open>C20: A request for more heap either extends it by exactly that amount below the reserved
  stack or fails with ENOMEM and changes nothing.\<close>

theorem sbrk_correct:
  assumes "heap_ok E s" and "unat incr < 2 ^ 31" and "unat (limit E) < 2 ^ 31"
  shows "case sbrk E incr s of (p, s') \<Rightarrow> heap_ok E s' \<and> cdev s' = cdev s
    \<and> (if unat (brk_of E s) + unat incr \<le> unat (limit E)
       then p = brk_of E s \<and> unat (brk_of E s') = unat p + unat incr \<and> cerrno s' = cerrno s
       else p = -1 \<and> brk_of E s' = brk_of E s \<and> cerrno s' = Some ENOMEM)"
  by (rule sbrk_correct_step [OF assms])

theorem sbrk_correct_witness:
  "sbrk board 0x100 \<lparr>cdev = power_on [], cerrno = None, heap_end = 0\<rparr>
     = (0x20000800, \<lparr>cdev = power_on [], cerrno = None, heap_end = 0x20000900\<rparr>)
   \<and> heap_ok board (snd (sbrk board 0x100 \<lparr>cdev = power_on [], cerrno = None, heap_end = 0\<rparr>))"
proof -
  let ?s = "\<lparr>cdev = power_on [], cerrno = None, heap_end = 0\<rparr>"
  have "heap_ok board ?s" by (simp add: heap_ok_def brk_of_def limit_def)
  from sbrk_correct [OF this, of "0x100"] show ?thesis
    by (simp add: limit_def brk_of_def sbrk_def Let_def split_beta)
qed

text \<open>A run of requests: the blocks handed out lie one after the other between \<open>_end\<close> and the
  stack.\<close>

fun sbrk_run :: "sysenv \<Rightarrow> u32 list \<Rightarrow> clib \<Rightarrow> (u32 \<times> u32) list" where
  "sbrk_run E [] s = []"
| "sbrk_run E (n # ns) s = (case sbrk E n s of (p, s') \<Rightarrow>
     if p = -1 then sbrk_run E ns s' else (p, n) # sbrk_run E ns s')"

fun blocks_between :: "nat \<Rightarrow> (u32 \<times> u32) list \<Rightarrow> nat \<Rightarrow> bool" where
  "blocks_between lo [] hi \<longleftrightarrow> lo \<le> hi"
| "blocks_between lo ((p, n) # bs) hi \<longleftrightarrow> lo \<le> unat p \<and> blocks_between (unat p + unat n) bs hi"

lemma sbrk_run_blocks:
  assumes "heap_ok E s" and "list_all (\<lambda>n. unat n < 2 ^ 31) ns" and "unat (limit E) < 2 ^ 31"
  shows "blocks_between (unat (brk_of E s)) (sbrk_run E ns s) (unat (limit E))"
  using assms(1,2)
proof (induction ns arbitrary: s)
  case Nil
  then show ?case by (simp add: heap_ok_def word_le_nat_alt)
next
  case (Cons n ns)
  obtain p s' where r: "sbrk E n s = (p, s')" by fastforce
  have c: "heap_ok E s'" "if unat (brk_of E s) + unat n \<le> unat (limit E)
      then p = brk_of E s \<and> unat (brk_of E s') = unat p + unat n \<and> cerrno s' = cerrno s
      else p = -1 \<and> brk_of E s' = brk_of E s \<and> cerrno s' = Some ENOMEM"
    using sbrk_correct_step [OF Cons.prems(1) _ assms(3), of n] Cons.prems(2) unfolding r by simp_all
  have IH: "blocks_between (unat (brk_of E s')) (sbrk_run E ns s') (unat (limit E))"
    using Cons.IH [OF c(1)] Cons.prems(2) by simp
  have "brk_of E s \<noteq> -1"
  proof
    assume "brk_of E s = -1"
    moreover have "(-1 :: u32) = 0xffffffff" by simp
    ultimately have "unat (brk_of E s) = 0xffffffff" by simp
    then show False using Cons.prems(1) assms(3) by (simp add: heap_ok_def word_le_nat_alt)
  qed
  then show ?case using c(2) IH r by (auto split: if_splits)
qed

text \<open>\<open>_sbrk\<close> does not look at the lower end: giving back more than was taken leaves the heap
  below \<open>_end\<close>, over the static data.\<close>

text \<open>C21: A negative request is granted whatever its size up to the end of the heap itself: no
  lower limit is tested, so the heap may end below the start it had.\<close>

theorem sbrk_gives_back:
  assumes "heap_ok E s" and "d \<le> brk_of E s"
  shows "sbrk E (- d) s = (brk_of E s, s\<lparr>heap_end := brk_of E s - d\<rparr>)"
proof -
  have "unat (brk_of E s - d) = unat (brk_of E s) - unat d" using assms(2) by (rule unat_sub)
  then have "brk_of E s - d \<le> brk_of E s" by (simp add: word_le_nat_alt)
  also have "\<dots> \<le> limit E" using assms(1) by (simp add: heap_ok_def)
  finally have "\<not> brk_of E s + - d > limit E" by simp
  then show ?thesis by (simp add: sbrk_eq)
qed

theorem sbrk_gives_back_witness:
  "snd (sbrk board (- 0x900) \<lparr>cdev = power_on [], cerrno = None, heap_end = 0x20000900\<rparr>)
    = \<lparr>cdev = power_on [], cerrno = None, heap_end = 0x20000000\<rparr> \<and> 0x20000000 < end_sym board"
  using sbrk_gives_back [of board "\<lparr>cdev = power_on [], cerrno = None, heap_end = 0x20000900\<rparr>" "0x900"]
  by (simp add: heap_ok_def brk_of_def limit_def)

section \<open>The library and the trap handler agree\<close>

text \<open>Counting up to \<open>n\<close> is counting down from it.\<close>

lemma count_down:
  "nat (sint n - sint i) = (if sint i < sint n then Suc (nat (sint n - sint (i + 1))) else 0)" for i n :: u32
  using sint_next [of i n] by auto

lemma lib_write_loop_chars: "lib_write_loop E i n buf m = write_chars E (nat (sint n - sint i)) buf m"
proof (induction "nat (sint n - sint i)" arbitrary: i buf m)
  case 0
  then have "\<not> sint i < sint n" by simp
  then show ?case unfolding lib_write_loop.simps [of E i n buf m] by simp
next
  case (Suc k)
  then have "sint i < sint n" "k = nat (sint n - sint (i + 1))" using count_down [of n i] by (auto split: if_splits)
  then have "lib_write_loop E (i + 1) n b = write_chars E (nat (sint n - sint (i + 1))) b" for b
    using Suc(1) [of "i + 1" b] by (intro ext) simp
  then show ?case
    using \<open>sint i < sint n\<close> count_down [of n i] unfolding lib_write_loop.simps [of E i n buf m] by simp
qed

lemma lib_read_loop_chars: "lib_read_loop E i n buf m = read_chars E (nat (sint n - sint i)) buf m"
proof (induction "nat (sint n - sint i)" arbitrary: i buf m)
  case 0
  then have "\<not> sint i < sint n" by simp
  then show ?case unfolding lib_read_loop.simps [of E i n buf m] by simp
next
  case (Suc k)
  then have "sint i < sint n" "k = nat (sint n - sint (i + 1))" using count_down [of n i] by (auto split: if_splits)
  then have "lib_read_loop E (i + 1) n b = read_chars E (nat (sint n - sint (i + 1))) b" for b
    using Suc(1) [of "i + 1" b] by (intro ext) simp
  then show ?case
    using \<open>sint i < sint n\<close> count_down [of n i] unfolding lib_read_loop.simps [of E i n buf m] by simp
qed

lemma lib_write_chars: "lib_write E buf n m = andthen (write_chars E (nat (sint n)) buf m) (\<lambda>_ m. Done n m)"
  by (simp add: lib_write_def lib_write_loop_chars)

lemma lib_read_chars: "lib_read E buf n m = andthen (read_chars E (nat (sint n)) buf m) (\<lambda>_ m. Done n m)"
  by (simp add: lib_read_def lib_read_loop_chars)

text \<open>The loop in assembler and the loop of the handler return together, and with the same.\<close>

lemma rdtime_read: "rdtime_loop m = Some (th, tlo, tt, n) \<Longrightarrow> read_time m = Some (th, tlo, n)"
proof -
  have "read_time m = Some (fst r, fst (snd r), snd (snd (snd r)))" if "rdtime_loop m = Some r" for m r
  proof (rule rdtime_loop.raw_induct [where P = "\<lambda>m r. read_time m = Some (fst r, fst (snd r), snd (snd (snd r)))", OF _ that])
    fix f m r
    assume "\<And>m r. f m = Some r \<Longrightarrow> read_time m = Some (fst r, fst (snd r), snd (snd (snd r)))"
      and "(let (th, m) = io_read TIMEH m; (tlo, m) = io_read TIMEL m; (tt, m) = io_read TIMEH m
        in if th \<noteq> tt then f m else Some (th, tlo, tt, m)) = Some r"
    then show "read_time m = Some (fst r, fst (snd r), snd (snd (snd r)))"
      unfolding read_time_unfold [of m] by (auto simp: io_read_time Let_def split: if_splits)
  qed
  then show "rdtime_loop m = Some (th, tlo, tt, n) \<Longrightarrow> read_time m = Some (th, tlo, n)" by fastforce
qed

lemma read_rdtime: "read_time m = Some (hi, lo, n) \<Longrightarrow> \<exists>tt. rdtime_loop m = Some (hi, lo, tt, n)"
proof -
  have "\<exists>tt. rdtime_loop m = Some (fst r, fst (snd r), tt, snd (snd r))" if "read_time m = Some r" for m r
  proof (rule read_time.raw_induct [where P = "\<lambda>m r. \<exists>tt. rdtime_loop m = Some (fst r, fst (snd r), tt, snd (snd r))", OF _ that])
    fix f m r
    assume "\<And>m r. f m = Some r \<Longrightarrow> \<exists>tt. rdtime_loop m = Some (fst r, fst (snd r), tt, snd (snd r))"
      and "(case io_read TIMEH m of (hi, m) \<Rightarrow> case io_read TIMEL m of (lo, m) \<Rightarrow>
        case io_read TIMEH m of (hi', m) \<Rightarrow> if hi \<noteq> hi' then f m else Some (hi, lo, m)) = Some r"
    then show "\<exists>tt. rdtime_loop m = Some (fst r, fst (snd r), tt, snd (snd r))"
      unfolding rdtime_loop.simps [of m] by (auto simp: io_read_time Let_def split: if_splits)
  qed
  then show "read_time m = Some (hi, lo, n) \<Longrightarrow> \<exists>tt. rdtime_loop m = Some (hi, lo, tt, n)" by fastforce
qed

lemma lib_gettimeofday_clock:
  "lib_gettimeofday E tp m = (case read_time m of
       None \<Rightarrow> Stuck m
     | Some (hi, lo, m) \<Rightarrow>
         let t = join64 hi lo
         in Done 0 (m\<lparr>mem := put_timeval E tp (t div 1000000) (ucast (t mod 1000000)) (mem m)\<rparr>))"
proof (cases "read_time m")
  case None
  then have "rdtime_loop m = None" using rdtime_read by (cases "rdtime_loop m") fastforce+
  then show ?thesis using None by (simp add: lib_gettimeofday_def)
next
  case (Some r)
  then obtain tt where "rdtime_loop m = Some (fst r, fst (snd r), tt, snd (snd r))"
    using read_rdtime [of m "fst r"] by fastforce
  then show ?thesis using Some by (simp add: lib_gettimeofday_def join64_def split_beta Let_def)
qed

text \<open>C22: The library functions _write, _read and _gettimeofday, with the loops of their own
  source files, have the effect of the system calls behind ECALL with the same arguments,
  for every 32-bit length, negative ones included.\<close>

theorem library_calls_agree:
  assumes "inj (nr E)"
  shows "(gpr c 17 = nr E SYS_write \<longrightarrow> ecall E c = on_dev (lib_write E (gpr c 11) (gpr c 12)) c)
    \<and> (gpr c 17 = nr E SYS_read \<longrightarrow> ecall E c = on_dev (lib_read E (gpr c 11) (gpr c 12)) c)
    \<and> (gpr c 17 = nr E SYS_gettimeofday \<longrightarrow> ecall E c = on_dev (lib_gettimeofday E (gpr c 10)) c)"
proof -
  have "on_dev (lib_write E (gpr c 11) (gpr c 12)) c = sys_write E c"
    by (cases "write_chars E (nat (sint (gpr c 12))) (gpr c 11) (dev c)")
      (simp_all add: lib_write_chars sys_write_def on_dev_def Let_def)
  moreover have "on_dev (lib_read E (gpr c 11) (gpr c 12)) c = sys_read E c"
    by (cases "read_chars E (nat (sint (gpr c 12))) (gpr c 11) (dev c)")
      (simp_all add: lib_read_chars sys_read_def on_dev_def Let_def)
  moreover have "on_dev (lib_gettimeofday E (gpr c 10)) c = sys_gettimeofday E c"
    by (cases "read_time (dev c)") (auto simp: lib_gettimeofday_clock sys_gettimeofday_def on_dev_def Let_def)
  ultimately show ?thesis by (simp add: ecall_def Let_def inj_eq [OF assms])
qed

theorem library_calls_agree_witness:
  "ecall board (caller 0 64 1 0x20001000 2 []) = on_dev (lib_write board 0x20001000 2) (caller 0 64 1 0x20001000 2 [])
    \<and> ecall board (caller 0 63 0 0x20001000 2 [72]) = on_dev (lib_read board 0x20001000 2) (caller 0 63 0 0x20001000 2 [72])
    \<and> ecall board (caller 0 169 0x20001000 0 0 []) = on_dev (lib_gettimeofday board 0x20001000) (caller 0 169 0x20001000 0 0 [])"
  using library_calls_agree [of board "caller 0 64 1 0x20001000 2 []"]
    library_calls_agree [of board "caller 0 63 0 0x20001000 2 [72]"]
    library_calls_agree [of board "caller 0 169 0x20001000 0 0 []"] newlib_nr_inj by simp

end
