(* ===== verification/Monitor.thy ===== *)
theory Monitor
  imports Util
begin

text \<open>
  The stand-alone monitor, \<open>CODE/monitor/monitor.c\<close>: the parsers of its command line, the
  commands that read and write words, half words and bytes in either byte order, and its loop.
  Its USART functions are those of the driver.
\<close>

section \<open>Parsers\<close>

fun addr_digits :: "u32 \<Rightarrow> u8 list \<Rightarrow> u32 option" where
  "addr_digits v [] = None"
| "addr_digits v (c # cs) =
     (if c \<noteq> 0 \<and> c \<noteq> 32 then
        addr_digits (if is_xdigit c then
            (if is_digit c then v * 16 + ucast c - 48 else v * 16 + ucast (to_upper c) - 65 + 10)
          else v) cs
      else Some v)"

definition read_address :: "u8 list \<Rightarrow> u32 option" where
  "read_address s = (case skip_space s of
       None \<Rightarrow> None
     | Some s \<Rightarrow> if hd s = 0 then Some 0 else addr_digits 0 s)"

text \<open>\<open>while (!isspace(*s)) s++\<close>, which does not stop at the terminating zero.\<close>

fun skip_word :: "u8 list \<Rightarrow> u8 list option" where
  "skip_word [] = None"
| "skip_word (c # cs) = (if \<not> is_space c then skip_word cs else Some (c # cs))"

fun data_digits :: "u32 \<Rightarrow> u8 list \<Rightarrow> u32 option" where
  "data_digits v [] = None"
| "data_digits v (c # cs) =
     (if c \<noteq> 0 then
        data_digits (if is_xdigit c then
            (if is_digit c then v * 16 + ucast c - 48 else v * 16 + ucast (to_upper c) - 65 + 10)
          else v) cs
      else Some v)"

definition read_data_after_address :: "u8 list \<Rightarrow> u32 option" where
  "read_data_after_address s = (case skip_space s of
       None \<Rightarrow> None
     | Some s \<Rightarrow> if hd s = 0 then Some 0 else
         (case skip_word s of
            None \<Rightarrow> None
          | Some s \<Rightarrow> (case skip_space s of
              None \<Rightarrow> None
            | Some s \<Rightarrow> if hd s = 0 then Some 0 else data_digits 0 s)))"

section \<open>Commands\<close>

definition swap32 :: "u32 \<Rightarrow> u32" where
  "swap32 val = push_bit 24 (val AND 0xff) + push_bit 16 (drop_bit 8 val AND 0xff)
     + push_bit 8 (drop_bit 16 val AND 0xff) + (drop_bit 24 val AND 0xff)"

definition swap16 :: "u16 \<Rightarrow> u16" where
  "swap16 val = push_bit 8 (val AND 0xff) + (drop_bit 8 val AND 0xff)"

text \<open>\<open>sprintf\<close> of a number into the line buffer, then \<open>usart_puts(buffer)\<close>.\<close>

definition print_into :: "u8 list \<Rightarrow> u8 list \<Rightarrow> machine \<Rightarrow> (machine, u8 list) outcome" where
  "print_into cs buf m =
     (if length cs < length buf then
        let buf = cs @ 0 # drop (Suc (length cs)) buf in
        andthen (usart_puts (Some buf) m) (\<lambda>_ m. Done buf m)
      else Fault Out_Of_Bounds m)"

definition say :: "string \<Rightarrow> u8 list \<Rightarrow> machine \<Rightarrow> (machine, u8 list) outcome" where
  "say s buf m = andthen (puts s m) (\<lambda>_ m. Done buf m)"

definition at_address :: "u32 option \<Rightarrow> machine \<Rightarrow> (u32 \<Rightarrow> machine \<Rightarrow> (machine, 'a) outcome) \<Rightarrow> (machine, 'a) outcome" where
  "at_address p m f = (case p of None \<Rightarrow> Fault Out_Of_Bounds m | Some a \<Rightarrow> f a m)"

definition mon_read :: "bool \<Rightarrow> u8 list \<Rightarrow> machine \<Rightarrow> (machine, u8 list) outcome" where
  "mon_read little buf m =
     andthen
      (if buf ! 1 = 119 then
         at_address (read_address (drop 2 buf)) m (\<lambda>p m.
           if p AND 3 = 0 then
             andthen (load32 p m) (\<lambda>val m.
             print_into (hexstr 97 8 (if little then swap32 val else val)) buf m)
           else say ''Not on 4-byte boundary'' buf m)
       else if buf ! 1 = 104 then
         at_address (read_address (drop 2 buf)) m (\<lambda>p m.
           if p AND 1 = 0 then
             andthen (load16 p m) (\<lambda>val m.
             print_into (hexstr 97 4 (ucast (if little then swap16 val else val))) buf m)
           else say ''Not on 2-byte boundary'' buf m)
       else if buf ! 1 = 98 then
         at_address (read_address (drop 2 buf)) m (\<lambda>p m.
           andthen (load8 p m) (\<lambda>val m. print_into (hexstr 97 2 (ucast val)) buf m))
       else say ''Unknown size'' buf m) (\<lambda>buf m.
     say [CR, LF] buf m)"

definition mon_write :: "u8 list \<Rightarrow> machine \<Rightarrow> (machine, u8 list) outcome" where
  "mon_write buf m =
     andthen
      (if buf ! 1 = 119 then
         at_address (read_address (drop 2 buf)) m (\<lambda>p m.
         at_address (read_data_after_address (drop 2 buf)) m (\<lambda>dat m.
           if p AND 3 = 0 then andthen (store32 p dat m) (\<lambda>_ m. Done buf m)
           else say ''Not on 4-byte boundary'' buf m))
       else if buf ! 1 = 104 then
         at_address (read_address (drop 2 buf)) m (\<lambda>p m.
         at_address (read_data_after_address (drop 2 buf)) m (\<lambda>dat m.
           if p AND 1 = 0 then andthen (store16 p (ucast dat) m) (\<lambda>_ m. Done buf m)
           else say ''Not on 2-byte boundary'' buf m))
       else if buf ! 1 = 98 then
         at_address (read_address (drop 2 buf)) m (\<lambda>p m.
         at_address (read_data_after_address (drop 2 buf)) m (\<lambda>dat m.
           andthen (store8 p (ucast dat) m) (\<lambda>_ m. Done buf m)))
       else say ''Unknown size'' buf m) (\<lambda>buf m.
     say [CR, LF] buf m)"

definition mon_help :: "string list" where
  "mon_help = map (\<lambda>s. s @ [CR, LF])
     [''Commands:'', ''h -- this help'', ''l -- set little endian format'', ''b -- set big endian format'',
      ''rw <address> -- read word'', ''rh <address> -- read half word'', ''rb <address> -- read byte'',
      ''ww <address> <data> -- write word'', ''wh <address> <data> -- write half word'',
      ''wb <address> <data> -- write byte'']"

fun say_all :: "string list \<Rightarrow> machine \<Rightarrow> (machine, unit) outcome" where
  "say_all [] m = Done () m"
| "say_all (s # ss) m = andthen (puts s m) (\<lambda>_ m. say_all ss m)"

text \<open>One round of the loop on the buffer and the byte order.\<close>

definition mon_command :: "u8 list \<Rightarrow> bool \<Rightarrow> machine \<Rightarrow> (machine, u8 list \<times> bool) outcome" where
  "mon_command buf little m = (let len = length (c_str buf) in
     if len = 0 then andthen (say (''Enter a command or h for help'' @ [CR, LF]) buf m) (\<lambda>buf m. Done (buf, little) m)
     else if len = 1 \<and> buf ! 0 = 104 then andthen (say_all mon_help m) (\<lambda>_ m. Done (buf, little) m)
     else if len = 1 \<and> buf ! 0 = 98 then andthen (say (''Set Big Endian'' @ [CR, LF]) buf m) (\<lambda>buf m. Done (buf, False) m)
     else if len = 1 \<and> buf ! 0 = 108 then andthen (say (''Set Little Endian'' @ [CR, LF]) buf m) (\<lambda>buf m. Done (buf, True) m)
     else if len < 3 then
       andthen (say (''Enter a correct command of h for help'' @ [CR, LF]) buf m) (\<lambda>buf m. Done (buf, little) m)
     else
       andthen (if buf ! 0 = 114 then mon_read little buf m else Done buf m) (\<lambda>buf m.
       andthen (if buf ! 0 = 119 then mon_write buf m else Done buf m) (\<lambda>buf m.
       Done (buf, little) m)))"

definition mon_round :: "u8 list \<times> bool \<Rightarrow> machine \<Rightarrow> (machine, u8 list \<times> bool) outcome" where
  "mon_round st m =
     andthen (puts ''>> '' m) (\<lambda>_ m.
     andthen (usart_gets (fst st) 40 m) (\<lambda>(buf, n) m.
     mon_command buf (snd st) m))"

partial_function (option) mon_loop :: "u8 list \<times> bool \<Rightarrow> machine \<Rightarrow> (machine, unit) outcome option" where
  "mon_loop st m = (case mon_round st m of
       Done st m \<Rightarrow> mon_loop st m
     | Stuck m \<Rightarrow> Some (Stuck m)
     | Fault e m \<Rightarrow> Some (Fault e m)
     | Jumped a m \<Rightarrow> Some (Jumped a m))"

definition mon_main :: "machine \<Rightarrow> (machine, unit) outcome option" where
  "mon_main m =
     andthen_opt (Some (puts ([CR, LF] @ ''THUAS RISC-V FPGA 32-bit processor'' @ [CR, LF]) (usart_init m))) (\<lambda>_ m.
     andthen_opt (Some (puts (''Monitor v0.1'' @ [CR, LF]) m)) (\<lambda>_ m.
     mon_loop (replicate 40 0, True) m))"

end
