(* ===== verification/MonitorProof.thy ===== *)
theory MonitorProof
  imports Monitor
begin

text \<open>
  The stand-alone monitor does what its help text says: it shows words in the chosen byte order,
  writes words, half words and bytes, and reports misaligned addresses; and where it goes wrong,
  a write command without data.
\<close>

section \<open>What the parsers read\<close>

lemma not_hex_stop [simp]: "\<not> is_xdigit 32" "\<not> is_xdigit 0" "is_space 32"
  by (simp_all add: is_xdigit_def is_digit_def is_space_def)

definition number_text :: "u8 list \<Rightarrow> bool" where
  "number_text ds \<longleftrightarrow> ds \<noteq> [] \<and> list_all is_xdigit ds"

lemma digit_text: "is_xdigit c \<Longrightarrow> c \<noteq> 0 \<and> c \<noteq> 32 \<and> \<not> is_space c"
  by (auto simp: is_xdigit_def is_digit_def is_space_def word_le_nat_alt)

lemma addr_digits_run:
  assumes "list_all is_xdigit ds" and "d = 0 \<or> d = 32"
  shows "addr_digits v (ds @ d # cs) = Some (foldl hexstep v ds)"
  using assms(1)
proof (induction ds arbitrary: v)
  case Nil
  then show ?case using assms(2) by auto
next
  case (Cons c ds)
  then show ?case
    using hexstep_add [of c v] digit_text [of c] by simp
qed

lemma data_digits_run:
  assumes "list_all is_xdigit ds"
  shows "data_digits v (ds @ 0 # cs) = Some (foldl hexstep v ds)"
  using assms
proof (induction ds arbitrary: v)
  case Nil
  then show ?case by simp
next
  case (Cons c ds)
  then show ?case using hexstep_add [of c v] digit_text [of c] by simp
qed

lemma skip_to_number:
  assumes "number_text ds"
  shows "skip_space (32 # ds @ cs) = Some (ds @ cs)" and "skip_space (ds @ cs) = Some (ds @ cs)" and "hd (ds @ cs) \<noteq> 0"
  using assms digit_text by (cases ds; simp add: number_text_def)+

lemma read_address_number:
  assumes "number_text ds" and "d = 0 \<or> d = 32"
  shows "read_address (32 # ds @ d # cs) = Some (hexnum ds)"
  using skip_to_number [OF assms(1), of "d # cs"] addr_digits_run [OF _ assms(2), of ds 0 cs] assms(1)
  by (simp add: read_address_def number_text_def hexnum_def)

lemma skip_word_number: "list_all is_xdigit ds \<Longrightarrow> skip_word (ds @ 32 # cs) = Some (32 # cs)"
  by (induction ds) (auto dest: digit_text)

lemma read_data_number:
  assumes "number_text ds" and "number_text vs"
  shows "read_data_after_address (32 # ds @ 32 # vs @ 0 # cs) = Some (hexnum vs)"
proof -
  have "skip_word (ds @ 32 # vs @ 0 # cs) = Some (32 # vs @ 0 # cs)"
    using skip_word_number assms(1) by (simp add: number_text_def)
  moreover have "data_digits 0 (vs @ 0 # cs) = Some (hexnum vs)"
    using data_digits_run assms(2) by (simp add: number_text_def hexnum_def)
  ultimately show ?thesis
    using skip_to_number [OF assms(1), of "32 # vs @ 0 # cs"] skip_to_number [OF assms(2), of "0 # cs"]
    by (simp add: read_data_after_address_def)
qed

text \<open>Without data the second parser runs past the end of the line: on a line buffer with no
  white space after it, past the end of the buffer.\<close>

lemma skip_word_overrun: "list_all (\<lambda>c. \<not> is_space c) cs \<Longrightarrow> skip_word cs = None"
  by (induction cs) simp_all

lemma read_data_overrun:
  assumes "number_text ds" and "list_all (\<lambda>c. \<not> is_space c) cs"
  shows "read_data_after_address (32 # ds @ 0 # cs) = None"
proof -
  have "list_all (\<lambda>c. \<not> is_space c) (ds @ 0 # cs)"
    using assms digit_text by (auto simp: number_text_def list_all_iff)
  from skip_word_overrun [OF this] show ?thesis
    using skip_to_number [OF assms(1), of "0 # cs"] by (simp add: read_data_after_address_def)
qed

text \<open>Little endian shows the bytes in the order of memory.\<close>

lemma hexstr_split: "hexstr b (m + n) v = hexstr b m (drop_bit (4 * n) v) @ hexstr b n v"
  by (induction n arbitrary: v) (simp_all add: drop_bit_drop_bit add.commute)

lemma hexstr_take: "hexstr b n (take_bit (4 * n) v) = hexstr b n v"
proof (induction n arbitrary: v)
  case 0
  then show ?case by simp
next
  case (Suc n)
  have "drop_bit 4 (take_bit (4 * Suc n) v) = take_bit (4 * n) (drop_bit 4 v)"
    by (rule bit_word_eqI) (auto simp: bit_simps)
  moreover have "take_bit 4 (take_bit (4 * Suc n) v) = take_bit 4 v" by simp
  ultimately show ?case using Suc by simp
qed

lemma swap32_or:
  "swap32 v = push_bit 24 (v AND 0xff) OR push_bit 16 (drop_bit 8 v AND 0xff)
     OR push_bit 8 (drop_bit 16 v AND 0xff) OR (drop_bit 24 v AND 0xff)"
proof -
  have 1: "push_bit 24 (v AND 0xff) + push_bit 16 (drop_bit 8 v AND 0xff)
      = push_bit 24 (v AND 0xff) OR push_bit 16 (drop_bit 8 v AND 0xff)"
    by (rule disjunctive_add_eq_or) (auto simp: bit_eq_iff bit_simps lane_masks)
  have 2: "(push_bit 24 (v AND 0xff) OR push_bit 16 (drop_bit 8 v AND 0xff)) + push_bit 8 (drop_bit 16 v AND 0xff)
      = (push_bit 24 (v AND 0xff) OR push_bit 16 (drop_bit 8 v AND 0xff)) OR push_bit 8 (drop_bit 16 v AND 0xff)"
    by (rule disjunctive_add_eq_or) (auto simp: bit_eq_iff bit_simps lane_masks)
  have 3: "((push_bit 24 (v AND 0xff) OR push_bit 16 (drop_bit 8 v AND 0xff)) OR push_bit 8 (drop_bit 16 v AND 0xff))
        + (drop_bit 24 v AND 0xff)
      = ((push_bit 24 (v AND 0xff) OR push_bit 16 (drop_bit 8 v AND 0xff)) OR push_bit 8 (drop_bit 16 v AND 0xff))
        OR (drop_bit 24 v AND 0xff)"
    by (rule disjunctive_add_eq_or) (auto simp: bit_eq_iff bit_simps lane_masks)
  show ?thesis unfolding swap32_def 1 2 3 by (simp only: or.assoc)
qed

lemma swap32_lanes_word:
  "take_bit 8 (drop_bit 24 (swap32 v)) = take_bit 8 v"
  "take_bit 8 (drop_bit 16 (swap32 v)) = take_bit 8 (drop_bit 8 v)"
  "take_bit 8 (drop_bit 8 (swap32 v)) = take_bit 8 (drop_bit 16 v)"
  "take_bit 8 (swap32 v) = take_bit 8 (drop_bit 24 v)"
proof -
  have bits: "bit (swap32 v) k \<longleftrightarrow>
      (if k < 8 then bit v (k + 24) else if k < 16 then bit v (k + 8)
       else if k < 24 then bit v (k - 8) else k < 32 \<and> bit v (k - 24))" for k
    unfolding swap32_or lane_masks(1) by (simp add: bit_simps) (auto simp: bit_imp_le_length add.commute)
  show "take_bit 8 (drop_bit 24 (swap32 v)) = take_bit 8 v"
    by (rule bit_word_eqI) (simp add: bit_take_bit_iff bit_drop_bit_eq bits add.commute)
  show "take_bit 8 (drop_bit 16 (swap32 v)) = take_bit 8 (drop_bit 8 v)"
    by (rule bit_word_eqI) (simp add: bit_take_bit_iff bit_drop_bit_eq bits add.commute)
  show "take_bit 8 (drop_bit 8 (swap32 v)) = take_bit 8 (drop_bit 16 v)"
    by (rule bit_word_eqI) (simp add: bit_take_bit_iff bit_drop_bit_eq bits add.commute)
  show "take_bit 8 (swap32 v) = take_bit 8 (drop_bit 24 v)"
    by (rule bit_word_eqI) (simp add: bit_take_bit_iff bit_drop_bit_eq bits add.commute)
qed

lemma hexstr_bytes:
  "hexstr b 8 v = hexstr b 2 (take_bit 8 (drop_bit 24 v)) @ hexstr b 2 (take_bit 8 (drop_bit 16 v))
     @ hexstr b 2 (take_bit 8 (drop_bit 8 v)) @ hexstr b 2 (take_bit 8 v)"
proof -
  have t: "hexstr b 2 (take_bit 8 x) = hexstr b 2 x" for x
    using hexstr_take [of b 2 x] by simp
  have "hexstr b (2 + 6) v = hexstr b 2 (drop_bit (4 * 6) v) @ hexstr b 6 v" by (rule hexstr_split)
  moreover have "hexstr b (2 + 4) v = hexstr b 2 (drop_bit (4 * 4) v) @ hexstr b 4 v" by (rule hexstr_split)
  moreover have "hexstr b (2 + 2) v = hexstr b 2 (drop_bit (4 * 2) v) @ hexstr b 2 v" by (rule hexstr_split)
  ultimately show ?thesis unfolding t by simp
qed

lemma take_bit_8: "take_bit 8 w = ucast (ucast w :: u8)" for w :: u32
  by (rule bit_word_eqI) (auto simp: bit_simps)

text \<open>The bytes of a word in the order of memory, each as two digits.\<close>

definition memory_order :: "(u32 \<Rightarrow> u8) \<Rightarrow> u32 \<Rightarrow> u8 list" where
  "memory_order f a = concat (map (\<lambda>d. hexstr 97 2 (ucast d)) [f a, f (a + 1), f (a + 2), f (a + 3)])"

lemma hexstr_memory_order: "hexstr 97 8 (swap32 (mem_word f a)) = memory_order f a"
  unfolding hexstr_bytes [of 97 "swap32 (mem_word f a)"] swap32_lanes_word
  unfolding take_bit_8 mem_word_byte memory_order_def
  by (simp del: hexstr.simps)

section \<open>Commands\<close>

lemma print_into_traffic:
  assumes "0 \<notin> set cs" and "length cs < length buf"
  shows "traffic [] cs (cs @ 0 # drop (Suc (length cs)) buf) (print_into cs buf m) m"
proof -
  obtain n where n: "puts_by usart_putc (cs @ 0 # drop (Suc (length cs)) buf) m = Done () n" "serial [] cs m n"
    using usart.puts_by_io [OF assms(1)] by blast
  then show ?thesis using assms(2) by (auto simp: print_into_def usart_puts_def traffic_def Let_def)
qed

lemma say_traffic: "0 \<notin> set (bytes s) \<Longrightarrow> traffic [] (bytes s) buf (say s buf m) m"
proof -
  assume "0 \<notin> set (bytes s)"
  then have "traffic [] (bytes s @ []) buf (say s buf m) m"
    unfolding say_def by (rule traffic_says [OF traffic_puts]) simp_all
  then show ?thesis by simp
qed

text \<open>A line holding a command of two letters and its arguments.\<close>

definition line_buf :: "string \<Rightarrow> u8 list \<Rightarrow> u8 list \<Rightarrow> u8 list" where
  "line_buf cmd args ys = bytes cmd @ 32 # args @ 0 # ys"

lemma two_letters:
  assumes "cmd = [x, y]"
  shows "line_buf cmd args ys ! 0 = of_char x" "line_buf cmd args ys ! Suc 0 = of_char y"
    "drop 2 (line_buf cmd args ys) = 32 # args @ 0 # ys"
  using assms by (simp_all add: line_buf_def)

lemma line_buf_length:
  assumes "0 \<notin> set args" and "0 \<notin> set (bytes [x, y])"
  shows "length (c_str (line_buf [x, y] args ys)) = Suc (Suc (Suc (length args)))"
proof -
  have "0 \<notin> set (bytes [x, y] @ 32 # args)" using assms by simp
  from c_str_terminated [OF this, of ys] show ?thesis by (simp add: line_buf_def)
qed

lemma mon_command_rw:
  assumes "number_text ds" and "hexnum ds AND 3 = 0" and "region (hexnum ds) \<noteq> 15"
    and "length (line_buf ''rw'' ds ys) = 40"
  shows "\<exists>buf. length buf = 40 \<and> traffic [] ((if little then memory_order (mem m) (hexnum ds)
      else hexstr 97 8 (mem_word (mem m) (hexnum ds))) @ bytes [CR, LF]) (buf, little)
     (mon_command (line_buf ''rw'' ds ys) little m) m"
proof -
  let ?b = "line_buf ''rw'' ds ys" and ?a = "hexnum ds"
  let ?t = "hexstr 97 8 (if little then swap32 (mem_word (mem m) ?a) else mem_word (mem m) ?a)"
  let ?b' = "?t @ 0 # drop (Suc (length ?t)) ?b"
  have nz: "0 \<notin> set ds" using assms(1) digit_text by (auto simp: number_text_def list_all_iff)
  have len: "length (c_str ?b) = Suc (Suc (Suc (length ds)))" using line_buf_length [of ds] nz by simp
  have addr: "read_address (drop 2 ?b) = Some ?a"
    using read_address_number [OF assms(1), of 0 ys] by (simp add: line_buf_def)
  have nt: "0 \<notin> set ?t" using set_hexstr [of 97 8] by auto
  have "traffic [] (?t @ bytes [CR, LF]) ?b' (andthen (print_into ?t ?b m) (\<lambda>buf m. say [CR, LF] buf m)) m"
    by (rule traffic_says [OF print_into_traffic say_traffic]) (use nt assms(4) in \<open>simp_all del: hexstr.simps\<close>)
  moreover have "mon_read little ?b m = andthen (print_into ?t ?b m) (\<lambda>buf m. say [CR, LF] buf m)"
    using addr assms(2) load32_mem [OF assms(3,2), of m]
    by (simp add: mon_read_def two_letters at_address_def del: hexstr.simps)
  ultimately obtain n where n: "mon_read little ?b m = Done ?b' n" "serial [] (?t @ bytes [CR, LF]) m n"
    unfolding traffic_def by auto
  have "?b' ! 0 \<noteq> 119"
  proof -
    have l: "0 < length ?t" by (simp del: hexstr.simps)
    then have "?b' ! 0 = ?t ! 0" by (simp add: nth_append del: hexstr.simps)
    moreover have "is_xdigit (?t ! 0)" using set_hexstr [of 97 8] nth_mem [OF l] by blast
    ultimately have "is_xdigit (?b' ! 0)" by (simp only:)
    then show ?thesis by (auto simp: is_xdigit_def is_digit_def)
  qed
  then have c: "mon_command ?b little m = Done (?b', little) n"
    using n(1) len by (simp add: mon_command_def Let_def two_letters del: hexstr.simps)
  have eq: "?t = (if little then memory_order (mem m) ?a else hexstr 97 8 (mem_word (mem m) ?a))"
    using hexstr_memory_order by simp
  have tr: "traffic [] (?t @ bytes [CR, LF]) (?b', little) (mon_command ?b little m) m"
    unfolding traffic_def using c n(2) by blast
  show ?thesis
  proof (intro exI [of _ ?b'] conjI)
    show "length ?b' = 40" using assms(4) by simp
    show "traffic [] ((if little then memory_order (mem m) ?a else hexstr 97 8 (mem_word (mem m) ?a)) @ bytes [CR, LF])
       (?b', little) (mon_command ?b little m) m"
      using tr unfolding eq .
  qed
qed

text \<open>The rounds: a typed line, its echo, the answer.\<close>

definition mon_answer :: "u8 list \<Rightarrow> u8 list \<Rightarrow> u8 list" where
  "mon_answer cs os = bytes ''>> '' @ echoes 40 [] cs @ os"

lemma mon_round_line:
  assumes "pending m = cs @ e # rest" and "eol e" and "\<forall>c \<in> set cs. 0x1f < c \<and> c < 0x7f"
    and "length cs < 40" and "length buf = 40"
  shows "\<exists>k ys. mon_round (buf, little) m = mon_command (cs @ 0 # ys) little k \<and> length (cs @ 0 # ys) = 40
    \<and> serial (cs @ [e]) (mon_answer cs []) m k"
proof -
  obtain p where p: "puts ''>> '' m = Done () p" "serial [] (bytes ''>> '') m p"
    by (rule trafficE [OF traffic_puts [of "''>> ''" m]]) simp
  have "pending p = cs @ e # rest" using p(2) assms(1) by (simp add: serial_def)
  moreover have "\<forall>c \<in> set cs. \<not> eol c" using assms(3) by (auto simp: eol_def)
  ultimately obtain ys q where q: "usart_gets buf 40 p = Done (line_of 40 cs @ 0 # ys, length (line_of 40 cs)) q"
      "serial (cs @ [e]) (echoes 40 [] cs) p q" "length (line_of 40 cs @ 0 # ys) = length buf"
    using gets_ok [of p cs e rest 40 buf] assms(2,5) by auto
  have "line_of 40 cs = cs" by (rule line_of_plain [OF assms(3,4)])
  then show ?thesis
    using p(1) q assms(5) serial_trans [OF p(2) q(2)] by (auto simp: mon_round_def mon_answer_def)
qed

lemma number_text_plain:
  assumes "number_text ds"
  shows "0 \<notin> set ds" and "\<forall>c \<in> set ds. 0x1f < c \<and> c < 0x7f"
proof -
  have "c \<noteq> 0 \<and> 0x1f < c \<and> c < 0x7f" if "is_xdigit c" for c
    using that by (auto simp: is_xdigit_def is_digit_def word_le_nat_alt word_less_nat_alt word_unat_eq_iff)
  then show "0 \<notin> set ds" "\<forall>c \<in> set ds. 0x1f < c \<and> c < 0x7f"
    using assms unfolding number_text_def list_all_iff by blast+
qed

text \<open>C23: The rw command of the stand-alone monitor prints the word at the address, in little
  endian mode as its bytes in the order of memory.\<close>

theorem monitor_shows_word:
  assumes "pending m = (bytes ''rw '' @ ds) @ e # rest" and "eol e" and "length buf = 40"
    and "number_text ds" and "length ds < 37" and "hexnum ds AND 3 = 0" and "region (hexnum ds) \<noteq> 15"
  shows "\<exists>buf' n. mon_round (buf, little) m = Done (buf', little) n \<and> length buf' = 40
    \<and> serial ((bytes ''rw '' @ ds) @ [e]) (mon_answer (bytes ''rw '' @ ds)
        ((if little then memory_order (mem m) (hexnum ds) else hexstr 97 8 (mem_word (mem m) (hexnum ds)))
          @ bytes [CR, LF])) m n"
proof -
  let ?l = "bytes ''rw '' @ ds"
  have l: "\<forall>c \<in> set ?l. 0x1f < c \<and> c < 0x7f" "length ?l < 40"
    using number_text_plain(2) [OF assms(4)] assms(5) by auto
  obtain k ys where k: "mon_round (buf, little) m = mon_command (?l @ 0 # ys) little k"
      "length (?l @ 0 # ys) = 40" "serial (?l @ [e]) (mon_answer ?l []) m k"
    using mon_round_line [OF assms(1,2) l assms(3)] by blast
  have b: "?l @ 0 # ys = line_buf ''rw'' ds ys" by (simp add: line_buf_def)
  obtain buf' n where n: "length buf' = 40" "mon_command (line_buf ''rw'' ds ys) little k = Done (buf', little) n"
      "serial [] ((if little then memory_order (mem k) (hexnum ds) else hexstr 97 8 (mem_word (mem k) (hexnum ds)))
          @ bytes [CR, LF]) k n"
    using mon_command_rw [OF assms(4,6,7), of ys little k] k(2) unfolding b traffic_def by auto
  show ?thesis
    using k(1) n serial_trans [OF k(3) n(3)] serial_mem [OF k(3)] unfolding b
    by (auto simp: mon_answer_def simp del: hexstr.simps)
qed

text \<open>What the three write commands do to memory.\<close>

fun written :: "string \<Rightarrow> u32 \<Rightarrow> u32 \<Rightarrow> (u32 \<Rightarrow> u8) \<Rightarrow> (u32 \<Rightarrow> u8)" where
  "written cmd a v f = (if cmd = ''ww'' then set_word f a v
     else if cmd = ''wh'' then set_half f a (ucast v) else f(a := ucast v))"

definition aligned_for :: "string \<Rightarrow> u32 \<Rightarrow> bool" where
  "aligned_for cmd a \<longleftrightarrow> (cmd = ''ww'' \<longrightarrow> a AND 3 = 0) \<and> (cmd = ''wh'' \<longrightarrow> a AND 1 = 0)"

lemma mon_write_stores:
  assumes cmd: "cmd \<in> {''ww'', ''wh'', ''wb''}" and al: "aligned_for cmd a" and ram: "region a = 2"
    and addr: "read_address (drop 2 (line_buf cmd xs ys)) = Some a"
    and dat: "read_data_after_address (drop 2 (line_buf cmd xs ys)) = Some v"
  shows "mon_write (line_buf cmd xs ys) m = say [CR, LF] (line_buf cmd xs ys) (m\<lparr>mem := written cmd a v (mem m)\<rparr>)"
  using cmd
proof (elim insertE emptyE)
  assume c: "cmd = ''ww''"
  have "writable a" using ram by (simp add: writable_def)
  then have "store32 a v m = Done () (m\<lparr>mem := written cmd a v (mem m)\<rparr>)"
    using store32_mem [of a v m] al by (simp add: c aligned_for_def)
  then show ?thesis
    using addr dat al unfolding mon_write_def at_address_def
    by (simp add: c two_letters aligned_for_def)
next
  assume c: "cmd = ''wh''"
  have "store16 a (ucast v) m = Done () (m\<lparr>mem := written cmd a v (mem m)\<rparr>)"
    using al ram by (simp add: c aligned_for_def store16_def)
  then show ?thesis
    using addr dat al unfolding mon_write_def at_address_def
    by (simp add: c two_letters aligned_for_def)
next
  assume c: "cmd = ''wb''"
  have "store8 a (ucast v) m = Done () (m\<lparr>mem := written cmd a v (mem m)\<rparr>)"
    using ram by (simp add: c store8_def)
  then show ?thesis
    using addr dat unfolding mon_write_def at_address_def
    by (simp add: c two_letters)
qed

lemma mon_command_write:
  assumes cmd: "cmd \<in> {''ww'', ''wh'', ''wb''}" and ds: "number_text ds" and vs: "number_text vs"
    and al: "aligned_for cmd (hexnum ds)" and ram: "region (hexnum ds) = 2"
  shows "\<exists>n. mon_command (line_buf cmd (ds @ 32 # vs) ys) little m = Done (line_buf cmd (ds @ 32 # vs) ys, little) n
    \<and> receives [] (bytes [CR, LF]) (written cmd (hexnum ds) (hexnum vs)) (\<lambda>x. x) m n"
proof -
  let ?b = "line_buf cmd (ds @ 32 # vs) ys" and ?a = "hexnum ds" and ?v = "hexnum vs"
  let ?m = "m\<lparr>mem := written cmd ?a ?v (mem m)\<rparr>"
  have nz: "0 \<notin> set (ds @ 32 # vs)" using number_text_plain(1) [OF ds] number_text_plain(1) [OF vs] by simp
  have d2: "drop 2 ?b = 32 # ds @ 32 # vs @ 0 # ys" using cmd by (auto simp: line_buf_def)
  have addr: "read_address (drop 2 ?b) = Some ?a"
    using read_address_number [OF ds, of 32 "vs @ 0 # ys"] d2 by simp
  have dat: "read_data_after_address (drop 2 ?b) = Some ?v"
    using read_data_number [OF ds vs] d2 by simp
  have len: "length (c_str ?b) = Suc (Suc (Suc (length (ds @ 32 # vs))))"
    using cmd line_buf_length [OF nz] by auto
  obtain n where n: "say [CR, LF] ?b ?m = Done ?b n" "serial [] (bytes [CR, LF]) ?m n"
    by (rule trafficE [OF say_traffic [of "[CR, LF]" ?b ?m]]) simp
  have "mon_write ?b m = say [CR, LF] ?b ?m" by (rule mon_write_stores [OF cmd al ram addr dat])
  moreover have "?b ! 0 = 119" using cmd by (auto simp: two_letters)
  ultimately have "mon_command ?b little m = Done (?b, little) n"
    using n(1) len by (simp add: mon_command_def Let_def)
  moreover have "receives [] (bytes [CR, LF]) (written cmd ?a ?v) (\<lambda>x. x) m n"
    using n(2) by (simp add: serial_def receives_def)
  ultimately show ?thesis by blast
qed

text \<open>C24: The ww, wh and wb commands of the stand-alone monitor store the word, half word or byte
  and change nothing else in memory.\<close>

theorem monitor_writes:
  assumes "pending m = (bytes cmd @ 32 # ds @ 32 # vs) @ e # rest" and "eol e" and "length buf = 40"
    and "cmd \<in> {''ww'', ''wh'', ''wb''}" and "number_text ds" and "number_text vs" and "length ds + length vs < 36"
    and "aligned_for cmd (hexnum ds)" and "region (hexnum ds) = 2"
  shows "\<exists>buf' n. mon_round (buf, little) m = Done (buf', little) n \<and> length buf' = 40
    \<and> mem n = written cmd (hexnum ds) (hexnum vs) (mem m) \<and> pending n = rest
    \<and> line_out n = line_out m @ mon_answer (bytes cmd @ 32 # ds @ 32 # vs) (bytes [CR, LF])"
proof -
  let ?l = "bytes cmd @ 32 # ds @ 32 # vs"
  have l: "\<forall>c \<in> set ?l. 0x1f < c \<and> c < 0x7f" "length ?l < 40"
    using number_text_plain(2) [OF assms(5)] number_text_plain(2) [OF assms(6)] assms(4,7) by auto
  obtain k ys where k: "mon_round (buf, little) m = mon_command (?l @ 0 # ys) little k"
      "length (?l @ 0 # ys) = 40" "serial (?l @ [e]) (mon_answer ?l []) m k"
    using mon_round_line [OF assms(1,2) l assms(3)] by blast
  have b: "?l @ 0 # ys = line_buf cmd (ds @ 32 # vs) ys" by (simp add: line_buf_def)
  obtain n where n: "mon_command (?l @ 0 # ys) little k = Done (?l @ 0 # ys, little) n"
      "receives [] (bytes [CR, LF]) (written cmd (hexnum ds) (hexnum vs)) (\<lambda>x. x) k n"
    using mon_command_write [OF assms(4,5,6,8,9), of ys little k] unfolding b by blast
  have r: "receives (?l @ [e]) (mon_answer ?l [] @ bytes [CR, LF]) (written cmd (hexnum ds) (hexnum vs)) (\<lambda>x. x) m n"
    using receives_trans [OF receives_serial [OF k(3)] n(2)] by (simp del: written.simps)
  have "mem n = written cmd (hexnum ds) (hexnum vs) (mem m)" by (rule receives_fields(1) [OF r])
  moreover have "pending n = rest" using receives_pending [OF r] assms(1) by simp
  moreover have "line_out n = line_out m @ mon_answer ?l (bytes [CR, LF])"
    using r by (simp add: receives_def mon_answer_def)
  ultimately show ?thesis using k(1,2) n(1) by auto
qed

text \<open>A write command without data, on a buffer that holds no white space after the line: the
  parser of the data leaves the buffer.\<close>

text \<open>C25: A write command without data makes the stand-alone monitor read past the end of its
  line buffer when the rest of the buffer holds no white space.\<close>

theorem monitor_write_overrun:
  assumes "number_text ds" and "list_all (\<lambda>c. \<not> is_space c) ys"
  shows "mon_command (line_buf ''ww'' ds ys) little m = Fault Out_Of_Bounds m"
proof -
  let ?b = "line_buf ''ww'' ds ys"
  have d2: "drop 2 ?b = 32 # ds @ 0 # ys" by (simp add: line_buf_def)
  have "read_address (drop 2 ?b) = Some (hexnum ds)"
    using read_address_number [OF assms(1), of 0 ys] d2 by simp
  moreover have "read_data_after_address (drop 2 ?b) = None"
    using read_data_overrun [OF assms] d2 by simp
  moreover have "length (c_str ?b) = Suc (Suc (Suc (length ds)))"
    using line_buf_length [OF number_text_plain(1) [OF assms(1)]] by simp
  ultimately show ?thesis
    by (simp add: mon_command_def mon_write_def at_address_def two_letters Let_def)
qed

lemma typed_numbers: "number_text (bytes ''20000010'')" "number_text (bytes ''c3d4'')"
  "hexnum (bytes ''20000010'') = 0x20000010" "hexnum (bytes ''c3d4'') = 0xc3d4"
  by code_simp+

theorem monitor_shows_word_witness:
  "\<exists>buf' n. mon_round (replicate 40 0, True) (power_on (bytes ''rw 20000010'' @ [10])) = Done (buf', True) n
    \<and> line_out n = mon_answer (bytes ''rw 20000010'') (bytes (''00000000'' @ [CR, LF]))"
proof -
  have p: "pending (power_on (bytes ''rw 20000010'' @ [10])) = (bytes ''rw '' @ bytes ''20000010'') @ 10 # []"
    by simp
  have t: "memory_order (\<lambda>_. 0) 0x20000010 = bytes ''00000000''" by code_simp
  from monitor_shows_word [OF p, of "replicate 40 0" True] typed_numbers t show ?thesis
    by (auto simp: eol_def region_def serial_def)
qed

theorem monitor_writes_witness:
  "\<exists>buf' n. mon_round (replicate 40 0, True) (power_on (bytes ''wh 20000010 c3d4'' @ [13])) = Done (buf', True) n
    \<and> mem n = set_half (\<lambda>_. 0) 0x20000010 0xc3d4"
proof -
  have p: "pending (power_on (bytes ''wh 20000010 c3d4'' @ [13]))
      = (bytes ''wh'' @ 32 # bytes ''20000010'' @ 32 # bytes ''c3d4'') @ 13 # []"
    by simp
  from monitor_writes [OF p, of "replicate 40 0" True] typed_numbers show ?thesis
    by (auto simp: eol_def region_def aligned_for_def)
qed

theorem monitor_write_overrun_witness:
  "mon_command (bytes ''ww 20000010'' @ replicate 29 0) True (power_on []) = Fault Out_Of_Bounds (power_on [])"
proof -
  have b: "bytes ''ww 20000010'' @ replicate 29 0 = line_buf ''ww'' (bytes ''20000010'') (replicate 28 0)"
    by (simp add: line_buf_def flip: replicate_Suc)
  show ?thesis
    unfolding b by (rule monitor_write_overrun [OF typed_numbers(1)]) (simp add: list_all_iff is_space_def)
qed

end
