(* ===== verification/Format.thy ===== *)
theory Format
  imports Ctype
begin

text \<open>
  The conversions of \<open>printf\<close> the programs of host and target use: decimal and hexadecimal numbers
  and their padding to a width, with the number of characters they take at most.
\<close>

text \<open>A line of text.\<close>

definition nl :: "string \<Rightarrow> u8 list" where
  "nl s = bytes s @ [10]"

section \<open>Conversions of printf\<close>

text \<open>The digits of a number in a base (\<open>%d\<close>, \<open>%lu\<close>, \<open>%lx\<close>), and padding to a width.\<close>

fun num_str :: "nat \<Rightarrow> nat \<Rightarrow> u8 list" where
  "num_str b n = (if n < b \<or> b < 2 then [hexdig 97 (of_nat n)]
     else num_str b (n div b) @ [hexdig 97 (of_nat (n mod b))])"

declare num_str.simps [simp del]

abbreviation dec_str :: "nat \<Rightarrow> u8 list" where
  "dec_str \<equiv> num_str 10"

abbreviation hex_str :: "nat \<Rightarrow> u8 list" where
  "hex_str \<equiv> num_str 16"

definition pad :: "u8 \<Rightarrow> nat \<Rightarrow> u8 list \<Rightarrow> u8 list" where
  "pad c w s = replicate (w - length s) c @ s"

text \<open>\<open>%d\<close> of an \<open>int\<close> that may be negative.\<close>

definition int_str :: "int \<Rightarrow> u8 list" where
  "int_str i = (if i < 0 then 45 # dec_str (nat (- i)) else dec_str (nat i))"

text \<open>\<open>%0\<close>\<open>w\<close>\<open>ld\<close>: the sign counts in the width.\<close>

definition zpad_int :: "nat \<Rightarrow> int \<Rightarrow> u8 list" where
  "zpad_int w i = (if i < 0 then 45 # pad 48 (w - 1) (dec_str (nat (- i))) else pad 48 w (dec_str (nat i)))"

text \<open>A pointer, as the C library of the target prints it.\<close>

definition ptr_str :: "u32 \<Rightarrow> u8 list" where
  "ptr_str p = bytes ''0x'' @ hex_str (unat p)"

section \<open>Lengths\<close>

lemma length_num_str: "n < b ^ k \<Longrightarrow> 2 \<le> b \<Longrightarrow> 0 < k \<Longrightarrow> length (num_str b n) \<le> k"
proof (induction k arbitrary: n)
  case 0
  then show ?case by simp
next
  case (Suc k)
  show ?case
  proof (cases "n < b")
    case True
    then show ?thesis by (simp add: num_str.simps [of b n])
  next
    case False
    then have "k \<noteq> 0" using Suc.prems(1) by (cases k) auto
    moreover have "n div b < b ^ k"
      using Suc.prems(1,2) by (simp add: less_mult_imp_div_less mult.commute)
    ultimately have "length (num_str b (n div b)) \<le> k" using Suc.IH Suc.prems(2) by simp
    then show ?thesis using False Suc.prems(2) by (simp add: num_str.simps [of b n])
  qed
qed

lemma hexdig_nonzero: "d < 16 \<Longrightarrow> hexdig 97 d \<noteq> 0"
  by (rule hexdig_props(4)) simp_all

lemma num_str_nonzero: "b \<le> 16 \<Longrightarrow> 2 \<le> b \<Longrightarrow> 0 \<notin> set (num_str b n)"
proof (induction b n rule: num_str.induct)
  case (1 b n)
  have digit: "hexdig 97 (of_nat k) \<noteq> 0" if "k < 16" for k
    by (rule hexdig_nonzero) (use that in \<open>simp add: word_less_nat_alt unat_of_nat take_bit_nat_eq_self\<close>)
  show ?case
  proof (cases "n < b")
    case True
    then show ?thesis using digit [of n] "1.prems" by (simp add: num_str.simps [of b n])
  next
    case False
    have "n mod b < b" using "1.prems" by simp
    then have "n mod b < 16" using "1.prems" by linarith
    then show ?thesis
      using False digit [of "n mod b"] "1.IH" "1.prems" by (simp add: num_str.simps [of b n])
  qed
qed

lemma length_pad: "length (pad c w s) = max w (length s)"
  by (simp add: pad_def)

lemma pad_nonzero: "c \<noteq> 0 \<Longrightarrow> 0 \<notin> set s \<Longrightarrow> 0 \<notin> set (pad c w s)"
  by (auto simp: pad_def)

lemma zpad_int_nonzero: "0 \<notin> set (zpad_int w i)"
  using pad_nonzero num_str_nonzero [of 10] by (simp add: zpad_int_def)

lemma int_str_nonzero: "0 \<notin> set (int_str i)"
  using num_str_nonzero [of 10] by (simp add: int_str_def)

text \<open>Numbers of \<open>k\<close> digits: padding to the same width or less does not make them longer.\<close>

lemma length_zpad_digits:
  "0 \<le> i \<Longrightarrow> i < 10 ^ k \<Longrightarrow> 0 < k \<Longrightarrow> w \<le> k \<Longrightarrow> length (zpad_int w i) \<le> k"
  using length_num_str [of "nat i" 10 k] by (simp add: zpad_int_def length_pad nat_less_iff)

lemma length_zpad_32:
  assumes "- (2 ^ 31) \<le> i" and "i < 2 ^ 31" and "w \<le> 11"
  shows "length (zpad_int w i) \<le> 11"
proof -
  have "length (dec_str (nat \<bar>i\<bar>)) \<le> 10"
    using assms(1,2) by (intro length_num_str) (simp_all add: nat_less_iff)
  then show ?thesis using assms(3) by (auto simp: zpad_int_def length_pad)
qed

end
