(* ===== verification/HostC.thy ===== *)
theory HostC
  imports Format "HOL-Library.Monad_Syntax"
begin

text \<open>
  What the programs that run on the host (\<open>srec2mif\<close>, \<open>srec2vhdl\<close>, \<open>upload\<close>) use of the C
  library: a file system, the two output streams, \<open>fgets\<close>, \<open>atoi\<close> and \<open>getopt\<close>. The host is a 64-bit machine whose \<open>char\<close> is signed.
\<close>

section \<open>Files and streams\<close>

text \<open>
  Files are known by their names. A name in \<open>unwritable\<close> cannot be opened for writing. An
  open output stream is standard output (\<open>None\<close>) or a file.
\<close>

record host =
  files :: "u8 list \<Rightarrow> u8 list option"
  unwritable :: "u8 list set"
  sout :: "u8 list"
  serr :: "u8 list"

definition eprint :: "u8 list \<Rightarrow> 'a host_scheme \<Rightarrow> 'a host_scheme" where
  "eprint s h = h\<lparr>serr := serr h @ s\<rparr>"

definition print_out :: "u8 list \<Rightarrow> 'a host_scheme \<Rightarrow> 'a host_scheme" where
  "print_out s h = h\<lparr>sout := sout h @ s\<rparr>"

definition fprint :: "u8 list option \<Rightarrow> u8 list \<Rightarrow> host \<Rightarrow> host" where
  "fprint out s h = (case out of
       None \<Rightarrow> print_out s h
     | Some n \<Rightarrow> h\<lparr>files := (files h)(n := map_option (\<lambda>t. t @ s) (files h n))\<rparr>)"

lemma fprint_fprint [simp]: "fprint out t (fprint out s h) = fprint out (s @ t) h"
  by (cases out) (simp_all add: fprint_def print_out_def option.map_comp o_def)

lemma fprint_Nil [simp]: "fprint out [] h = h"
  by (cases out) (simp_all add: fprint_def print_out_def option.map_ident)

text \<open>\<open>fgets (buffer, n, fp)\<close>: at most \<open>n - 1\<close> characters, up to and with the end of the line.\<close>

fun take_line :: "nat \<Rightarrow> u8 list \<Rightarrow> u8 list \<times> u8 list" where
  "take_line 0 inp = ([], inp)"
| "take_line (Suc n) [] = ([], [])"
| "take_line (Suc n) (c # cs) =
     (if c = 10 then ([c], cs) else (case take_line n cs of (l, rst) \<Rightarrow> (c # l, rst)))"

definition fgets :: "nat \<Rightarrow> u8 list \<Rightarrow> u8 list \<Rightarrow> (u8 list \<times> u8 list) option" where
  "fgets n buf inp = (if inp = [] then None else
     (case take_line (n - 1) inp of (l, rst) \<Rightarrow> Some (l @ 0 # drop (length l + 1) buf, rst)))"

lemma take_line_append: "fst (take_line n inp) @ snd (take_line n inp) = inp"
  by (induction n inp rule: take_line.induct) (auto split: prod.splits)

lemma take_line_whole:
  "10 \<notin> set l \<Longrightarrow> length l < n \<Longrightarrow> take_line n (l @ 10 # rst) = (l @ [10], rst)"
proof (induction l arbitrary: n)
  case Nil
  then show ?case by (cases n) simp_all
next
  case (Cons c l)
  then show ?case by (cases n) simp_all
qed

lemma length_take_line: "length (fst (take_line n inp)) \<le> n"
  by (induction n inp rule: take_line.induct) (auto split: prod.splits)

lemma fgets_shorter:
  assumes "fgets n buf inp = Some (buf', rst)" and "2 \<le> n"
  shows "length rst < length inp"
proof -
  obtain c cs where inp: "inp = c # cs"
    using assms(1) by (cases inp) (auto simp: fgets_def)
  obtain k where n: "n - 1 = Suc k" using assms(2) by (cases "n - 1") auto
  have "fst (take_line (n - 1) inp) \<noteq> []" unfolding inp n by (simp split: prod.splits)
  moreover have "rst = snd (take_line (n - 1) inp)"
    using assms(1) inp by (auto simp: fgets_def split: prod.splits)
  moreover have "length (fst (take_line (n - 1) inp)) + length (snd (take_line (n - 1) inp)) = length inp"
    using arg_cong [OF take_line_append, of length] by simp
  ultimately show ?thesis by (cases "fst (take_line (n - 1) inp)") auto
qed

lemma fgets_line:
  assumes "10 \<notin> set l" and "length l + 2 \<le> n"
  shows "fgets n buf (l @ 10 # rst) = Some (l @ 10 # 0 # drop (length l + 2) buf, rst)"
  using take_line_whole [OF assms(1), of "n - 1" rst] assms(2) by (simp add: fgets_def)

lemma fgets_length:
  assumes "fgets n buf inp = Some (buf', rst)" and "length buf = n" and "2 \<le> n"
  shows "length buf' = n"
  using assms length_take_line [of "n - 1" inp] by (auto simp: fgets_def split: if_splits prod.splits)

section \<open>atoi\<close>

text \<open>White space, a sign, digits. A value outside the range of \<open>int\<close> is undefined.\<close>

fun digits_value :: "nat \<Rightarrow> u8 list \<Rightarrow> nat" where
  "digits_value v [] = v"
| "digits_value v (c # cs) = (if is_digit c then digits_value (10 * v + unat (c - 48)) cs else v)"

definition atoi :: "u8 list \<Rightarrow> int option" where
  "atoi s = (let s = dropWhile is_space s;
       v = (if take 1 s = [45] then - int (digits_value 0 (drop 1 s))
            else if take 1 s = [43] then int (digits_value 0 (drop 1 s))
            else int (digits_value 0 s))
     in if - (2 ^ 31) \<le> v \<and> v < 2 ^ 31 then Some v else None)"

section \<open>getopt\<close>

text \<open>
  What \<open>getopt\<close> reports: an option with its argument (empty when it takes none), a letter that
  is no option, an option whose argument is missing.
\<close>

datatype opt_event = Option u8 "u8 list" | Unknown u8 | Missing u8

text \<open>\<open>Some True\<close>: the letter is an option that takes an argument.\<close>

fun opt_kind :: "u8 list \<Rightarrow> u8 \<Rightarrow> bool option" where
  "opt_kind [] c = None"
| "opt_kind (d # ds) c = (if d = c \<and> c \<noteq> 58 then Some (take 1 ds = [58]) else opt_kind ds c)"

text \<open>The letters of one word of the command line; the words after it may hold an argument.\<close>

fun opt_word :: "u8 list \<Rightarrow> u8 list \<Rightarrow> u8 list list \<Rightarrow> opt_event list \<times> u8 list list" where
  "opt_word os [] ws = ([], ws)"
| "opt_word os (c # cs) ws = (case opt_kind os c of
       None \<Rightarrow> (case opt_word os cs ws of (es, r) \<Rightarrow> (Unknown c # es, r))
     | Some False \<Rightarrow> (case opt_word os cs ws of (es, r) \<Rightarrow> (Option c [] # es, r))
     | Some True \<Rightarrow> (if cs \<noteq> [] then ([Option c cs], ws)
         else (case ws of [] \<Rightarrow> ([Missing c], []) | w # r \<Rightarrow> ([Option c w], r))))"

lemma opt_word_length: "length (snd (opt_word os cs ws)) \<le> length ws"
  by (induction os cs ws rule: opt_word.induct) (auto split: option.splits bool.splits prod.splits list.splits)

lemma opt_word_shorter: "(es, r) = opt_word os cs ws \<Longrightarrow> length r < Suc (length ws)"
  using opt_word_length [of os cs ws] by (simp add: less_Suc_eq_le prod_eq_iff)

text \<open>
  The whole command line: the events, and the words in the order \<open>getopt\<close> leaves them in, those
  of the options first and the operands after them.
\<close>

function getopt :: "u8 list \<Rightarrow> u8 list list \<Rightarrow> opt_event list \<times> u8 list list \<times> u8 list list" where
  "getopt os [] = ([], [], [])"
| "getopt os (w # ws) =
     (if w = [45, 45] then ([], [w], ws)
      else if take 1 w = [45] \<and> w \<noteq> [45] then
        (case opt_word os (drop 1 w) ws of (es, r) \<Rightarrow>
         (case getopt os r of (es', opts, ops) \<Rightarrow>
            (es @ es', w # take (length ws - length r) ws @ opts, ops)))
      else (case getopt os ws of (es, opts, ops) \<Rightarrow> (es, opts, w # ops)))"
  by pat_completeness auto
termination
  by (relation "measure (length \<circ> snd)") (auto dest: opt_word_shorter)

text \<open>A word of the command line that is not an option.\<close>

definition operand :: "u8 list \<Rightarrow> bool" where
  "operand w \<longleftrightarrow> take 1 w \<noteq> [45]"

lemma getopt_operands: "list_all operand ws \<Longrightarrow> getopt os ws = ([], [], ws)"
  by (induction ws) (auto simp: operand_def)

text \<open>What \<open>getopt\<close> itself prints for a word it cannot use.\<close>

fun opt_complaint :: "u8 list \<Rightarrow> opt_event \<Rightarrow> u8 list" where
  "opt_complaint prog (Option c a) = []"
| "opt_complaint prog (Unknown c) = prog @ bytes '': invalid option -- '' @ [39, c, 39, 10]"
| "opt_complaint prog (Missing c) = prog @ bytes '': option requires an argument -- '' @ [39, c, 39, 10]"

text \<open>The value \<open>getopt\<close> returns.\<close>

fun opt_char :: "opt_event \<Rightarrow> u8" where
  "opt_char (Option c a) = c"
| "opt_char (Unknown c) = 63"
| "opt_char (Missing c) = 63"

text \<open>What the programs say about it before they exit.\<close>

definition unknown_option :: "u8 \<Rightarrow> u8 list" where
  "unknown_option c = bytes ''Unknown option '' @ [39, c, 39, 10]"

fun opt_arg :: "opt_event \<Rightarrow> u8 list" where
  "opt_arg (Option c a) = a"
| "opt_arg (Unknown c) = []"
| "opt_arg (Missing c) = []"

section \<open>Hexadecimal fields\<close>

text \<open>
  \<open>hex2\<close>, \<open>hex4\<close>, \<open>hex6\<close> and \<open>hex8\<close> of the two converters: a pointer into the line buffer is the
  buffer and an index, the letters are replaced by capitals in the buffer, and an access outside
  it is \<open>None\<close>.
\<close>

definition digit_val :: "u8 \<Rightarrow> u64" where
  "digit_val c = scast c - (if 65 \<le>s c then 65 - 10 else 48)"

definition hex2 :: "nat \<Rightarrow> u8 list \<Rightarrow> (u64 \<times> u8 list) option" where
  "hex2 p buf = (if p + 1 < length buf then
     (let buf = buf[p := to_upper (buf ! p)];
          buf = buf[p + 1 := to_upper (buf ! (p + 1))];
          val = push_bit 4 (digit_val (buf ! p)) + digit_val (buf ! (p + 1))
      in Some (val, buf)) else None)"

definition hex4 :: "nat \<Rightarrow> u8 list \<Rightarrow> (u64 \<times> u8 list) option" where
  "hex4 p buf = do {
     (a, buf) \<leftarrow> hex2 p buf;
     (b, buf) \<leftarrow> hex2 (p + 2) buf;
     Some (push_bit 8 a + b, buf) }"

definition hex6 :: "nat \<Rightarrow> u8 list \<Rightarrow> (u64 \<times> u8 list) option" where
  "hex6 p buf = do {
     (a, buf) \<leftarrow> hex2 p buf;
     (b, buf) \<leftarrow> hex2 (p + 2) buf;
     (c, buf) \<leftarrow> hex2 (p + 4) buf;
     Some (push_bit 16 a + push_bit 8 b + c, buf) }"

definition hex8 :: "nat \<Rightarrow> u8 list \<Rightarrow> (u64 \<times> u8 list) option" where
  "hex8 p buf = do {
     (a, buf) \<leftarrow> hex2 p buf;
     (b, buf) \<leftarrow> hex2 (p + 2) buf;
     (c, buf) \<leftarrow> hex2 (p + 4) buf;
     (d, buf) \<leftarrow> hex2 (p + 6) buf;
     Some (push_bit 24 a + push_bit 16 b + push_bit 8 c + d, buf) }"

lemma hex2_Some: "hex2 p buf = Some (v, buf') \<Longrightarrow> length buf' = length buf \<and> p + 1 < length buf"
  by (auto simp: hex2_def Let_def split: if_splits)

text \<open>
  The loops \<open>for (i = 0; i < val; i++) { ... hex2 (buffer + p + i * 2) ... }\<close> of the two programs
  differ in what they do with a byte.
\<close>

function for_bytes :: "(u64 \<Rightarrow> 's \<Rightarrow> 's option) \<Rightarrow> nat \<Rightarrow> nat \<Rightarrow> u64 \<Rightarrow> u8 list \<Rightarrow> 's
    \<Rightarrow> (u8 list \<times> 's) option" where
  "for_bytes f p i val buf s =
     (if of_nat i < val then
        (case hex2 (p + i * 2) buf of
           None \<Rightarrow> None
         | Some (b, buf) \<Rightarrow> (case f b s of None \<Rightarrow> None | Some s \<Rightarrow> for_bytes f p (i + 1) val buf s))
      else Some (buf, s))"
  by pat_completeness auto
termination
proof (relation "measure (\<lambda>(f, p, i, val, buf, s). length buf - i)")
  fix f :: "u64 \<Rightarrow> 's \<Rightarrow> 's option" and p i val and buf :: "u8 list" and s bb b buf' s'
  assume "hex2 (p + i * 2) buf = Some bb" "(b, buf') = bb"
  then have "length buf' = length buf" "i < length buf" using hex2_Some [of "p + i * 2" buf b buf'] by auto
  then show "((f, p, i + 1, val, buf', s'), (f, p, i, val, buf, s))
      \<in> measure (\<lambda>(f, p, i, val, buf, s). length buf - i)" by simp
qed simp

declare for_bytes.simps [simp del]

section \<open>Messages of the converters\<close>

definition note_line :: "bool \<Rightarrow> u8 list \<Rightarrow> u8 list \<Rightarrow> host \<Rightarrow> (u8 list \<times> host) option" where
  "note_line verbose msg buf h = Some (buf, if verbose then eprint msg h else h)"

text \<open>The vendor text of an S0 record, on standard error.\<close>

definition vendor_text :: "bool \<Rightarrow> u64 \<Rightarrow> u8 list \<Rightarrow> host \<Rightarrow> (u8 list \<times> host) option" where
  "vendor_text verbose val buf h = (if verbose then do {
       (buf, h) \<leftarrow> for_bytes (\<lambda>c h. Some (eprint [ucast c] h)) 8 0 val buf
                    (eprint (bytes ''Vendor text: '') h);
       Some (buf, eprint [10] h) }
     else Some (buf, h))"

end
