(* ===== verification/HostHex.thy ===== *)
theory HostHex
  imports HostC SrecText
begin

text \<open>
  The hexadecimal fields as the converters of the host read them: the value of a field depends
  on the line only up to the case of its letters, so capitalising them in the buffer is harmless,
  and on hexadecimal digits it is the number the parsers of the target read.
\<close>

section \<open>The number of a run of digits\<close>

definition digits_num :: "u8 list \<Rightarrow> nat" where
  "digits_num ds = foldl (\<lambda>n c. 16 * n + unat (hexval c)) 0 ds"

lemma hexval_less: "is_xdigit c \<Longrightarrow> unat (hexval c) < 16"
  using digit_ok [of c] by (simp add: digit_ok_def word_less_nat_alt)

lemma digits_num_append: "digits_num (xs @ [c]) = 16 * digits_num xs + unat (hexval c)"
  by (simp add: digits_num_def)

lemma digits_num_less: "list_all is_xdigit ds \<Longrightarrow> digits_num ds < 16 ^ length ds"
proof (induction ds rule: rev_induct)
  case Nil
  then show ?case by (simp add: digits_num_def)
next
  case (snoc c ds)
  then have "digits_num ds + 1 \<le> 16 ^ length ds" and "unat (hexval c) < 16"
    using hexval_less [of c] by simp_all
  then show ?case by (simp add: digits_num_append)
qed

lemma unat_hexnum:
  assumes "list_all is_xdigit ds" and "length ds \<le> 8"
  shows "unat (hexnum ds) = digits_num ds"
  using assms
proof (induction ds rule: rev_induct)
  case Nil
  then show ?case by (simp add: hexnum_def digits_num_def)
next
  case (snoc c ds)
  have c: "hexval c < 16" using digit_ok [of c] snoc.prems by (simp add: digit_ok_def)
  have e: "hexnum (ds @ [c]) = hexnum ds * 16 + hexval c"
    by (simp add: hexnum_append hexstep_def digit_add [OF c])
  have "digits_num (ds @ [c]) < 16 ^ length (ds @ [c])"
    using digits_num_less [of "ds @ [c]"] snoc.prems by simp
  also have "(16::nat) ^ length (ds @ [c]) \<le> 16 ^ 8"
    by (rule power_increasing) (use snoc.prems in simp_all)
  finally have "16 * digits_num ds + unat (hexval c) < 2 ^ 32" by (simp add: digits_num_append)
  moreover have "unat (hexnum ds) = digits_num ds" using snoc by simp
  ultimately show ?case
    unfolding e digits_num_append by (simp add: unat_word_ariths mult.commute)
qed

section \<open>One byte\<close>

definition host_digit_ok :: "u8 \<Rightarrow> bool" where
  "host_digit_ok c \<longleftrightarrow> unat (digit_val (to_upper c)) = unat (hexval c)"

lemma host_digit_ok_all: "list_all host_digit_ok (map of_nat ([48..<58] @ [65..<71] @ [97..<103]))"
  by code_simp

lemma digit_val_hexval: "is_xdigit c \<Longrightarrow> unat (digit_val (to_upper c)) = unat (hexval c)"
  using bspec [OF host_digit_ok_all [unfolded list_all_iff] xdigit_cases, of c]
  by (simp add: host_digit_ok_def)

lemma to_upper_idem [simp]: "to_upper (to_upper c) = to_upper c"
proof (cases "97 \<le> c \<and> c \<le> 122")
  case True
  then have "unat (c - 32) = unat c - 32" by (simp add: unat_sub word_le_nat_alt)
  then show ?thesis using True by (auto simp: to_upper_def word_le_nat_alt)
qed (simp add: to_upper_def)

text \<open>Two buffers that differ in the case of letters only.\<close>

abbreviation caseless :: "u8 list \<Rightarrow> u8 list \<Rightarrow> bool" where
  "caseless buf buf' \<equiv> map to_upper buf = map to_upper buf'"

definition byte_at :: "nat \<Rightarrow> u8 list \<Rightarrow> u64" where
  "byte_at p buf = push_bit 4 (digit_val (to_upper (buf ! p))) + digit_val (to_upper (buf ! (p + 1)))"

lemma caseless_nth: "caseless buf buf' \<Longrightarrow> p < length buf \<Longrightarrow> to_upper (buf ! p) = to_upper (buf' ! p)"
  by (metis map_eq_imp_length_eq nth_map)

lemma caseless_length: "caseless buf buf' \<Longrightarrow> length buf = length buf'"
  by (rule map_eq_imp_length_eq)

lemma caseless_byte_at: "caseless buf buf' \<Longrightarrow> p + 1 < length buf \<Longrightarrow> byte_at p buf = byte_at p buf'"
  using caseless_nth [of buf buf' p] caseless_nth [of buf buf' "p + 1"] by (simp add: byte_at_def)

lemma hex2_byte:
  assumes "p + 1 < length buf"
  shows "\<exists>buf'. hex2 p buf = Some (byte_at p buf, buf') \<and> caseless buf' buf"
proof -
  let ?b = "buf[p := to_upper (buf ! p), p + 1 := to_upper (buf ! (p + 1))]"
  have "hex2 p buf = Some (byte_at p buf, ?b)"
    using assms by (simp add: hex2_def byte_at_def nth_list_update)
  moreover have "caseless ?b buf"
    using assms by (intro nth_equalityI) (auto simp: nth_list_update)
  ultimately show ?thesis by blast
qed

lemma hex2_caseless:
  assumes "caseless buf buf0" and "p + 1 < length buf0"
  shows "\<exists>buf'. hex2 p buf = Some (byte_at p buf0, buf') \<and> caseless buf' buf0"
  using hex2_byte [of p buf] assms caseless_byte_at [OF assms(1), of p] caseless_length [OF assms(1)]
  by auto

lemma byte_at_digits:
  assumes "p + 1 < length buf" and "is_xdigit (buf ! p)" and "is_xdigit (buf ! (p + 1))"
  shows "unat (byte_at p buf) = digits_num [buf ! p, buf ! (p + 1)]"
proof -
  let ?a = "digit_val (to_upper (buf ! p))" and ?b = "digit_val (to_upper (buf ! (p + 1)))"
  have "unat ?a = unat (hexval (buf ! p))" "unat ?b = unat (hexval (buf ! (p + 1)))"
    using assms by (simp_all add: digit_val_hexval)
  moreover have "unat (hexval (buf ! p)) < 16" "unat (hexval (buf ! (p + 1))) < 16"
    using assms by (simp_all add: hexval_less)
  moreover have "push_bit 4 ?a = ?a * 16" by (simp add: push_bit_eq_mult)
  ultimately show ?thesis
    by (simp add: byte_at_def digits_num_def unat_word_ariths mult.commute)
qed

section \<open>Fields\<close>

text \<open>The text \<open>ds\<close> stands at index \<open>p\<close> of the buffer.\<close>

definition stands_at :: "u8 list \<Rightarrow> nat \<Rightarrow> u8 list \<Rightarrow> bool" where
  "stands_at ds p buf \<longleftrightarrow> take (length ds) (drop p buf) = ds"

lemma stands_at_Cons: "stands_at (c # cs) p buf \<longleftrightarrow> p < length buf \<and> buf ! p = c \<and> stands_at cs (p + 1) buf"
proof (cases "p < length buf")
  case True
  then have "drop p buf = buf ! p # drop (Suc p) buf" by (simp add: Cons_nth_drop_Suc)
  then show ?thesis using True by (simp add: stands_at_def)
qed (simp add: stands_at_def)

lemma stands_at_Nil [simp]: "stands_at [] p buf"
  by (simp add: stands_at_def)

lemma stands_at_append:
  "stands_at (xs @ ys) p buf \<longleftrightarrow> stands_at xs p buf \<and> stands_at ys (p + length xs) buf"
  by (induction xs arbitrary: p) (auto simp: stands_at_Cons)

lemma stands_atI: "length xs = n \<Longrightarrow> buf = xs @ ds @ ys \<Longrightarrow> stands_at ds n buf"
  by (auto simp: stands_at_def)

lemma hex2_digits:
  assumes "caseless buf buf0" and "stands_at [c, d] p buf0" and "is_xdigit c" "is_xdigit d"
  shows "\<exists>v buf'. hex2 p buf = Some (v, buf') \<and> caseless buf' buf0 \<and> unat v = digits_num [c, d]"
proof -
  have "p + 1 < length buf0" "buf0 ! p = c" "buf0 ! (p + 1) = d"
    using assms(2) by (auto simp: stands_at_Cons)
  then show ?thesis
    using hex2_caseless [OF assms(1), of p] byte_at_digits [of p buf0] assms(3,4) by auto
qed

lemmas digit_runs = digits_num_def stands_at_Cons unat_word_ariths push_bit_eq_mult

text \<open>
  Two, four, six or eight hexadecimal digits: the value is the number they denote.
\<close>

lemma hex4_digits:
  assumes "caseless buf buf0" and "stands_at ds p buf0" and "length ds = 4" and "list_all is_xdigit ds"
  shows "\<exists>v buf'. hex4 p buf = Some (v, buf') \<and> caseless buf' buf0 \<and> unat v = digits_num ds"
proof -
  obtain a b c d where ds: "ds = [a, b, c, d]"
    using assms(3) by (auto simp: length_Suc_conv numeral_eq_Suc)
  have at: "stands_at [a, b] p buf0" "stands_at [c, d] (p + 2) buf0"
    using assms(2) by (simp_all add: ds stands_at_Cons)
  obtain v1 b1 where 1: "hex2 p buf = Some (v1, b1)" "caseless b1 buf0" "unat v1 = digits_num [a, b]"
    using hex2_digits [OF assms(1) at(1)] assms(4) by (auto simp: ds)
  obtain v2 b2 where 2: "hex2 (p + 2) b1 = Some (v2, b2)" "caseless b2 buf0" "unat v2 = digits_num [c, d]"
    using hex2_digits [OF 1(2) at(2)] assms(4) by (auto simp: ds)
  have "digits_num [a, b] < 16 ^ length [a, b]" "digits_num [c, d] < 16 ^ length [c, d]"
    by (rule digits_num_less; use assms(4) in \<open>simp add: ds\<close>)+
  then have "unat (push_bit 8 v1 + v2) = digits_num ds"
    using 1(3) 2(3) by (simp add: ds digit_runs)
  then show ?thesis using 1 2 by (simp add: hex4_def)
qed

lemma hex6_digits:
  assumes "caseless buf buf0" and "stands_at ds p buf0" and "length ds = 6" and "list_all is_xdigit ds"
  shows "\<exists>v buf'. hex6 p buf = Some (v, buf') \<and> caseless buf' buf0 \<and> unat v = digits_num ds"
proof -
  obtain a b c d e f where ds: "ds = [a, b, c, d, e, f]"
    using assms(3) by (auto simp: length_Suc_conv numeral_eq_Suc)
  have at: "stands_at [a, b] p buf0" "stands_at [c, d] (p + 2) buf0" "stands_at [e, f] (p + 4) buf0"
    using assms(2) by (simp_all add: ds stands_at_Cons eval_nat_numeral)
  obtain v1 b1 where 1: "hex2 p buf = Some (v1, b1)" "caseless b1 buf0" "unat v1 = digits_num [a, b]"
    using hex2_digits [OF assms(1) at(1)] assms(4) by (auto simp: ds)
  obtain v2 b2 where 2: "hex2 (p + 2) b1 = Some (v2, b2)" "caseless b2 buf0" "unat v2 = digits_num [c, d]"
    using hex2_digits [OF 1(2) at(2)] assms(4) by (auto simp: ds)
  obtain v3 b3 where 3: "hex2 (p + 4) b2 = Some (v3, b3)" "caseless b3 buf0" "unat v3 = digits_num [e, f]"
    using hex2_digits [OF 2(2) at(3)] assms(4) by (auto simp: ds)
  have "digits_num [a, b] < 16 ^ length [a, b]" "digits_num [c, d] < 16 ^ length [c, d]"
    "digits_num [e, f] < 16 ^ length [e, f]"
    by (rule digits_num_less; use assms(4) in \<open>simp add: ds\<close>)+
  then have "unat (push_bit 16 v1 + push_bit 8 v2 + v3) = digits_num ds"
    using 1(3) 2(3) 3(3) by (simp add: ds digit_runs)
  then show ?thesis using 1 2 3 by (simp add: hex6_def)
qed

lemma hex8_digits:
  assumes "caseless buf buf0" and "stands_at ds p buf0" and "length ds = 8" and "list_all is_xdigit ds"
  shows "\<exists>v buf'. hex8 p buf = Some (v, buf') \<and> caseless buf' buf0 \<and> unat v = digits_num ds"
proof -
  obtain a b c d e f g h where ds: "ds = [a, b, c, d, e, f, g, h]"
    using assms(3) by (auto simp: length_Suc_conv numeral_eq_Suc)
  have at: "stands_at [a, b] p buf0" "stands_at [c, d] (p + 2) buf0" "stands_at [e, f] (p + 4) buf0"
    "stands_at [g, h] (p + 6) buf0"
    using assms(2) by (simp_all add: ds stands_at_Cons eval_nat_numeral)
  obtain v1 b1 where 1: "hex2 p buf = Some (v1, b1)" "caseless b1 buf0" "unat v1 = digits_num [a, b]"
    using hex2_digits [OF assms(1) at(1)] assms(4) by (auto simp: ds)
  obtain v2 b2 where 2: "hex2 (p + 2) b1 = Some (v2, b2)" "caseless b2 buf0" "unat v2 = digits_num [c, d]"
    using hex2_digits [OF 1(2) at(2)] assms(4) by (auto simp: ds)
  obtain v3 b3 where 3: "hex2 (p + 4) b2 = Some (v3, b3)" "caseless b3 buf0" "unat v3 = digits_num [e, f]"
    using hex2_digits [OF 2(2) at(3)] assms(4) by (auto simp: ds)
  obtain v4 b4 where 4: "hex2 (p + 6) b3 = Some (v4, b4)" "caseless b4 buf0" "unat v4 = digits_num [g, h]"
    using hex2_digits [OF 3(2) at(4)] assms(4) by (auto simp: ds)
  have "digits_num [a, b] < 16 ^ length [a, b]" "digits_num [c, d] < 16 ^ length [c, d]"
    "digits_num [e, f] < 16 ^ length [e, f]" "digits_num [g, h] < 16 ^ length [g, h]"
    by (rule digits_num_less; use assms(4) in \<open>simp add: ds\<close>)+
  then have "unat (push_bit 24 v1 + push_bit 16 v2 + push_bit 8 v3 + v4) = digits_num ds"
    using 1(3) 2(3) 3(3) 4(3) by (simp add: ds digit_runs)
  then show ?thesis using 1 2 3 4 by (simp add: hex8_def)
qed

lemma unat_ucast_u32_u64 [simp]: "unat (ucast (x::u32) :: u64) = unat x"
  using unsigned_less [of x, where 'a = nat] by (simp add: unsigned_ucast_eq take_bit_nat_eq_self_iff)

lemma ucast_u8_u32_u64 [simp]: "(ucast (ucast (d::u8) :: u32) :: u64) = ucast d"
  by (rule bit_word_eqI) (auto simp: bit_simps dest: bit_imp_le_length)

text \<open>The value of a field is the number the target reads from the same digits.\<close>

lemma field_value:
  assumes "unat (v::u64) = digits_num ds" and "list_all is_xdigit ds" and "length ds \<le> 8"
  shows "v = ucast (hexnum ds)"
proof -
  have "unat (ucast (hexnum ds) :: u64) = unat (hexnum ds)" by (rule unat_ucast_u32_u64)
  then show ?thesis using assms unat_hexnum [OF assms(2,3)] by (simp add: word_unat_eq_iff)
qed

lemma hex_field:
  assumes "caseless buf buf0" and "stands_at ds p buf0" and "list_all is_xdigit ds"
  shows hex2_field: "length ds = 2 \<Longrightarrow> \<exists>buf'. hex2 p buf = Some (ucast (hexnum ds), buf') \<and> caseless buf' buf0"
    and hex4_field: "length ds = 4 \<Longrightarrow> \<exists>buf'. hex4 p buf = Some (ucast (hexnum ds), buf') \<and> caseless buf' buf0"
    and hex6_field: "length ds = 6 \<Longrightarrow> \<exists>buf'. hex6 p buf = Some (ucast (hexnum ds), buf') \<and> caseless buf' buf0"
    and hex8_field: "length ds = 8 \<Longrightarrow> \<exists>buf'. hex8 p buf = Some (ucast (hexnum ds), buf') \<and> caseless buf' buf0"
proof -
  assume n: "length ds = 2"
  then obtain c d where "ds = [c, d]" by (auto simp: length_Suc_conv numeral_eq_Suc)
  then show "\<exists>buf'. hex2 p buf = Some (ucast (hexnum ds), buf') \<and> caseless buf' buf0"
    using hex2_digits [OF assms(1), of c d p] assms field_value [OF _ assms(3)] n by fastforce
next
  assume n: "length ds = 4"
  show "\<exists>buf'. hex4 p buf = Some (ucast (hexnum ds), buf') \<and> caseless buf' buf0"
    using hex4_digits [OF assms(1,2) n assms(3)] field_value [OF _ assms(3)] n by fastforce
next
  assume n: "length ds = 6"
  show "\<exists>buf'. hex6 p buf = Some (ucast (hexnum ds), buf') \<and> caseless buf' buf0"
    using hex6_digits [OF assms(1,2) n assms(3)] field_value [OF _ assms(3)] n by fastforce
next
  assume n: "length ds = 8"
  show "\<exists>buf'. hex8 p buf = Some (ucast (hexnum ds), buf') \<and> caseless buf' buf0"
    using hex8_digits [OF assms(1,2) n assms(3)] field_value [OF _ assms(3)] n by fastforce
qed

section \<open>The data of a record\<close>

fun feed :: "(u64 \<Rightarrow> 's \<Rightarrow> 's option) \<Rightarrow> u8 list \<Rightarrow> 's \<Rightarrow> 's option" where
  "feed f [] s = Some s"
| "feed f (d # ds) s = (case f (ucast d) s of None \<Rightarrow> None | Some s \<Rightarrow> feed f ds s)"

lemma of_nat_less_word:
  "i \<le> n \<Longrightarrow> n < 2 ^ 64 \<Longrightarrow> (of_nat i :: u64) < of_nat n \<longleftrightarrow> i < n"
  by (simp add: word_less_nat_alt unat_of_nat take_bit_nat_eq_self)

lemma stands_at_hex_bytes:
  assumes "stands_at (hex_bytes ds) p buf" and "i < length ds"
  shows "stands_at (hexstr 65 2 (ucast (ds ! i))) (p + i * 2) buf"
  using assms
proof (induction ds arbitrary: p i)
  case Nil
  then show ?case by simp
next
  case (Cons d ds)
  have "stands_at (hexstr 65 2 (ucast d)) p buf" and rst: "stands_at (hex_bytes ds) (p + 2) buf"
    using Cons.prems(1) by (simp_all add: stands_at_append del: hexstr.simps)
  then show ?case using Cons.prems(2) Cons.IH [OF rst] by (cases i) (simp_all del: hexstr.simps)
qed

lemma for_bytes_data:
  assumes "stands_at (hex_bytes ds) p buf0" and "length ds < 2 ^ 64"
    and "caseless buf buf0" and "i \<le> length ds"
  shows "\<exists>buf'. caseless buf' buf0 \<and>
    for_bytes f p i (of_nat (length ds)) buf s = map_option (Pair buf') (feed f (drop i ds) s)"
  using assms(3,4)
proof (induction "length ds - i" arbitrary: i buf s)
  case 0
  then show ?case
    using of_nat_less_word [of i "length ds"] assms(2) by (auto simp: for_bytes.simps)
next
  case (Suc k)
  then have i: "i < length ds" by simp
  let ?ds = "hexstr 65 2 (ucast (ds ! i))"
  have "list_all is_xdigit ?ds" using set_hexstr [of 65 2 "ucast (ds ! i)"] by (auto simp: list_all_iff)
  then obtain b where b: "hex2 (p + i * 2) buf = Some (ucast (ds ! i), b)" "caseless b buf0"
    using hex2_field [OF Suc.prems(1) stands_at_hex_bytes [OF assms(1) i]] by (auto simp del: hexstr.simps)
  have d: "drop i ds = ds ! i # drop (i + 1) ds" using i by (simp add: Cons_nth_drop_Suc)
  show ?case
  proof (cases "f (ucast (ds ! i)) s")
    case None
    then show ?thesis
      using b i d assms(2) of_nat_less_word [of i "length ds"] by (auto simp: for_bytes.simps)
  next
    case (Some s')
    obtain buf' where "caseless buf' buf0" "for_bytes f p (i + 1) (of_nat (length ds)) b s'
        = map_option (Pair buf') (feed f (drop (i + 1) ds) s')"
      using Suc.hyps(1) [OF _ b(2), of "i + 1" s'] Suc.hyps(2) i by fastforce
    then show ?thesis
      using b i d Some assms(2) of_nat_less_word [of i "length ds"] by (auto simp: for_bytes.simps [of f p i])
  qed
qed

text \<open>A count larger than the rest of the buffer leaves it.\<close>

lemma for_bytes_overrun:
  "p + i * 2 \<le> length buf \<Longrightarrow> length buf < p + 2 * unat val \<Longrightarrow> for_bytes f p i val buf s = None"
proof (induction f p i val buf s rule: for_bytes.induct)
  case (1 f p i val buf s)
  have "i < unat val" using "1.prems" by linarith
  then have less: "of_nat i < val"
    using unsigned_less [of val, where 'a = nat]
    by (simp add: word_less_nat_alt unat_of_nat take_bit_nat_eq_self)
  show ?case
  proof (cases "hex2 (p + i * 2) buf")
    case (Some r)
    obtain b buf' where r: "r = (b, buf')" by (cases r)
    have l: "length buf' = length buf" "p + i * 2 + 1 < length buf"
      using hex2_Some [of "p + i * 2" buf b buf'] Some r by simp_all
    show ?thesis
      using "1.IH" [OF less Some r [symmetric]] l "1.prems" less Some r
      by (cases "f b s") (simp_all add: for_bytes.simps [of f p i])
  qed (simp add: less for_bytes.simps)
qed

section \<open>Record lines in the buffer\<close>

lemma record_count:
  assumes "n < 256"
  shows "ucast (hexnum (hexstr 65 2 (of_nat n))) = (of_nat n :: u64)"
proof -
  have "hexnum (hexstr 65 2 (of_nat n)) = of_nat n"
    using assms hexnum_hexstr [of 65 2 "of_nat n"]
    by (simp add: word_unat_eq_iff unsigned_take_bit_eq take_bit_nat_eq_self unat_of_nat del: hexstr.simps)
  moreover have "unat (of_nat n :: u32) = n" "unat (of_nat n :: u64) = n"
    using assms by (simp_all add: unat_of_nat take_bit_nat_eq_self)
  ultimately show ?thesis by (simp add: word_unat_eq_iff del: hexstr.simps)
qed

lemma xdigits_hexstr: "list_all is_xdigit (hexstr 65 n v)"
  using set_hexstr [of 65 n v] by (auto simp: list_all_iff)

lemma data_fields_at:
  assumes "buf = srec_body (Data t a ds rst) @ behind"
  shows "stands_at (hexstr 65 2 (of_nat (length ds + t + 2))) 2 buf"
    and "stands_at (hexstr 65 (2 * t + 2) a) 4 buf"
    and "stands_at (hex_bytes ds) (2 * t + 6) buf"
proof -
  let ?c = "hexstr 65 2 (of_nat (length ds + t + 2))" and ?a = "hexstr 65 (2 * t + 2) a"
  show "stands_at ?c 2 buf"
    by (rule stands_atI [of "[83, 48 + of_nat t]" _ _ _ "?a @ hex_bytes ds @ rst @ behind"])
      (simp_all add: assms del: hexstr.simps)
  show "stands_at ?a 4 buf"
    by (rule stands_atI [of "[83, 48 + of_nat t] @ ?c" _ _ _ "hex_bytes ds @ rst @ behind"])
      (simp_all add: assms del: hexstr.simps)
  show "stands_at (hex_bytes ds) (2 * t + 6) buf"
    by (rule stands_atI [of "[83, 48 + of_nat t] @ ?c @ ?a" _ _ _ "rst @ behind"])
      (simp_all add: assms del: hexstr.simps)
qed

text \<open>Reading the count and then the address of a data record.\<close>

lemma data_count:
  assumes "buf = srec_body (Data t a ds rst) @ behind" and "length ds + t + 2 < 256"
  shows "\<exists>b. hex2 2 buf = Some (of_nat (length ds + t + 2), b) \<and> caseless b buf"
  using hex2_field [OF refl data_fields_at(1) [OF assms(1)] xdigits_hexstr] record_count [OF assms(2)]
  by (simp del: hexstr.simps of_nat_add)

lemma data_address:
  assumes "buf = srec_body (Data t a ds rst) @ behind" and "caseless b buf"
  shows data_address1: "t = 1 \<Longrightarrow> \<exists>b'. hex4 4 b = Some (ucast (field t a), b') \<and> caseless b' buf"
    and data_address2: "t = 2 \<Longrightarrow> \<exists>b'. hex6 4 b = Some (ucast (field t a), b') \<and> caseless b' buf"
    and data_address3: "t = 3 \<Longrightarrow> \<exists>b'. hex8 4 b = Some (ucast (field t a), b') \<and> caseless b' buf"
  using hex4_field [OF assms(2) data_fields_at(2) [OF assms(1)] xdigits_hexstr]
    hex6_field [OF assms(2) data_fields_at(2) [OF assms(1)] xdigits_hexstr]
    hex8_field [OF assms(2) data_fields_at(2) [OF assms(1)] xdigits_hexstr]
    hexnum_field [of t a]
  by (simp_all del: hexstr.simps)

lemma no_newline_hex: "10 \<notin> set (hexstr 65 n v)"
  using set_hexstr [of 65 n v] by auto

lemma no_newline_hex_bytes: "10 \<notin> set (hex_bytes ds)"
  by (induction ds) (simp_all add: no_newline_hex del: hexstr.simps)

lemma no_newline_body: "wf_srec r \<Longrightarrow> 10 \<notin> set (srec_body r)"
  by (cases r) (auto simp: no_newline_hex no_newline_hex_bytes simp del: hexstr.simps)

text \<open>The line of a record with its end fits into a buffer of \<open>n\<close> characters.\<close>

definition fits :: "nat \<Rightarrow> srec \<Rightarrow> bool" where
  "fits n r \<longleftrightarrow> length (srec_body r) + 2 \<le> n"

lemma fgets_record:
  assumes "wf_srec r" and "fits n r"
  shows "fgets n buf (srec_line r @ inp) = Some (srec_body r @ 10 # 0 # drop (length (srec_body r) + 2) buf, inp)"
  using fgets_line [OF no_newline_body [OF assms(1)], of n buf inp] assms(2)
  by (simp add: srec_line_def fits_def)

lemma srec_text_Cons [simp]: "srec_text (r # rs) = srec_line r @ srec_text rs"
  and srec_text_Nil [simp]: "srec_text [] = []"
  by (simp_all add: srec_text_def)

lemma fgets_eof [simp]: "fgets n buf [] = None"
  by (simp add: fgets_def)

section \<open>The parsers of host and target\<close>

text \<open>The function that reads a field of \<open>n\<close> digits.\<close>

definition hex_of_width :: "nat \<Rightarrow> nat \<Rightarrow> u8 list \<Rightarrow> (u64 \<times> u8 list) option" where
  "hex_of_width n = (if n = 2 then hex2 else if n = 4 then hex4 else if n = 6 then hex6 else hex8)"

text \<open>C30: On hexadecimal digits of either case the parsers hex2, hex4, hex6 and hex8 of the host
  compute the number the parsers of the target read, and change the buffer in the case of
  letters only.\<close>

theorem host_hex_agrees:
  assumes "length ds \<in> {2, 4, 6, 8}" and "list_all is_xdigit ds" and "stands_at ds p buf"
  shows "\<exists>buf'. hex_of_width (length ds) p buf = Some (ucast (hexnum ds), buf') \<and> caseless buf' buf"
  using assms(1) hex_field [OF refl assms(3,2)] by (auto simp: hex_of_width_def)

theorem host_hex_agrees_witness:
  "\<exists>buf'. hex_of_width (length (bytes ''00fE'')) 1 (bytes ''S00fE;'') = Some (ucast (hexnum (bytes ''00fE'')), buf')
     \<and> caseless buf' (bytes ''S00fE;'')"
  by (rule host_hex_agrees) (simp_all add: is_xdigit_def is_digit_def stands_at_def)

section \<open>A sample file\<close>

definition sample_records :: "srec list" where
  "sample_records = [Other 48 [], Data 1 0x8000 [0x12, 0x34, 0x56] [13], Data 2 0x8003 [0x78, 0x9a] [13], End 2 0x8000 [13]]"

definition sample_host :: "srec list \<Rightarrow> host" where
  "sample_host rs = \<lparr>files = [bytes ''a.srec'' \<mapsto> srec_text rs], unwritable = {}, sout = [], serr = []\<rparr>"

lemma sample_host_fields [simp]:
  "files (sample_host rs) [97, 46, 115, 114, 101, 99] = Some (srec_text rs)" "unwritable (sample_host rs) = {}"
  by (simp_all add: sample_host_def)

lemma length_hex_bytes [simp]: "length (hex_bytes ds) = 2 * length ds"
  by (induction ds) simp_all

lemma sample_records_ok:
  "list_all wf_srec sample_records" "list_all (fits 1000) sample_records" "length sample_records = 4"
  by (simp_all add: sample_records_def fits_def del: hexstr.simps)

end
