(* ===== verification/SrecMif.thy ===== *)
theory SrecMif
  imports HostHex
begin

text \<open>
  \<open>CODE/srec2mif/srec2mif.c\<close>: the converter from S-records to a memory initialization file. A run is
  a function from the command line, the contents the line buffer happens to have, and the host,
  to the exit code and the host; \<open>None\<close> is undefined behaviour (an access outside the buffer).
\<close>

section \<open>Texts\<close>

definition mif_usage :: "u8 list" where
  "mif_usage = nl ''srec2mif -- an S-record to MIF table converter''
     @ nl ''Usage: srecmif [-vq] inputfile [outputfile]''
     @ nl ''   -v        Verbose''
     @ nl ''   -q        Quiet. Only errors are reported''
     @ nl ''If outputfile is omitted, stdout is used''"

definition mif_head :: "u8 list" where
  "mif_head = nl ''WIDTH=8;'' @ nl ''DEPTH=16384;'' @ nl ''ADDRESS_RADIX=HEX;''
     @ nl ''DATA_RADIX=HEX;'' @ [10] @ nl ''CONTENT BEGIN'' @ [10]"

definition mif_foot :: "u8 list" where
  "mif_foot = [10] @ nl ''END;''"

definition mif_entry :: "string \<Rightarrow> u64 \<Rightarrow> u64 \<Rightarrow> u8 list" where
  "mif_entry sep address byte = pad 32 4 (hex_str (unat address)) @ bytes sep
     @ pad 48 2 (hex_str (unat byte)) @ nl '';''"

section \<open>One line\<close>

text \<open>The data bytes from index \<open>p\<close> on, one entry each.\<close>

definition mif_data :: "string \<Rightarrow> u8 list option \<Rightarrow> nat \<Rightarrow> u64 \<Rightarrow> u64 \<Rightarrow> u8 list \<Rightarrow> host
    \<Rightarrow> (u8 list \<times> host) option" where
  "mif_data sep out p val address buf h = do {
     (buf, _, h) \<leftarrow> for_bytes (\<lambda>byte (address, h).
         Some (address + 1, fprint out (mif_entry sep address byte) h)) p 0 val buf (address, h);
     Some (buf, h) }"

definition mif_line :: "bool \<Rightarrow> u8 list option \<Rightarrow> nat \<Rightarrow> u8 list \<Rightarrow> host
    \<Rightarrow> (u8 list \<times> host) option" where
  "mif_line verbose out line buf h =
     (if buf ! 0 \<noteq> 83 then
        Some (buf, eprint (bytes ''Not an S-record in line '' @ dec_str line @ nl ''!'') h)
      else (let c = buf ! 1 in
        if c = 48 then do {
          (val, buf) \<leftarrow> hex2 2 buf;
          vendor_text verbose (val - 3) buf h }
        else if c = 49 then do {
          (val, buf) \<leftarrow> hex2 2 buf;
          (address, buf) \<leftarrow> hex4 4 buf;
          mif_data '' : '' out 8 (val - 3) address buf h }
        else if c = 50 then do {
          (val, buf) \<leftarrow> hex2 2 buf;
          (address, buf) \<leftarrow> hex6 4 buf;
          mif_data '' => '' out 10 (val - 4) address buf h }
        else if c = 51 then do {
          (val, buf) \<leftarrow> hex2 2 buf;
          (address, buf) \<leftarrow> hex8 4 buf;
          mif_data '' => '' out 12 (val - 5) address buf h }
        else if c = 52 then note_line verbose (nl ''Reserved S-record'') buf h
        else if c = 53 then note_line verbose (nl ''Optional count record skipped'') buf h
        else if c = 54 then note_line verbose (nl ''Optional count record skipped'') buf h
        else if c = 55 then note_line verbose (nl ''Termination record'') buf h
        else if c = 56 then note_line verbose (nl ''Termination record'') buf h
        else if c = 57 then note_line verbose (nl ''Termination record'') buf h
        else note_line verbose (bytes ''Invalid S-record in line '' @ dec_str line @ [10]) buf h))"

section \<open>The file\<close>

text \<open>The counter of lines is an \<open>int\<close>: more than \<open>2 ^ 31 - 1\<close> lines overflow it.\<close>

definition LENGTH_line :: nat where
  "LENGTH_line = 1000"

function mif_loop :: "bool \<Rightarrow> u8 list option \<Rightarrow> nat \<Rightarrow> u8 list \<Rightarrow> u8 list \<Rightarrow> host \<Rightarrow> host option" where
  "mif_loop verbose out line buf inp h = (case fgets LENGTH_line buf inp of
       None \<Rightarrow> Some h
     | Some (buf, rst) \<Rightarrow>
         if line = 2147483647 then None
         else (case mif_line verbose out (line + 1) buf h of
             None \<Rightarrow> None
           | Some (buf, h) \<Rightarrow> mif_loop verbose out (line + 1) buf rst h))"
  by pat_completeness auto
termination
  by (relation "measure (\<lambda>(verbose, out, line, buf, inp, h). length inp)")
     (auto simp: LENGTH_line_def dest: fgets_shorter)

declare mif_loop.simps [simp del]

definition mif_convert :: "bool \<Rightarrow> u8 list option \<Rightarrow> u8 list \<Rightarrow> u8 list \<Rightarrow> host \<Rightarrow> (int \<times> host) option" where
  "mif_convert verbose out inp buf h = do {
     h \<leftarrow> mif_loop verbose out 0 buf inp (fprint out mif_head h);
     Some (0, fprint out mif_foot h) }"

section \<open>The program\<close>

fun mif_options :: "u8 list \<Rightarrow> opt_event list \<Rightarrow> bool \<Rightarrow> u8 list + bool" where
  "mif_options prog [] verbose = Inr verbose"
| "mif_options prog (e # es) verbose =
     (if opt_char e = 118 then mif_options prog es True
      else if opt_char e = 113 then mif_options prog es False
      else Inl (opt_complaint prog e @ unknown_option (opt_char e)))"

text \<open>Opening the two files; \<open>opts @ ops\<close> are the words of the command line after \<open>getopt\<close>.\<close>

definition mif_files :: "bool \<Rightarrow> u8 list list \<Rightarrow> u8 list list \<Rightarrow> u8 list \<Rightarrow> host \<Rightarrow> (int \<times> host) option" where
  "mif_files verbose opts ops buf h =
     (if ops = [] then Some (1, eprint (nl ''Please supply an input filename'') h)
      else (case files h (ops ! 0) of
          None \<Rightarrow> Some (1, eprint (bytes ''Cannot open input file '' @ (opts @ ops) ! 0 @ [10]) h)
        | Some inp \<Rightarrow>
            if length ops = 1 then
              mif_convert verbose None inp buf
                (if verbose then print_out (nl ''Using stdout'') h else h)
            else if ops ! 0 = ops ! 1 then
              Some (1, eprint (nl ''Input filename and output filename cannot be the same'') h)
            else if ops ! 1 \<in> unwritable h then
              Some (1, eprint (bytes ''Cannot open output file '' @ ops ! 1 @ [10]) h)
            else mif_convert verbose (Some (ops ! 1)) inp buf (h\<lparr>files := (files h)(ops ! 1 \<mapsto> [])\<rparr>)))"

definition mif_main :: "u8 list \<Rightarrow> u8 list list \<Rightarrow> u8 list \<Rightarrow> host \<Rightarrow> (int \<times> host) option" where
  "mif_main prog args buf h =
     (if args = [] then Some (0, print_out mif_usage h)
      else (case getopt (bytes ''vqfi:'') args of (es, opts, ops) \<Rightarrow>
       (case mif_options prog es False of
          Inl msg \<Rightarrow> Some (1, eprint msg h)
        | Inr verbose \<Rightarrow> mif_files verbose opts ops buf
            (if verbose then eprint (nl ''S-record to MIF converter'') h else h))))"

end
