(* ===== verification/SrecMifProof.thy ===== *)
theory SrecMifProof
  imports SrecMif
begin

text \<open>
  The table \<open>srec2mif\<close> writes for a well-formed file: its rows are the data bytes of the records in
  order, each with its address, and writing them to memory row by row gives the image that the
  boot loader makes of the same file. Then what the program does with a bad count.
\<close>

section \<open>Rows\<close>

text \<open>A row is the kind of its record, an address and a byte.\<close>

fun rows_from :: "nat \<Rightarrow> u64 \<Rightarrow> u8 list \<Rightarrow> (nat \<times> u64 \<times> u8) list" where
  "rows_from t a [] = []"
| "rows_from t a (d # ds) = (t, a, d) # rows_from t (a + 1) ds"

fun mif_rows :: "srec \<Rightarrow> (nat \<times> u64 \<times> u8) list" where
  "mif_rows (Data t a ds rst) = rows_from t (ucast (field t a)) ds"
| "mif_rows _ = []"

definition mif_sep :: "nat \<Rightarrow> string" where
  "mif_sep t = (if t = 1 then '' : '' else '' => '')"

fun row_text :: "nat \<times> u64 \<times> u8 \<Rightarrow> u8 list" where
  "row_text (t, a, d) = mif_entry (mif_sep t) a (ucast d)"

fun write_row :: "nat \<times> u64 \<times> u8 \<Rightarrow> (u32 \<Rightarrow> u8) \<Rightarrow> (u32 \<Rightarrow> u8)" where
  "write_row (t, a, d) f = f(ucast a := d)"

lemma ucast_Suc: "(ucast (a + 1 :: u64) :: u32) = ucast a + 1"
proof transfer
  fix a :: int
  have "take_bit 32 (take_bit 64 a + 1) = take_bit 32 (take_bit 32 (take_bit 64 a) + take_bit 32 1)"
    by (simp only: take_bit_add)
  also have "\<dots> = take_bit 32 (take_bit 32 a + take_bit 32 1)" by (simp add: take_bit_take_bit)
  also have "\<dots> = take_bit 32 (a + 1)" by (simp only: take_bit_add)
  finally show "take_bit LENGTH(32) (take_bit LENGTH(64) (a + 1))
      = take_bit LENGTH(32) (take_bit LENGTH(64) a + 1)"
    by (simp add: take_bit_take_bit)
qed

lemma write_rows_from: "fold write_row (rows_from t a ds) f = store_bytes (ucast a) ds f"
  by (induction t a ds arbitrary: f rule: rows_from.induct) (simp_all add: ucast_Suc)

lemma ucast_u32_u64_u32 [simp]: "(ucast (ucast (x::u32) :: u64) :: u32) = x"
  by (rule bit_word_eqI) (simp add: bit_simps)

lemma write_rows: "fold write_row (mif_rows r) f = srec_mem r f"
  by (cases r) (simp_all add: write_rows_from)

lemma write_file_rows: "fold write_row (concat (map mif_rows rs)) f = file_mem rs f"
  by (induction rs arbitrary: f) (simp_all add: write_rows file_mem_def)

section \<open>One record\<close>

lemma feed_mif:
  "feed (\<lambda>byte (address, h). Some (address + 1, fprint out (mif_entry (mif_sep t) address byte) h))
     ds (a, h) = Some (a + of_nat (length ds), fprint out (concat (map row_text (rows_from t a ds))) h)"
  by (induction ds arbitrary: a h) (simp_all add: algebra_simps)

lemma mif_data_rows:
  assumes "buf0 = srec_body (Data t a ds rst) @ behind" and "length ds + t + 2 < 256"
    and "caseless buf buf0" and "p = 2 * t + 6"
  shows "\<exists>b. mif_data (mif_sep t) out p (of_nat (length ds)) ad buf h
      = Some (b, fprint out (concat (map row_text (rows_from t ad ds))) h) \<and> caseless b buf0"
proof -
  let ?f = "\<lambda>byte (address, h). Some (address + 1, fprint out (mif_entry (mif_sep t) address byte) h)"
  have "length ds < 2 ^ 64" using assms(2) by simp
  then obtain b where "caseless b buf0"
    and "for_bytes ?f p 0 (of_nat (length ds)) buf (ad, h) = map_option (Pair b) (feed ?f ds (ad, h))"
    using for_bytes_data [OF data_fields_at(3) [OF assms(1)] _ assms(3), of 0 ?f "(ad, h)"] assms(4)
    by auto
  then show ?thesis by (simp add: mif_data_def feed_mif)
qed

lemma count_minus: "(of_nat (n + k) :: u64) - of_nat k = of_nat n"
  by simp

lemma mif_line_data:
  assumes "wf_srec (Data t a ds rst)" and "buf = srec_body (Data t a ds rst) @ behind"
  shows "\<exists>b. mif_line v out line buf h
      = Some (b, fprint out (concat (map row_text (mif_rows (Data t a ds rst)))) h) \<and> caseless b buf"
proof -
  have n: "length ds + t + 2 < 256" and t: "t = 1 \<or> t = 2 \<or> t = 3" using assms(1) by auto
  obtain b1 where b1: "hex2 2 buf = Some (of_nat (length ds + t + 2), b1)" "caseless b1 buf"
    using data_count [OF assms(2) n] by blast
  have val: "(of_nat (length ds + t + 2) :: u64) - of_nat (t + 2) = of_nat (length ds)"
    using count_minus [of "length ds" "t + 2"] by (simp only: add.assoc)
  have head: "buf ! 0 = 83" "buf ! 1 = 48 + of_nat t" by (simp_all add: assms(2))
  note rows = mif_data_rows [OF assms(2) n, of _ _ out "ucast (field t a)" h]
  from t consider "t = 1" | "t = 2" | "t = 3" by blast
  then show ?thesis
  proof cases
    case 1
    obtain b2 where b2: "hex4 4 b1 = Some (ucast (field t a), b2)" "caseless b2 buf"
      using data_address1 [OF assms(2) b1(2) 1] by blast
    show ?thesis
      using rows [OF b2(2), of 8] b1(1) b2(1) head val 1 by (auto simp: mif_line_def mif_sep_def)
  next
    case 2
    obtain b2 where b2: "hex6 4 b1 = Some (ucast (field t a), b2)" "caseless b2 buf"
      using data_address2 [OF assms(2) b1(2) 2] by blast
    show ?thesis
      using rows [OF b2(2), of 10] b1(1) b2(1) head val 2 by (auto simp: mif_line_def mif_sep_def)
  next
    case 3
    obtain b2 where b2: "hex8 4 b1 = Some (ucast (field t a), b2)" "caseless b2 buf"
      using data_address3 [OF assms(2) b1(2) 3] by blast
    show ?thesis
      using rows [OF b2(2), of 12] b1(1) b2(1) head val 3 by (auto simp: mif_line_def mif_sep_def)
  qed
qed

lemma mif_line_record:
  assumes "wf_srec r" and "buf = srec_body r @ 10 # behind" and "3 < length buf"
  shows "\<exists>b. mif_line False out line buf h = Some (b, fprint out (concat (map row_text (mif_rows r))) h)
    \<and> length b = length buf"
proof (cases r)
  case (Data t a ds rst)
  obtain b where "mif_line False out line buf h
      = Some (b, fprint out (concat (map row_text (mif_rows (Data t a ds rst)))) h)" "caseless b buf"
    using mif_line_data [of t a ds rst buf "10 # behind" False out line h] assms Data by blast
  then show ?thesis using caseless_length [of b buf] Data by simp
next
  case (End t a rst)
  then show ?thesis
    using assms by (auto simp: mif_line_def note_line_def del: hexstr.simps)
next
  case (Other c rst)
  show ?thesis
  proof (cases "c = 48")
    case True
    obtain b where "hex2 2 buf = Some (byte_at 2 buf, b)" "caseless b buf"
      using hex2_byte [of 2 buf] assms(3) by auto
    then show ?thesis
      using caseless_length [of b buf] assms(1,2) Other True by (simp add: mif_line_def vendor_text_def)
  next
    case False
    then show ?thesis
      using assms Other by (auto simp: mif_line_def note_line_def)
  qed
qed

section \<open>The file\<close>

lemma mif_loop_file:
  assumes "list_all wf_srec rs" and "list_all (fits 1000) rs" and "line + length rs \<le> 2147483647"
    and "length buf = 1000"
  shows "mif_loop False out line buf (srec_text rs) h
    = Some (fprint out (concat (map row_text (concat (map mif_rows rs)))) h)"
  using assms
proof (induction rs arbitrary: line buf h)
  case Nil
  then show ?case by (simp add: mif_loop.simps LENGTH_line_def)
next
  case (Cons r rs)
  let ?b = "srec_body r @ 10 # 0 # drop (length (srec_body r) + 2) buf"
  have wf: "wf_srec r" "fits 1000 r" using Cons.prems by simp_all
  have l: "length ?b = 1000" using wf(2) Cons.prems(4) by (simp add: fits_def)
  obtain b where b: "mif_line False out (line + 1) ?b h = Some (b, fprint out (concat (map row_text (mif_rows r))) h)"
    "length b = 1000"
    using mif_line_record [OF wf(1) refl, of "0 # drop (length (srec_body r) + 2) buf" out "line + 1" h] l by auto
  have "mif_loop False out line buf (srec_text (r # rs)) h
      = mif_loop False out (line + 1) b (srec_text rs) (fprint out (concat (map row_text (mif_rows r))) h)"
    unfolding mif_loop.simps [of False out line buf] srec_text_Cons LENGTH_line_def fgets_record [OF wf]
    using b(1) Cons.prems(3) by simp
  then show ?case using Cons.IH [of "line + 1" b] Cons.prems b(2) by simp
qed

section \<open>The table\<close>

text \<open>The table as the records determine it: for each data byte one entry, in the order of the file, with
  the number of the byte's address and the separator of its kind of record.\<close>

fun table_rows :: "srec \<Rightarrow> (nat \<times> nat \<times> u8) list" where
  "table_rows (Data t a ds rst) = map (\<lambda>i. (t, unat (field t a) + i, ds ! i)) [0..<length ds]"
| "table_rows _ = []"

fun table_entry :: "nat \<times> nat \<times> u8 \<Rightarrow> u8 list" where
  "table_entry (t, n, d) = pad 32 4 (hex_str n) @ (if t = 1 then bytes '' : '' else bytes '' => '')
     @ pad 48 2 (hex_str (unat d)) @ nl '';''"

fun table_write :: "nat \<times> nat \<times> u8 \<Rightarrow> (u32 \<Rightarrow> u8) \<Rightarrow> (u32 \<Rightarrow> u8)" where
  "table_write (t, n, d) f = f(of_nat n := d)"

lemma unat_ucast_u8_u64: "unat (ucast (x :: u8) :: u64) = unat x"
proof -
  have "unat x < 2 ^ 64" using unsigned_less [of x, where 'a = nat] by simp
  then show ?thesis by (simp add: unsigned_ucast_eq take_bit_nat_eq_self_iff)
qed

lemma rows_from_map: "rows_from t a ds = map (\<lambda>i. (t, a + of_nat i, ds ! i)) [0..<length ds]"
proof (induction ds arbitrary: a)
  case (Cons d ds)
  show ?case unfolding rows_from.simps Cons list.size add_0_right add_Suc_right
    by (simp only: upt_0_Suc list.map map_map) (simp add: algebra_simps)
qed simp

lemma table_rows_text:
  assumes "wf_srec r"
  shows "map row_text (mif_rows r) = map table_entry (table_rows r)"
proof (cases r)
  case (Data t a ds rst)
  have len: "length ds < 256" using assms Data by auto
  have n: "unat ((ucast (field t a) :: u64) + of_nat i) = unat (field t a) + i" if "i < length ds" for i
  proof -
    have "unat (field t a) + i < 2 ^ 64" using len that unsigned_less [of "field t a", where 'a = nat] by simp
    then show ?thesis
      using len that unat_ucast_u32_u64 [of "field t a"] by (simp add: unat_word_ariths unat_of_nat)
  qed
  show ?thesis
    using Data n by (simp add: rows_from_map mif_entry_def mif_sep_def unat_ucast_u8_u64)
qed simp_all

lemma table_rows_write: "fold table_write (table_rows r) f = fold write_row (mif_rows r) f"
proof (cases r)
  case (Data t a ds rst)
  have w: "(ucast ((ucast x :: u64) + of_nat i) :: u32) = of_nat (unat x + i)" for x :: u32 and i
  proof (induction i)
    case (Suc i)
    have "(ucast x :: u64) + of_nat (Suc i) = (ucast x + of_nat i) + 1" by simp
    then have "(ucast ((ucast x :: u64) + of_nat (Suc i)) :: u32) = ucast ((ucast x :: u64) + of_nat i) + 1"
      using ucast_Suc [of "ucast x + of_nat i"] by (simp only:)
    also have "\<dots> = of_nat (unat x + i) + 1" using Suc by simp
    also have "\<dots> = of_nat (unat x + Suc i)" by simp
    finally show ?case .
  qed simp
  have "table_write (t, unat x + i, d) = write_row (t, ucast x + of_nat i, d)" for x :: u32 and i d
    by (intro ext) (simp only: table_write.simps write_row.simps w)
  then show ?thesis
    using Data by (simp add: rows_from_map fold_map o_def)
qed simp_all

lemma table_file:
  "list_all wf_srec rs \<Longrightarrow> concat (map row_text (concat (map mif_rows rs))) = concat (map table_entry (concat (map table_rows rs)))"
  by (induction rs) (simp_all add: table_rows_text)

lemma table_file_write: "fold table_write (concat (map table_rows rs)) f = file_mem rs f"
  using write_file_rows [of rs f] by (induction rs arbitrary: f) (simp_all add: table_rows_write file_mem_def write_rows)

text \<open>C29: srec2mif writes the head, exactly one entry per data byte of the file in the order of
  the file, each with its address, its byte and the separator of its record type, and the
  end; writing the entries to memory one by one gives the image the boot loader makes of the
  same file.\<close>

theorem mif_table_is_image:
  assumes "files h src = Some (srec_text rs)" and "list_all wf_srec rs" and "list_all (fits 1000) rs"
    and "length rs < 2 ^ 31" and "length buf = 1000"
    and "operand src" and "operand dst" and "src \<noteq> dst" and "dst \<notin> unwritable h"
  shows "mif_main prog [src, dst] buf h
      = Some (0, h\<lparr>files := (files h)(dst \<mapsto>
          mif_head @ concat (map table_entry (concat (map table_rows rs))) @ mif_foot)\<rparr>)
    \<and> fold table_write (concat (map table_rows rs)) f = file_mem rs f"
proof -
  have "length rs \<le> 2147483647" using assms(4) by simp
  then have "mif_main prog [src, dst] buf h
      = Some (0, h\<lparr>files := (files h)(dst \<mapsto> mif_head @ concat (map row_text (concat (map mif_rows rs))) @ mif_foot)\<rparr>)"
    using assms getopt_operands [of "[src, dst]"] mif_loop_file [OF assms(2,3) _ assms(5), of 0]
    by (simp add: mif_main_def mif_files_def mif_convert_def) (simp add: fprint_def)
  then show ?thesis unfolding table_file [OF assms(2)] using table_file_write by blast
qed

theorem mif_table_is_image_witness:
  "mif_main (bytes ''srec2mif'') [bytes ''a.srec'', bytes ''a.mif''] (replicate 1000 0) (sample_host sample_records)
      = Some (0, (sample_host sample_records)\<lparr>files := (files (sample_host sample_records))
          (bytes ''a.mif'' \<mapsto> mif_head @ concat (map table_entry (concat (map table_rows sample_records))) @ mif_foot)\<rparr>)
    \<and> fold table_write (concat (map table_rows sample_records)) (\<lambda>_. 0) = file_mem sample_records (\<lambda>_. 0)"
  by (rule mif_table_is_image) (simp_all add: sample_records_ok operand_def)

text \<open>C32: A data record whose count does not even cover the address and the check byte makes
  srec2mif run past its line buffer.\<close>

theorem mif_short_count:
  assumes "length buf = 1000" and "buf ! 0 = 83" and "t \<in> {1, 2, 3}" and "buf ! 1 = 48 + of_nat t"
    and "stands_at ds 2 buf" and "length ds = 2" and "list_all is_xdigit ds" and "hexnum ds < of_nat (t + 2)"
  shows "mif_line verbose out line buf h = None"
proof -
  obtain b where b2: "hex2 2 buf = Some (ucast (hexnum ds), b)" "caseless b buf"
    using hex2_field [OF refl assms(5,7,6)] by blast
  then have b: "hex2 2 buf = Some (ucast (hexnum ds), b)" "length b = 1000"
    using caseless_length [of b buf] assms(1) by simp_all
  have big: "1000 < unat ((ucast (hexnum ds) :: u64) - of_nat (t + 2))"
    using assms(3,8) by (auto simp: word_less_nat_alt unat_sub_if_size word_size)
  have over: "mif_data s out p (ucast (hexnum ds) - of_nat (t + 2)) a b' h = None"
    if "length b' = 1000" "p \<le> 1000" for s p a b'
    unfolding mif_data_def using that big by (subst for_bytes_overrun) simp_all
  from assms(3) show ?thesis
    using b assms(2,4) over hex2_Some
    by (auto simp: mif_line_def hex4_def hex6_def hex8_def split: Option.bind_splits)
qed

theorem mif_short_count_witness:
  "mif_line False None 1 (bytes ''S1020000FD'' @ replicate 990 0) (sample_host []) = None"
  by (rule mif_short_count [where t = 1 and ds = "[48, 50]"])
    (simp_all add: stands_at_def is_xdigit_def is_digit_def hexnum_def hexstep_def hexval_def)

end
