(* ===== verification/SrecVhdl.thy ===== *)
theory SrecVhdl
  imports HostHex
begin

text \<open>
  \<open>CODE/srec2vhdl/srec2vhdl.c\<close>: the converter from S-records to the table of a VHDL ROM. The records
  fill the array \<open>code\<close>, whose element 0 is the first address seen; then the part of the array up
  to the end of the last record is printed as bytes, half words or words. \<open>None\<close> is undefined
  behaviour: an access outside the line buffer or the array.
\<close>

section \<open>Texts\<close>

definition vhdl_version :: string where
  "vhdl_version = ''v0.2''"

definition vhdl_usage :: "u8 list" where
  "vhdl_usage = nl (''srec2vhdl '' @ vhdl_version @ '' -- an S-record to VHDL table converter'')
     @ nl ''Usage: srec2vhdl [-vqfbhw0 -i <arg>] inputfile [outputfile]''
     @ nl ''   -f        Full table output''
     @ nl ''   -i <arg>  Indent by <arg> spaces''
     @ nl ''   -v        Verbose''
     @ nl ''   -q        Quiet. Only errors are reported''
     @ nl ''   -b        Byte output (default)''
     @ nl ''   -h        Halfword output (16 bits, Little Endian)''
     @ nl ''   -w        Word output (32 bits, Little Endian)''
     @ bytes ''   -0        Output unused data as 0'' @ [39] @ nl ''s (default is - (don't care))''
     @ nl ''If outputfile is omitted, stdout is used''
     @ nl ''Program size must be less then 1 MB'' @ [10]
     @ nl ''The address of the first record is used as an offset''
     @ nl ''so that the first record starts at vector element 0.''"

definition vhdl_head :: "u8 list \<Rightarrow> u8 list" where
  "vhdl_head name = nl ''-- srec2vhdl table generator''
     @ bytes ''-- for input file '' @ name @ [10, 10]
     @ nl ''library ieee;''
     @ nl ''use ieee.std_logic_1164.all;'' @ [10]
     @ nl ''library work;''
     @ nl ''use work.processor_common.all;'' @ [10]
     @ nl ''package processor_common_rom is''
     @ nl ''    constant rom_contents : rom_type := (''"

definition vhdl_foot :: "u8 \<Rightarrow> u8 list" where
  "vhdl_foot unused = bytes ''others => (others => '' @ [39, unused, 39] @ nl '')''
     @ nl ''    );''
     @ nl ''end package processor_common_rom;''"

section \<open>Options\<close>

definition SIZE_BYTE :: nat where "SIZE_BYTE = 1"
definition SIZE_HALFWORD :: nat where "SIZE_HALFWORD = 2"
definition SIZE_WORD :: nat where "SIZE_WORD = 4"

record vhdl_opts =
  full :: bool
  indent :: bool
  indentarg :: int
  verbose :: bool
  unit_size :: nat
  unused :: u8

definition vhdl_defaults :: vhdl_opts where
  "vhdl_defaults = \<lparr>full = False, indent = False, indentarg = 0, verbose = False,
     unit_size = SIZE_BYTE, unused = 45\<rparr>"

text \<open>
  Options are handled in order; \<open>q\<close> falls through to \<open>0\<close>. \<open>None\<close>: an argument that \<open>atoi\<close>
  cannot represent.
\<close>

fun vhdl_options :: "u8 list \<Rightarrow> opt_event list \<Rightarrow> vhdl_opts \<Rightarrow> (u8 list + vhdl_opts) option" where
  "vhdl_options prog [] opt = Some (Inr opt)"
| "vhdl_options prog (e # es) opt =
     (let c = opt_char e in
      if c = 102 then vhdl_options prog es (opt\<lparr>full := True, indent := True, indentarg := 8\<rparr>)
      else if c = 105 then (case atoi (opt_arg e) of
          None \<Rightarrow> None
        | Some n \<Rightarrow> vhdl_options prog es (opt\<lparr>indentarg := n, indent := True\<rparr>))
      else if c = 118 then vhdl_options prog es (opt\<lparr>verbose := True\<rparr>)
      else if c = 98 then vhdl_options prog es (opt\<lparr>unit_size := SIZE_BYTE\<rparr>)
      else if c = 104 then vhdl_options prog es (opt\<lparr>unit_size := SIZE_HALFWORD\<rparr>)
      else if c = 119 then vhdl_options prog es (opt\<lparr>unit_size := SIZE_WORD\<rparr>)
      else if c = 113 then vhdl_options prog es (opt\<lparr>verbose := False, unused := 48\<rparr>)
      else if c = 48 then vhdl_options prog es (opt\<lparr>unused := 48\<rparr>)
      else Some (Inl (opt_complaint prog e @ unknown_option c)))"

section \<open>Filling the array\<close>

definition LEN_CODE :: nat where
  "LEN_CODE = 10000000"

record image =
  first :: bool
  offset :: u64
  address :: u64
  code :: "nat \<Rightarrow> u8"

definition image_init :: image where
  "image_init = \<lparr>first = True, offset = 0, address = 0, code = \<lambda>_. 0\<rparr>"

text \<open>\<open>code[address-offset] = byte; address++\<close>\<close>

definition put_code :: "u64 \<Rightarrow> image \<Rightarrow> image option" where
  "put_code byte s = (let k = unat (address s - offset s) in
     if k < LEN_CODE then Some (s\<lparr>code := (code s)(k := ucast byte), address := address s + 1\<rparr>)
     else None)"

definition offset_text :: "u64 \<Rightarrow> u8 list" where
  "offset_text v = bytes ''Offset: 0x'' @ pad 48 8 (hex_str (unat v)) @ [10]"

text \<open>A data record from its address on.\<close>

definition vhdl_data :: "bool \<Rightarrow> nat \<Rightarrow> u64 \<Rightarrow> u64 \<Rightarrow> u8 list \<Rightarrow> image \<times> host
    \<Rightarrow> (u8 list \<times> image \<times> host) option" where
  "vhdl_data verb p val addr buf sh = (case sh of (s, h) \<Rightarrow>
     (let s = s\<lparr>address := addr\<rparr>;
          h = (if first s \<and> verb then eprint (offset_text addr) h else h);
          s = (if first s then s\<lparr>offset := addr, first := False\<rparr> else s)
      in do { (buf, s) \<leftarrow> for_bytes put_code p 0 val buf s; Some (buf, s, h) }))"

definition keep_image :: "image \<Rightarrow> (u8 list \<times> host) option \<Rightarrow> (u8 list \<times> image \<times> host) option" where
  "keep_image s r = map_option (\<lambda>(buf, h). (buf, s, h)) r"

definition vhdl_line :: "bool \<Rightarrow> nat \<Rightarrow> u8 list \<Rightarrow> image \<times> host \<Rightarrow> (u8 list \<times> image \<times> host) option" where
  "vhdl_line verb line buf sh = (case sh of (s, h) \<Rightarrow>
     if buf ! 0 \<noteq> 83 then
        Some (buf, s, eprint (bytes ''Not an S-record in line '' @ dec_str line @ nl ''!'') h)
     else (let c = buf ! 1 in
        if c = 48 then do {
          (val, buf) \<leftarrow> hex2 2 buf;
          keep_image s (vendor_text verb (val - 3) buf h) }
        else if c = 49 then do {
          (val, buf) \<leftarrow> hex2 2 buf;
          (addr, buf) \<leftarrow> hex4 4 buf;
          vhdl_data verb 8 (val - 3) addr buf (s, h) }
        else if c = 50 then do {
          (val, buf) \<leftarrow> hex2 2 buf;
          (addr, buf) \<leftarrow> hex6 4 buf;
          vhdl_data verb 10 (val - 4) addr buf (s, h) }
        else if c = 51 then do {
          (val, buf) \<leftarrow> hex2 2 buf;
          (addr, buf) \<leftarrow> hex8 4 buf;
          vhdl_data verb 12 (val - 5) addr buf (s, h) }
        else keep_image s
         (if c = 52 then note_line verb (nl ''Reserved S-record'') buf h
          else if c = 53 then note_line verb (nl ''Optional count record skipped'') buf h
          else if c = 54 then note_line verb (nl ''Optional count record skipped'') buf h
          else if c = 55 then note_line verb (nl ''Termination record'') buf h
          else if c = 56 then note_line verb (nl ''Termination record'') buf h
          else if c = 57 then note_line verb (nl ''Termination record'') buf h
          else note_line verb (bytes ''Invalid S-record in line '' @ dec_str line @ [10]) buf h)))"

definition LEN_BUFFER :: nat where
  "LEN_BUFFER = 1000"

function vhdl_loop :: "bool \<Rightarrow> nat \<Rightarrow> u8 list \<Rightarrow> u8 list \<Rightarrow> image \<times> host \<Rightarrow> (image \<times> host) option" where
  "vhdl_loop verb line buf inp sh = (case fgets LEN_BUFFER buf inp of
       None \<Rightarrow> Some sh
     | Some (buf, rst) \<Rightarrow>
         if line = 2147483647 then None
         else (case vhdl_line verb (line + 1) buf sh of
             None \<Rightarrow> None
           | Some (buf, sh) \<Rightarrow> vhdl_loop verb (line + 1) buf rst sh))"
  by pat_completeness auto
termination
  by (relation "measure (\<lambda>(verb, line, buf, inp, sh). length inp)")
     (auto simp: LEN_BUFFER_def dest: fgets_shorter)

declare vhdl_loop.simps [simp del]

section \<open>Printing the array\<close>

definition spaces :: "vhdl_opts \<Rightarrow> u8 list" where
  "spaces opt = (if indent opt then replicate (nat (indentarg opt)) 32 else [])"

definition hex_byte :: "u8 \<Rightarrow> u8 list" where
  "hex_byte b = pad 48 2 (hex_str (unat b))"

text \<open>One row; reading the array past its end is \<open>None\<close>.\<close>

definition vhdl_row :: "vhdl_opts \<Rightarrow> (nat \<Rightarrow> u8) \<Rightarrow> nat \<Rightarrow> u8 list option \<Rightarrow> host \<Rightarrow> host option" where
  "vhdl_row opt cod i out h = (let h = fprint out (spaces opt) h; sz = unit_size opt in
     if sz = SIZE_BYTE \<or> sz = SIZE_HALFWORD \<or> sz = SIZE_WORD then
       (if i + sz \<le> LEN_CODE then
          Some (fprint out (pad 32 4 (dec_str (i div sz)) @ bytes '' => x'' @ [34]
            @ concat (map (\<lambda>k. hex_byte (cod (i + k))) [0..<sz]) @ [34] @ nl '','') h)
        else None)
     else Some (eprint (nl ''BUG:: size unknown'') h))"

text \<open>A size of 0 would print for ever.\<close>

function vhdl_rows :: "vhdl_opts \<Rightarrow> (nat \<Rightarrow> u8) \<Rightarrow> nat \<Rightarrow> nat \<Rightarrow> u8 list option \<Rightarrow> host \<Rightarrow> host option" where
  "vhdl_rows opt cod i n out h =
     (if i < n then
        (if unit_size opt = 0 then None
         else (case vhdl_row opt cod i out h of
             None \<Rightarrow> None
           | Some h \<Rightarrow> vhdl_rows opt cod (i + unit_size opt) n out h))
      else Some h)"
  by pat_completeness auto
termination by (relation "measure (\<lambda>(opt, cod, i, n, out, h). n - i)") auto

declare vhdl_rows.simps [simp del]

definition too_small :: "u8 list" where
  "too_small = nl ''Warning: internal buffer too small, not exporting all data!''"

definition vhdl_convert :: "vhdl_opts \<Rightarrow> u8 list \<Rightarrow> u8 list option \<Rightarrow> u8 list \<Rightarrow> u8 list \<Rightarrow> host
    \<Rightarrow> (int \<times> host) option" where
  "vhdl_convert opt name out inp buf h = do {
     (s, h) \<leftarrow> vhdl_loop (verbose opt) 0 buf inp
        (image_init, if full opt then fprint out (vhdl_head name) h else h);
     let len = unat (address s - offset s);
     let h = (if len > LEN_CODE then eprint too_small h else h);
     let len = (if len > LEN_CODE then LEN_CODE else len);
     h \<leftarrow> vhdl_rows opt (code s) 0 len out h;
     let h = (if full opt then fprint out (spaces opt @ vhdl_foot (unused opt)) h else h);
     Some (0, if verbose opt then eprint (bytes ''Transformed '' @ dec_str len @ nl '' bytes.'') h else h) }"

section \<open>The program\<close>

definition vhdl_files :: "vhdl_opts \<Rightarrow> u8 list list \<Rightarrow> u8 list list \<Rightarrow> u8 list \<Rightarrow> host \<Rightarrow> (int \<times> host) option" where
  "vhdl_files opt opts ops buf h =
     (if ops = [] then Some (1, eprint (nl ''Please supply an input filename'') h)
      else (case files h (ops ! 0) of
          None \<Rightarrow> Some (1, eprint (bytes ''Cannot open input file '' @ (opts @ ops) ! 0 @ [10]) h)
        | Some inp \<Rightarrow>
            if length ops = 1 then
              vhdl_convert opt (ops ! 0) None inp buf
                (if verbose opt then eprint (nl ''Using stdout'') h else h)
            else if ops ! 0 = ops ! 1 then
              Some (1, eprint (nl ''Input filename and output filename cannot be the same'') h)
            else if ops ! 1 \<in> unwritable h then
              Some (1, eprint (bytes ''Cannot open output file '' @ ops ! 1 @ [10]) h)
            else vhdl_convert opt (ops ! 0) (Some (ops ! 1)) inp buf
              (h\<lparr>files := (files h)(ops ! 1 \<mapsto> [])\<rparr>)))"

definition vhdl_main :: "u8 list \<Rightarrow> u8 list list \<Rightarrow> u8 list \<Rightarrow> host \<Rightarrow> (int \<times> host) option" where
  "vhdl_main prog args buf h =
     (if args = [] then Some (0, print_out vhdl_usage h)
      else (case getopt (bytes ''0bhwvqfi:'') args of (es, opts, ops) \<Rightarrow>
       (case vhdl_options prog es vhdl_defaults of
          None \<Rightarrow> None
        | Some (Inl msg) \<Rightarrow> Some (1, eprint msg h)
        | Some (Inr opt) \<Rightarrow> vhdl_files opt opts ops buf
            (if verbose opt then eprint (nl (''srec2vhdl '' @ vhdl_version @ '' '')
               @ nl ''S-record to VHDL converter'') h else h))))"

end
