(* ===== verification/SrecVhdlProof.thy ===== *)
theory SrecVhdlProof
  imports SrecVhdl
begin

text \<open>
  The table \<open>srec2vhdl\<close> writes for a well-formed file whose first data record has the lowest
  address: its elements are the image of the file from that address on, in rows of the chosen
  size, up to the end of the last record. Records below the first one are written outside the array.
\<close>

section \<open>Rows\<close>

definition vhdl_row_text :: "vhdl_opts \<Rightarrow> (nat \<Rightarrow> u8) \<Rightarrow> nat \<Rightarrow> u8 list" where
  "vhdl_row_text opt cod j = spaces opt @ pad 32 4 (dec_str j) @ bytes '' => x'' @ [34]
     @ concat (map (\<lambda>k. hex_byte (cod (j * unit_size opt + k))) [0..<unit_size opt]) @ [34] @ nl '','' "

definition row_count :: "vhdl_opts \<Rightarrow> nat \<Rightarrow> nat" where
  "row_count opt n = (n + unit_size opt - 1) div unit_size opt"

lemmas sizes = SIZE_BYTE_def SIZE_HALFWORD_def SIZE_WORD_def

lemma row_below:
  assumes "unit_size opt \<in> {SIZE_BYTE, SIZE_HALFWORD, SIZE_WORD}"
  shows "j < row_count opt n \<longleftrightarrow> j * unit_size opt < n"
  using assms by (auto simp: row_count_def sizes)

lemma vhdl_row_ok:
  assumes "unit_size opt \<in> {SIZE_BYTE, SIZE_HALFWORD, SIZE_WORD}" and "j * unit_size opt < LEN_CODE"
  shows "vhdl_row opt cod (j * unit_size opt) out h = Some (fprint out (vhdl_row_text opt cod j) h)"
proof -
  have "j * unit_size opt + unit_size opt \<le> LEN_CODE"
    using assms by (auto simp: sizes LEN_CODE_def)
  then show ?thesis
    using assms(1) by (auto simp: vhdl_row_def vhdl_row_text_def Let_def sizes)
qed

lemma vhdl_rows_ok:
  assumes "unit_size opt \<in> {SIZE_BYTE, SIZE_HALFWORD, SIZE_WORD}" and "n \<le> LEN_CODE"
  shows "j \<le> row_count opt n \<Longrightarrow> vhdl_rows opt cod (j * unit_size opt) n out h
    = Some (fprint out (concat (map (vhdl_row_text opt cod) [j..<row_count opt n])) h)"
proof (induction "row_count opt n - j" arbitrary: j h)
  case 0
  then have j: "j = row_count opt n" by simp
  then have "\<not> j * unit_size opt < n" using row_below [OF assms(1), of j n] by simp
  then show ?case by (simp add: vhdl_rows.simps j)
next
  case (Suc m)
  then have j: "j < row_count opt n" by simp
  then have lt: "j * unit_size opt < n" using row_below [OF assms(1)] by simp
  have sz: "unit_size opt \<noteq> 0" using assms(1) by (auto simp: sizes)
  have row: "vhdl_row opt cod (j * unit_size opt) out h = Some (fprint out (vhdl_row_text opt cod j) h)"
    using vhdl_row_ok [OF assms(1)] lt assms(2) by simp
  have nxt: "j * unit_size opt + unit_size opt = (j + 1) * unit_size opt" by simp
  show ?case
    unfolding vhdl_rows.simps [of opt cod "j * unit_size opt"]
    using Suc.hyps(1) [of "j + 1"] Suc.hyps(2) j lt sz row by (simp add: nxt upt_conv_Cons)
qed

section \<open>The array\<close>

text \<open>The ROM image of a file from address \<open>a0\<close> on, all other cells 0.\<close>

definition rom :: "srec list \<Rightarrow> u32 \<Rightarrow> nat \<Rightarrow> u8" where
  "rom rs a0 k = (if unat a0 + k < 2 ^ 32 then file_mem rs (\<lambda>_. 0) (a0 + of_nat k) else 0)"

text \<open>The data of a record lies in the range of the array that starts at \<open>a0\<close>.\<close>

fun within :: "u32 \<Rightarrow> srec \<Rightarrow> bool" where
  "within a0 (Data t a ds rst) \<longleftrightarrow> unat a0 \<le> unat (field t a)
     \<and> unat (field t a) + length ds \<le> unat a0 + LEN_CODE \<and> unat (field t a) + length ds \<le> 2 ^ 32"
| "within a0 _ \<longleftrightarrow> True"

text \<open>The address of the first data record, and the end of the last one.\<close>

fun table_start :: "srec list \<Rightarrow> u32 option" where
  "table_start [] = None"
| "table_start (Data t a ds rst # rs) = Some (field t a)"
| "table_start (_ # rs) = table_start rs"

fun srec_end :: "srec \<Rightarrow> nat \<Rightarrow> nat" where
  "srec_end (Data t a ds rst) e = unat (field t a) + length ds"
| "srec_end _ e = e"

definition table_length :: "srec list \<Rightarrow> nat" where
  "table_length rs = (case table_start rs of None \<Rightarrow> 0 | Some a0 \<Rightarrow> fold srec_end rs 0 - unat a0)"

lemma ucast_u64_u8: "(ucast (ucast (d::u8) :: u64) :: u8) = d"
  by (rule bit_word_eqI) (simp add: bit_simps)

text \<open>Bytes laid into the array from index \<open>k\<close> on.\<close>

fun overlay :: "nat \<Rightarrow> u8 list \<Rightarrow> (nat \<Rightarrow> u8) \<Rightarrow> (nat \<Rightarrow> u8)" where
  "overlay k [] c = c"
| "overlay k (d # ds) c = overlay (k + 1) ds (c(k := d))"

lemma overlay_lookup: "overlay k ds c i = (if k \<le> i \<and> i < k + length ds then ds ! (i - k) else c i)"
  by (induction k ds c arbitrary: i rule: overlay.induct) (auto simp: nth_Cons')

lemma feed_put_code:
  assumes "unat (address s - offset s) = k" and "k + length ds \<le> LEN_CODE"
  shows "feed put_code ds s
    = Some (s\<lparr>code := overlay k ds (code s), address := address s + of_nat (length ds)\<rparr>)"
  using assms
proof (induction ds arbitrary: s k)
  case Nil
  then show ?case by simp
next
  case (Cons d ds)
  let ?s = "s\<lparr>code := (code s)(k := d), address := address s + 1\<rparr>"
  have less: "k + 1 < 2 ^ 64" using Cons.prems by (simp add: LEN_CODE_def)
  have put: "put_code (ucast d) s = Some ?s"
    using Cons.prems by (simp add: put_code_def ucast_u64_u8)
  have "address ?s - offset ?s = (address s - offset s) + 1" by simp
  then have "unat (address ?s - offset ?s) = k + 1"
    using less Cons.prems(1) by (simp only: unat_word_ariths) simp
  then have "feed put_code ds ?s
      = Some (?s\<lparr>code := overlay (k + 1) ds (code ?s), address := address ?s + of_nat (length ds)\<rparr>)"
    using Cons.prems(2) by (intro Cons.IH) simp_all
  then show ?case by (simp add: put algebra_simps)
qed

text \<open>Laying the bytes of a record into the array is storing them in memory.\<close>

lemma rom_data:
  assumes "within a0 (Data t a ds rst)" and "length ds < 2 ^ 32"
  shows "rom (rs @ [Data t a ds rst]) a0
    = overlay (unat (field t a) - unat a0) ds (rom rs a0)"
proof
  fix k
  let ?a = "field t a" and ?j = "unat (field t a) - unat a0" and ?f = "file_mem rs (\<lambda>_. 0)"
  have w: "unat a0 \<le> unat ?a" "unat ?a + length ds \<le> 2 ^ 32" using assms(1) by simp_all
  show "rom (rs @ [Data t a ds rst]) a0 k = overlay ?j ds (rom rs a0) k"
  proof (cases "unat a0 + k < 2 ^ 32")
    case False
    then have "\<not> k < ?j + length ds" using w by arith
    then show ?thesis using False by (simp add: rom_def overlay_lookup)
  next
    case True
    define x where "x = a0 + of_nat k"
    have x: "unat x = unat a0 + k" using True by (simp add: x_def unat_word_ariths unat_of_nat take_bit_nat_eq_self)
    have diff: "unat (x - ?a) = (if unat ?a \<le> unat x then unat x - unat ?a else 2 ^ 32 + unat x - unat ?a)"
      using unsigned_less [of ?a, where 'a = nat]
      by (auto simp: unat_sub_if_size word_size word_le_nat_alt)
    have lt: "unat (x - ?a) < length ds \<longleftrightarrow> ?j \<le> k \<and> k < ?j + length ds"
      unfolding diff x using w unsigned_less [of ?a, where 'a = nat] by auto
    have eq: "unat (x - ?a) = k - ?j" if "?j \<le> k"
      unfolding diff x using w that by auto
    show ?thesis
      using True store_bytes_lookup [OF assms(2), of ?a ?f x] lt eq
      by (simp add: rom_def overlay_lookup file_mem_def x_def)
  qed
qed

section \<open>The invariant of the main loop\<close>

lemma table_start_append:
  "table_start (rs @ qs) = (case table_start rs of None \<Rightarrow> table_start qs | Some a \<Rightarrow> Some a)"
  by (induction rs rule: table_start.induct) simp_all

lemma file_mem_no_data: "table_start rs = None \<Longrightarrow> file_mem rs f = f"
  by (induction rs rule: table_start.induct) (simp_all add: file_mem_def)

text \<open>
  After the records \<open>rs\<close> the array holds their ROM image, \<open>offset\<close> is the address of the first
  data and \<open>address\<close> the end of the last.
\<close>

definition built :: "srec list \<Rightarrow> image \<Rightarrow> bool" where
  "built rs s \<longleftrightarrow> (case table_start rs of
       None \<Rightarrow> s = image_init
     | Some a0 \<Rightarrow> \<not> first s \<and> offset s = ucast a0 \<and> address s = of_nat (fold srec_end rs 0)
         \<and> code s = rom rs a0 \<and> unat a0 \<le> fold srec_end rs 0
         \<and> fold srec_end rs 0 \<le> unat a0 + LEN_CODE \<and> fold srec_end rs 0 \<le> 2 ^ 32)"

lemma built_other: "built rs s \<Longrightarrow> \<forall>t a ds rst. r \<noteq> Data t a ds rst \<Longrightarrow> built (rs @ [r]) s"
  by (cases r) (auto simp: built_def table_start_append rom_def file_mem_def split: option.splits)

lemma of_nat_unat_u32: "(of_nat (unat (x::u32)) :: u64) = ucast x"
  using unsigned_less [of x, where 'a = nat]
  by (simp add: word_unat_eq_iff unat_of_nat take_bit_nat_eq_self)

lemma unat_diff_u64:
  assumes "unat (x::u32) \<le> unat (y::u32)"
  shows "unat (ucast y - ucast x :: u64) = unat y - unat x"
  using assms by (subst unat_sub) (simp_all add: word_le_nat_alt)

lemma vhdl_data_built:
  assumes "built rs s" and "within a0 (Data t a ds rst)" and "table_start (rs @ [Data t a ds rst]) = Some a0"
    and "length ds < 256" and "stands_at (hex_bytes ds) p buf0" and "caseless buf buf0"
  shows "\<exists>b s'. vhdl_data False p (of_nat (length ds)) (ucast (field t a)) buf (s, h) = Some (b, s', h)
    \<and> caseless b buf0 \<and> built (rs @ [Data t a ds rst]) s'"
proof -
  let ?r = "Data t a ds rst"
  define s1 where "s1 = s\<lparr>first := False, offset := ucast a0, address := ucast (field t a)\<rparr>"
  have s1: "(if first s then s\<lparr>address := ucast (field t a), offset := ucast (field t a), first := False\<rparr>
      else s\<lparr>address := ucast (field t a)\<rparr>) = s1"
    using assms(1,3) by (cases s) (auto simp: s1_def built_def image_init_def table_start_append split: option.splits)
  have code: "code s = rom rs a0"
    using assms(1,3) by (auto simp: built_def image_init_def table_start_append rom_def file_mem_no_data
        fun_eq_iff split: option.splits)
  have w: "unat a0 \<le> unat (field t a)" using assms(2) by simp
  have k: "unat (address s1 - offset s1) = unat (field t a) - unat a0"
    by (simp add: s1_def unat_diff_u64 [OF w])
  define s2 where "s2 = s1\<lparr>code := overlay (unat (field t a) - unat a0) ds (code s1),
    address := address s1 + of_nat (length ds)\<rparr>"
  have feed: "feed put_code ds s1 = Some s2"
    unfolding s2_def by (rule feed_put_code [OF k]) (use assms(2) in auto)
  obtain b where b: "caseless b buf0" "for_bytes put_code p 0 (of_nat (length ds)) buf s1 = Some (b, s2)"
    using for_bytes_data [OF assms(5) _ assms(6), of 0 put_code s1] feed assms(4) by auto
  have "built (rs @ [?r]) s2"
    using assms(2,3,4) rom_data [OF assms(2), of rs] code
    by (simp add: built_def s2_def s1_def of_nat_unat_u32)
  moreover have "vhdl_data False p (of_nat (length ds)) (ucast (field t a)) buf (s, h) = Some (b, s2, h)"
    using b(2) s1 by (cases "first s") (simp_all add: vhdl_data_def Let_def)
  ultimately show ?thesis using b(1) by blast
qed

lemma vhdl_data_line:
  assumes "built rs s" and wf: "wf_srec (Data t a ds rst)"
    and a0: "table_start (rs @ [Data t a ds rst]) = Some a0" and w: "within a0 (Data t a ds rst)"
    and buf: "buf = srec_body (Data t a ds rst) @ 10 # behind"
  shows "\<exists>b s'. vhdl_line False line buf (s, h) = Some (b, s', h) \<and> caseless b buf
    \<and> built (rs @ [Data t a ds rst]) s'"
proof -
  have n: "length ds + t + 2 < 256" and t: "t = 1 \<or> t = 2 \<or> t = 3" using wf by auto
  obtain b1 where b1: "hex2 2 buf = Some (of_nat (length ds + t + 2), b1)" "caseless b1 buf"
    using data_count [OF buf n] by blast
  have val: "(of_nat (length ds + t + 2) :: u64) - of_nat (t + 2) = of_nat (length ds)" by simp
  have hd: "buf ! 0 = 83" "buf ! 1 = 48 + of_nat t" by (simp_all add: buf)
  have len: "length ds < 256" using n by simp
  note fill = vhdl_data_built [OF assms(1) w a0 len data_fields_at(3) [OF buf], of _ h]
  show ?thesis using t
  proof (elim disjE)
    assume t: "t = 1"
    obtain b2 where b2: "hex4 4 b1 = Some (ucast (field t a), b2)" "caseless b2 buf"
      using data_address1 [OF buf b1(2) t] by blast
    show ?thesis using fill [OF b2(2)] b1(1) b2(1) hd val t by (auto simp: vhdl_line_def)
  next
    assume t: "t = 2"
    obtain b2 where b2: "hex6 4 b1 = Some (ucast (field t a), b2)" "caseless b2 buf"
      using data_address2 [OF buf b1(2) t] by blast
    show ?thesis using fill [OF b2(2)] b1(1) b2(1) hd val t by (auto simp: vhdl_line_def)
  next
    assume t: "t = 3"
    obtain b2 where b2: "hex8 4 b1 = Some (ucast (field t a), b2)" "caseless b2 buf"
      using data_address3 [OF buf b1(2) t] by blast
    show ?thesis using fill [OF b2(2)] b1(1) b2(1) hd val t by (auto simp: vhdl_line_def)
  qed
qed

lemma vhdl_other_line:
  assumes "wf_srec (Other c rst)" and "buf = srec_body (Other c rst) @ 10 # behind" and "3 < length buf"
  shows "\<exists>b. vhdl_line False line buf (s, h) = Some (b, s, h) \<and> length b = length buf"
proof (cases "c = 48")
  case True
  obtain b where b: "hex2 2 buf = Some (byte_at 2 buf, b)" "caseless b buf"
    using hex2_byte [of 2 buf] assms(3) by auto
  then show ?thesis
    using caseless_length [OF b(2)] assms(2) True by (simp add: vhdl_line_def vendor_text_def keep_image_def)
next
  case False
  then show ?thesis using assms(1,2) by (auto simp: vhdl_line_def keep_image_def note_line_def)
qed

lemma vhdl_line_built:
  assumes "built rs s" and "wf_srec r" and "\<forall>a0. table_start (rs @ [r]) = Some a0 \<longrightarrow> within a0 r"
    and "buf = srec_body r @ 10 # behind" and "3 < length buf"
  shows "\<exists>b s'. vhdl_line False line buf (s, h) = Some (b, s', h) \<and> length b = length buf \<and> built (rs @ [r]) s'"
proof (cases r)
  case (Data t a ds rst)
  obtain a0 where a0: "table_start (rs @ [Data t a ds rst]) = Some a0"
    by (cases "table_start rs") (auto simp: table_start_append)
  then show ?thesis
    using vhdl_data_line [OF assms(1) _ a0, of buf behind line h] assms(2-4) caseless_length
    unfolding Data by blast
next
  case (End t a rst)
  then have "vhdl_line False line buf (s, h) = Some (buf, s, h)"
    using assms(2,4) by (auto simp: vhdl_line_def keep_image_def note_line_def)
  then show ?thesis using built_other [OF assms(1), of r] End by blast
next
  case (Other c rst)
  then show ?thesis
    using vhdl_other_line [of c rst buf behind line s h] built_other [OF assms(1), of r] assms(2,4,5) by auto
qed

lemma vhdl_loop_built:
  assumes "built rs s" and "list_all wf_srec qs" and "list_all (fits 1000) qs"
    and "\<forall>a0. table_start (rs @ qs) = Some a0 \<longrightarrow> list_all (within a0) qs"
    and "line + length qs \<le> 2147483647" and "length buf = 1000"
  shows "\<exists>b s'. vhdl_loop False line buf (srec_text qs @ inp) (s, h)
      = vhdl_loop False (line + length qs) b inp (s', h) \<and> length b = 1000 \<and> built (rs @ qs) s'"
  using assms
proof (induction qs arbitrary: rs s line buf)
  case Nil
  then show ?case by auto
next
  case (Cons r qs)
  let ?b = "srec_body r @ 10 # 0 # drop (length (srec_body r) + 2) buf"
  have wf: "wf_srec r" "fits 1000 r" using Cons.prems by simp_all
  have l: "length ?b = 1000" using wf(2) Cons.prems(6) by (simp add: fits_def)
  have w: "\<forall>a0. table_start (rs @ [r]) = Some a0 \<longrightarrow> within a0 r"
    using Cons.prems(4) table_start_append [of "rs @ [r]" qs] by simp
  obtain b s' where b: "vhdl_line False (line + 1) ?b (s, h) = Some (b, s', h)" "length b = 1000"
    "built (rs @ [r]) s'"
    using vhdl_line_built [OF Cons.prems(1) wf(1) w refl, of "0 # drop (length (srec_body r) + 2) buf" "line + 1" h] l by auto
  have "vhdl_loop False line buf (srec_text (r # qs) @ inp) (s, h)
      = vhdl_loop False (line + 1) b (srec_text qs @ inp) (s', h)"
    unfolding vhdl_loop.simps [of False line buf] srec_text_Cons append_assoc LEN_BUFFER_def fgets_record [OF wf]
    using b(1) Cons.prems(5) by simp
  then show ?case using Cons.IH [OF b(3), of "line + 1" b] Cons.prems b(2) by simp
qed

section \<open>The program\<close>

lemma built_length:
  assumes "built rs s"
  shows "unat (address s - offset s) = table_length rs" and "table_length rs \<le> LEN_CODE"
proof -
  have "unat (address s - offset s) = table_length rs \<and> table_length rs \<le> LEN_CODE"
  proof (cases "table_start rs")
    case None
    then show ?thesis using assms by (simp add: built_def image_init_def table_length_def)
  next
    case (Some a0)
    let ?e = "fold srec_end rs 0"
    have e: "unat a0 \<le> ?e" "?e \<le> 2 ^ 32" "?e \<le> unat a0 + LEN_CODE" "address s = of_nat ?e" "offset s = ucast a0"
      using assms Some by (simp_all add: built_def)
    have "unat (of_nat ?e :: u64) = ?e" using e(2) by (simp add: unat_of_nat take_bit_nat_eq_self)
    then have "unat (of_nat ?e - ucast a0 :: u64) = ?e - unat a0"
      using e(1) by (subst unat_sub) (simp_all add: word_le_nat_alt)
    then show ?thesis using e Some by (simp add: table_length_def)
  qed
  then show "unat (address s - offset s) = table_length rs" and "table_length rs \<le> LEN_CODE" by simp_all
qed

text \<open>What the program writes: head, rows, foot.\<close>

definition vhdl_text :: "vhdl_opts \<Rightarrow> u8 list \<Rightarrow> srec list \<Rightarrow> u8 list" where
  "vhdl_text opt name rs = (if full opt then vhdl_head name else [])
     @ concat (map (vhdl_row_text opt (rom rs (the (table_start rs)))) [0..<row_count opt (table_length rs)])
     @ (if full opt then spaces opt @ vhdl_foot (unused opt) else [])"

lemma vhdl_convert_text:
  assumes "\<not> verbose opt" and "unit_size opt \<in> {SIZE_BYTE, SIZE_HALFWORD, SIZE_WORD}"
    and "list_all wf_srec rs" and "list_all (fits 1000) rs" and "length rs < 2 ^ 31" and "length buf = 1000"
    and "\<forall>a0. table_start rs = Some a0 \<longrightarrow> list_all (within a0) rs"
  shows "vhdl_convert opt name out (srec_text rs) buf h = Some (0, fprint out (vhdl_text opt name rs) h)"
proof -
  let ?h = "if full opt then fprint out (vhdl_head name) h else h" and ?n = "table_length rs"
  have "built [] image_init" by (simp add: built_def)
  then obtain s where s: "vhdl_loop False 0 buf (srec_text rs) (image_init, ?h) = Some (s, ?h)" "built rs s"
    using vhdl_loop_built [of "[]" image_init rs 0 buf "[]" ?h] assms
    by (auto simp: vhdl_loop.simps LEN_BUFFER_def)
  note len = built_length [OF s(2)]
  have "vhdl_rows opt (code s) 0 ?n out ?h
      = Some (fprint out (concat (map (vhdl_row_text opt (code s)) [0..<row_count opt ?n])) ?h)"
    using vhdl_rows_ok [OF assms(2) len(2), of 0 "code s" out ?h] by simp
  moreover have "concat (map (vhdl_row_text opt (code s)) [0..<row_count opt ?n])
      = concat (map (vhdl_row_text opt (rom rs (the (table_start rs)))) [0..<row_count opt ?n])"
  proof (cases "table_start rs")
    case None
    then have "row_count opt ?n = 0" using assms(2) by (auto simp: table_length_def row_count_def sizes)
    then show ?thesis by simp
  next
    case (Some a0)
    then have "code s = rom rs a0" using s(2) by (simp add: built_def)
    then show ?thesis using Some by simp
  qed
  ultimately show ?thesis
    using s(1) len(1,2) assms(1) by (simp add: vhdl_convert_def vhdl_text_def Let_def)
qed

lemma vhdl_options_size:
  "vhdl_options prog es opt = Some (Inr opt') \<Longrightarrow> unit_size opt \<in> {SIZE_BYTE, SIZE_HALFWORD, SIZE_WORD}
   \<Longrightarrow> unit_size opt' \<in> {SIZE_BYTE, SIZE_HALFWORD, SIZE_WORD}"
proof (induction prog es opt rule: vhdl_options.induct)
  case (2 prog e es opt)
  then show ?case by (auto simp: Let_def split: if_splits option.splits)
qed simp

text \<open>C28: For a well-formed file whose data lies from the address of its first data record on and
  within the array, srec2vhdl writes, for every combination of options but -v, head, rows
  and foot of the table whose elements are the bytes of the image the boot loader makes of
  the file, from the first address up to the end of the last record.\<close>

theorem vhdl_table_is_image:
  assumes "getopt (bytes ''0bhwvqfi:'') args = (es, opts, [src, dst])"
    and "vhdl_options prog es vhdl_defaults = Some (Inr opt)" and "\<not> verbose opt"
    and "files h src = Some (srec_text rs)" and "src \<noteq> dst" and "dst \<notin> unwritable h"
    and "list_all wf_srec rs" and "list_all (fits 1000) rs" and "length rs < 2 ^ 31" and "length buf = 1000"
    and "\<forall>a0. table_start rs = Some a0 \<longrightarrow> list_all (within a0) rs"
  shows "vhdl_main prog args buf h = Some (0, h\<lparr>files := (files h)(dst \<mapsto> vhdl_text opt src rs)\<rparr>)"
proof -
  have sz: "unit_size opt \<in> {SIZE_BYTE, SIZE_HALFWORD, SIZE_WORD}"
    by (rule vhdl_options_size [OF assms(2)]) (simp add: vhdl_defaults_def)
  have "args \<noteq> []" using assms(1) by auto
  then show ?thesis
    using assms(1-6) vhdl_convert_text [OF assms(3) sz assms(7-11)]
    by (simp add: vhdl_main_def vhdl_files_def) (simp add: fprint_def)
qed

theorem vhdl_table_is_image_witness:
  "vhdl_main (bytes ''srec2vhdl'') [bytes ''-wf'', bytes ''a.srec'', bytes ''a.vhd''] (replicate 1000 0)
     (sample_host sample_records)
   = Some (0, (sample_host sample_records)\<lparr>files := (files (sample_host sample_records))(bytes ''a.vhd'' \<mapsto>
       vhdl_text \<lparr>full = True, indent = True, indentarg = 8, verbose = False, unit_size = SIZE_WORD, unused = 45\<rparr>
         (bytes ''a.srec'') sample_records)\<rparr>)"
  by (rule vhdl_table_is_image [where es = "[Option 119 [], Option 102 []]" and opts = "[bytes ''-wf'']"])
    (simp_all add: sample_records_ok vhdl_defaults_def, simp add: sample_records_def field_def LEN_CODE_def)

text \<open>A byte below the address of the first record is stored outside the array.\<close>

lemma put_code_below:
  assumes "offset s = ucast (a0::u32)" and "address s = ucast (a::u32)" and "unat a < unat a0"
  shows "put_code b s = None"
proof -
  have "unat (address s - offset s) = 2 ^ 64 + unat a - unat a0"
    using assms by (simp add: unat_sub_if_size word_size word_le_nat_alt)
  moreover have "unat a0 < 2 ^ 32" using unsigned_less [of a0, where 'a = nat] by simp
  ultimately show ?thesis by (simp add: put_code_def LEN_CODE_def Let_def)
qed

lemma vhdl_line_below:
  assumes "built rs s" and "table_start rs = Some a0" and "wf_srec (Data t a ds rst)" and "ds \<noteq> []"
    and "unat (field t a) < unat a0" and "buf = srec_body (Data t a ds rst) @ behind"
  shows "vhdl_line verb line buf (s, h) = None"
proof -
  have n: "length ds + t + 2 < 256" and t: "t = 1 \<or> t = 2 \<or> t = 3" using assms(3) by auto
  obtain b1 where b1: "hex2 2 buf = Some (of_nat (length ds + t + 2), b1)" "caseless b1 buf"
    using data_count [OF assms(6) n] by blast
  have val: "(of_nat (length ds + t + 2) :: u64) - of_nat (t + 2) = of_nat (length ds)" by simp
  have hd: "buf ! 0 = 83" "buf ! 1 = 48 + of_nat t" by (simp_all add: assms(6))
  have s: "\<not> first s" "offset s = ucast a0" using assms(1,2) by (simp_all add: built_def)
  have none: "vhdl_data verb (2 * t + 6) (of_nat (length ds)) (ucast (field t a)) b (s, h) = None"
    if "caseless b buf" for b
  proof -
    let ?s = "s\<lparr>address := ucast (field t a)\<rparr>"
    have "put_code x ?s = None" for x by (rule put_code_below [OF _ _ assms(5)]) (simp_all add: s(2))
    then have "feed put_code ds ?s = None" using assms(4) by (cases ds) simp_all
    then show ?thesis
      using for_bytes_data [OF data_fields_at(3) [OF assms(6)] _ that, of 0 put_code ?s] n s(1)
      by (auto simp: vhdl_data_def Let_def)
  qed
  from t show ?thesis
  proof (elim disjE)
    assume t: "t = 1"
    obtain b2 where b2: "hex4 4 b1 = Some (ucast (field t a), b2)" "caseless b2 buf"
      using data_address1 [OF assms(6) b1(2) t] by blast
    show ?thesis using none [OF b2(2)] b1(1) b2(1) hd val t by (simp add: vhdl_line_def)
  next
    assume t: "t = 2"
    obtain b2 where b2: "hex6 4 b1 = Some (ucast (field t a), b2)" "caseless b2 buf"
      using data_address2 [OF assms(6) b1(2) t] by blast
    show ?thesis using none [OF b2(2)] b1(1) b2(1) hd val t by (simp add: vhdl_line_def)
  next
    assume t: "t = 3"
    obtain b2 where b2: "hex8 4 b1 = Some (ucast (field t a), b2)" "caseless b2 buf"
      using data_address3 [OF assms(6) b1(2) t] by blast
    show ?thesis using none [OF b2(2)] b1(1) b2(1) hd val t by (simp add: vhdl_line_def)
  qed
qed

text \<open>C31: A data byte below the address of the first data record makes srec2vhdl store outside
  its array.\<close>

theorem vhdl_below_first:
  assumes "getopt (bytes ''0bhwvqfi:'') args = (es, opts, [src, dst])"
    and "vhdl_options prog es vhdl_defaults = Some (Inr opt)" and "\<not> verbose opt"
    and "files h src = Some (srec_text (rs @ Data t a ds rst # qs))" and "src \<noteq> dst" and "dst \<notin> unwritable h"
    and "list_all wf_srec (rs @ [Data t a ds rst])" and "list_all (fits 1000) (rs @ [Data t a ds rst])"
    and "length rs < 2 ^ 31 - 1" and "length buf = 1000"
    and "table_start rs = Some a0" and "list_all (within a0) rs" and "ds \<noteq> []" and "unat (field t a) < unat a0"
  shows "vhdl_main prog args buf h = None"
proof -
  let ?r = "Data t a ds rst"
  have wf: "wf_srec ?r" "fits 1000 ?r" using assms(7,8) by simp_all
  have "vhdl_loop False 0 buf (srec_text (rs @ ?r # qs)) (image_init, k) = None" for k
  proof -
    have whole: "srec_text (rs @ ?r # qs) = srec_text rs @ srec_line ?r @ srec_text qs"
      by (simp add: srec_text_def)
    have "built [] image_init" by (simp add: built_def)
    then obtain b s where s: "vhdl_loop False 0 buf (srec_text rs @ srec_line ?r @ srec_text qs) (image_init, k)
        = vhdl_loop False (length rs) b (srec_line ?r @ srec_text qs) (s, k)" "built rs s"
      using vhdl_loop_built [of "[]" image_init rs 0 buf "srec_line ?r @ srec_text qs" k] assms(7-12)
      by auto
    have "vhdl_line False (length rs + 1) (srec_body ?r @ 10 # 0 # drop (length (srec_body ?r) + 2) b) (s, k) = None"
      by (rule vhdl_line_below [OF s(2) assms(11) wf(1) assms(13,14) refl])
    then show ?thesis
      unfolding whole s(1) vhdl_loop.simps [of False "length rs"] LEN_BUFFER_def fgets_record [OF wf]
      by simp
  qed
  moreover have "args \<noteq> []" using assms(1) by auto
  ultimately show ?thesis
    using assms(1-6) by (simp add: vhdl_main_def vhdl_files_def vhdl_convert_def)
qed

theorem vhdl_below_first_witness:
  "vhdl_main (bytes ''srec2vhdl'') [bytes ''a.srec'', bytes ''a.vhd''] (replicate 1000 0)
     (sample_host ([Data 1 0x8000 [1] []] @ Data 1 0x100 [2] [] # [])) = None"
  by (rule vhdl_below_first [where es = "[]" and opts = "[]" and ?a0.0 = "0x8000" and t = 1 and a = "0x100"
        and ds = "[2]" and rst = "[]" and qs = "[]" and rs = "[Data 1 0x8000 [1] []]"
        and src = "bytes ''a.srec''" and dst = "bytes ''a.vhd''" and opt = vhdl_defaults])
    (simp_all add: vhdl_defaults_def field_def LEN_CODE_def fits_def del: hexstr.simps)

end
