(* ===== verification/Upload.thy ===== *)
theory Upload
  imports HostC
begin

text \<open>
  \<open>CODE/upload/upload.c\<close>: the program that sends an S-record file to the boot loader over a serial
  line and waits for the acknowledge of each line. What stands at the other end of the line is a
  parameter: the characters it has sent, before the read times out, once it has received a given
  text.
\<close>

section \<open>Terminal attributes\<close>

text \<open>The fields of \<open>struct termios\<close> the program sets, and the flags, as on Linux.\<close>

record termios =
  c_iflag :: u32
  c_oflag :: u32
  c_cflag :: u32
  c_lflag :: u32
  VMIN :: u8
  VTIME :: u8
  c_ispeed :: u32
  c_ospeed :: u32

definition CSIZE :: u32 where "CSIZE = 0x30"
definition CS8 :: u32 where "CS8 = 0x30"
definition CSTOPB :: u32 where "CSTOPB = 0x40"
definition CREAD :: u32 where "CREAD = 0x80"
definition PARENB :: u32 where "PARENB = 0x100"
definition PARODD :: u32 where "PARODD = 0x200"
definition CLOCAL :: u32 where "CLOCAL = 0x800"
definition CRTSCTS :: u32 where "CRTSCTS = 0x80000000"
definition IGNBRK :: u32 where "IGNBRK = 1"
definition IXON :: u32 where "IXON = 0x400"
definition IXOFF :: u32 where "IXOFF = 0x1000"
definition IXANY :: u32 where "IXANY = 0x800"
definition B9600 :: u32 where "B9600 = 0xd"
definition CBAUD :: u32 where "CBAUD = 0x100f"

lemmas termios_flags = CSIZE_def CS8_def CSTOPB_def CREAD_def PARENB_def PARODD_def CLOCAL_def
  CRTSCTS_def IGNBRK_def IXON_def IXOFF_def IXANY_def B9600_def CBAUD_def

text \<open>
  The surroundings of a run: the result of opening a device and of the two attribute calls (an
  error number, 0 for success), the texts of the errors, the library functions that store a speed in
  the attributes (where is up to the system), and the far end of the line: the characters that
  \<open>read\<close> delivers once the host has written a given text.
\<close>

record line_env =
  open_errno :: "u8 list \<Rightarrow> int"
  getattr_errno :: int
  setattr_errno :: int
  strerror :: "int \<Rightarrow> u8 list"
  cfsetospeed :: "u32 \<Rightarrow> termios \<Rightarrow> termios"
  cfsetispeed :: "u32 \<Rightarrow> termios \<Rightarrow> termios"
  far_end :: "u8 list \<Rightarrow> u8 list"

text \<open>The host with its serial port: attributes, characters written, number of characters read.\<close>

record session = host +
  tty :: termios
  sent :: "u8 list"
  taken :: nat

text \<open>The attributes of 8 data bits, no parity but \<open>parity\<close>, one stop bit, no flow control.\<close>

definition raw_mode :: "line_env \<Rightarrow> u32 \<Rightarrow> u32 \<Rightarrow> termios \<Rightarrow> termios" where
  "raw_mode env speed parity t = (let
     t = cfsetospeed env speed t;
     t = cfsetispeed env speed t;
     t = t\<lparr>c_cflag := (c_cflag t AND NOT CSIZE) OR CS8\<rparr>;
     t = t\<lparr>c_iflag := c_iflag t AND NOT IGNBRK\<rparr>;
     t = t\<lparr>c_lflag := 0\<rparr>;
     t = t\<lparr>c_oflag := 0\<rparr>;
     t = t\<lparr>VMIN := 0, VTIME := 5\<rparr>;
     t = t\<lparr>c_iflag := c_iflag t AND NOT (IXON OR IXOFF OR IXANY)\<rparr>;
     t = t\<lparr>c_cflag := c_cflag t OR (CLOCAL OR CREAD)\<rparr>;
     t = t\<lparr>c_cflag := c_cflag t AND NOT (PARENB OR PARODD)\<rparr>;
     t = t\<lparr>c_cflag := c_cflag t OR parity\<rparr>;
     t = t\<lparr>c_cflag := c_cflag t AND NOT CSTOPB\<rparr>
     in t\<lparr>c_cflag := c_cflag t AND NOT CRTSCTS\<rparr>)"

definition error_text :: "int \<Rightarrow> string \<Rightarrow> u8 list" where
  "error_text e what = bytes ''error '' @ int_str e @ nl what"

definition set_interface_attribs :: "line_env \<Rightarrow> u32 \<Rightarrow> u32 \<Rightarrow> session \<Rightarrow> int \<times> session" where
  "set_interface_attribs env speed parity s =
     (if getattr_errno env \<noteq> 0 then (-1, print_out (error_text (getattr_errno env) '' from tcgetattr'') s)
      else if setattr_errno env \<noteq> 0 then (-1, print_out (error_text (setattr_errno env) '' from tcsetattr'') s)
      else (0, s\<lparr>tty := raw_mode env speed parity (tty s)\<rparr>))"

text \<open>An element of \<open>c_cc\<close> is a byte: the time-out is reduced to 8 bits.\<close>

definition set_blocking :: "line_env \<Rightarrow> bool \<Rightarrow> int \<Rightarrow> session \<Rightarrow> session" where
  "set_blocking env should_block timeout s =
     (if getattr_errno env \<noteq> 0 then print_out (error_text (getattr_errno env) '' from tggetattr'') s
      else if setattr_errno env \<noteq> 0 then
        print_out (error_text (setattr_errno env) '' setting term attributes'') s
      else s\<lparr>tty := (tty s)\<lparr>VMIN := (if should_block then 1 else 0), VTIME := word_of_int timeout\<rparr>\<rparr>)"

section \<open>The line\<close>

definition write_port :: "u8 \<Rightarrow> session \<Rightarrow> session" where
  "write_port c s = s\<lparr>sent := sent s @ [c]\<rparr>"

text \<open>\<open>n = read (fd, line, 1)\<close>: the next character of the far end, or \<open>n = 0\<close> after the time-out.\<close>

definition read_port :: "line_env \<Rightarrow> session \<Rightarrow> u8 option \<times> session" where
  "read_port env s = (if taken s < length (far_end env (sent s))
     then (Some (far_end env (sent s) ! taken s), s\<lparr>taken := taken s + 1\<rparr>) else (None, s))"

text \<open>The loop that waits for the end of a line; the result tells whether it came (\<open>n \<noteq> 0\<close>).\<close>

function wait_newline :: "line_env \<Rightarrow> u8 list \<Rightarrow> session \<Rightarrow> bool \<times> u8 list \<times> session" where
  "wait_newline env buf s = (case read_port env s of
       (None, s) \<Rightarrow> (False, buf, s)
     | (Some c, s) \<Rightarrow> (let buf = buf[0 := c] in
         if c = 10 then (True, buf, s) else wait_newline env buf s))"
  by pat_completeness auto
termination
  by (relation "measure (\<lambda>(env, buf, s). length (far_end env (sent s)) - taken s)")
     (auto simp: read_port_def split: if_splits)

declare wait_newline.simps [simp del]

definition tell :: "bool \<Rightarrow> string \<Rightarrow> session \<Rightarrow> session" where
  "tell verbose t s = (if verbose then print_out (bytes t) s else s)"

section \<open>Sending the file\<close>

text \<open>One line, character by character; when verbose, all but the line ends are echoed.\<close>

fun send_chars :: "bool \<Rightarrow> u8 list \<Rightarrow> session \<Rightarrow> session" where
  "send_chars verbose [] s = s"
| "send_chars verbose (c # cs) s = (let s = write_port c s in
     send_chars verbose cs (if verbose \<and> c \<noteq> 10 \<and> c \<noteq> 13 then print_out [c] s else s))"

definition LEN_LINE :: nat where
  "LEN_LINE = 1000"

function send_lines :: "line_env \<Rightarrow> bool \<Rightarrow> bool \<Rightarrow> u8 list \<Rightarrow> u8 list \<Rightarrow> session
    \<Rightarrow> bool \<times> u8 list \<times> session" where
  "send_lines env verbose quiet buf inp s = (case fgets (LEN_LINE - 2) buf inp of
       None \<Rightarrow> (True, buf, s)
     | Some (buf, rst) \<Rightarrow>
         (let s = send_chars verbose (c_str buf) (tell verbose ''Write '' s) in
          case wait_newline env (replicate LEN_LINE 0) s of
            (False, buf, s) \<Rightarrow> (False, buf, print_out (nl ''Nothing read while sending data!'') s)
          | (True, buf, s) \<Rightarrow> send_lines env verbose quiet buf rst
              (if verbose then print_out (nl ''  OK'') s
               else if \<not> quiet then print_out (bytes ''*'') s else s)))"
  by pat_completeness auto
termination
  by (relation "measure (\<lambda>(env, verbose, quiet, buf, inp, s). length inp)")
     (auto simp: LEN_LINE_def dest: fgets_shorter)

declare send_lines.simps [simp del]

definition end_marker :: "bool \<Rightarrow> u8" where
  "end_marker jump = (if jump then 74 else 35)"

definition transfer :: "line_env \<Rightarrow> bool \<Rightarrow> bool \<Rightarrow> bool \<Rightarrow> u8 list \<Rightarrow> session \<Rightarrow> int \<times> session" where
  "transfer env verbose quiet jump inp s =
     (let s = write_port 33 (tell verbose (''Sending '' @ [CHR 0x27, CHR ''!'', CHR 0x27] @ ''... '') s) in
      case wait_newline env (replicate LEN_LINE 0) s of
        (False, buf, s) \<Rightarrow> (-2, print_out (nl ''Cannot contact bootloader!'') s)
      | (True, buf, s) \<Rightarrow>
        (case send_lines env verbose quiet buf inp (if verbose then print_out (nl ''OK'') s else s) of
          (False, buf, s) \<Rightarrow> (-3, s)
        | (True, buf, s) \<Rightarrow>
          (let s = (if \<not> quiet \<and> \<not> verbose then print_out [10] s else s);
               s = tell verbose (''Write '' @ [CHR 0x27, if jump then CHR ''J'' else CHR ''#'', CHR 0x27, CHR '' '']) s;
               s = write_port (end_marker jump) s in
           case wait_newline env buf s of
             (False, buf, s) \<Rightarrow> (-3, print_out (nl ''Nothing read while sending end of transmission!'') s)
           | (True, buf, s) \<Rightarrow> (0, if verbose then print_out (nl ''  OK'') s else s))))"

section \<open>The program\<close>

definition upload_usage :: "u8 list" where
  "upload_usage = nl ''upload -v -d <device> -t <timeout> filename''
     @ nl ''Upload S-record file to THUAS RISC-V processor''
     @ nl ''-v           -- verbose''
     @ nl ''-q           -- quiet, only errors''
     @ nl ''-j           -- run application after upload''
     @ nl ''-d <device>  -- serial device''
     @ nl ''-t <timeout> -- timeout in deci seconds''
     @ nl ''-s <sleep>   -- sleep micro seconds after each character''"

record upload_opts =
  portname :: "u8 list"
  u_verbose :: bool
  u_timeout :: int
  u_jump :: bool
  slepe :: int
  u_quiet :: bool

definition upload_defaults :: upload_opts where
  "upload_defaults = \<lparr>portname = bytes ''/dev/ttyUSB0'', u_verbose = False, u_timeout = 10,
     u_jump = False, slepe = 0, u_quiet = False\<rparr>"

text \<open>\<open>v\<close> falls through to \<open>q\<close>; negative numbers become 0.\<close>

fun upload_options :: "u8 list \<Rightarrow> opt_event list \<Rightarrow> upload_opts \<Rightarrow> (u8 list + upload_opts) option" where
  "upload_options prog [] opt = Some (Inr opt)"
| "upload_options prog (e # es) opt =
     (let c = opt_char e in
      if c = 100 then upload_options prog es (opt\<lparr>portname := opt_arg e\<rparr>)
      else if c = 106 then upload_options prog es (opt\<lparr>u_jump := True\<rparr>)
      else if c = 118 then upload_options prog es (opt\<lparr>u_verbose := True, u_quiet := True\<rparr>)
      else if c = 113 then upload_options prog es (opt\<lparr>u_quiet := True\<rparr>)
      else if c = 116 then (case atoi (opt_arg e) of
          None \<Rightarrow> None
        | Some n \<Rightarrow> upload_options prog es (opt\<lparr>u_timeout := (if n < 0 then 0 else n)\<rparr>))
      else if c = 115 then (case atoi (opt_arg e) of
          None \<Rightarrow> None
        | Some n \<Rightarrow> upload_options prog es (opt\<lparr>slepe := (if n < 0 then 0 else n)\<rparr>))
      else Some (Inl (opt_complaint prog e @ unknown_option c)))"

definition upload_file :: "line_env \<Rightarrow> upload_opts \<Rightarrow> u8 list list \<Rightarrow> session \<Rightarrow> int \<times> session" where
  "upload_file env opt ops s =
     (if ops = [] then (1, eprint (nl ''Please supply an input filename'') s)
      else (case files s (ops ! 0) of
          None \<Rightarrow> (1, eprint (bytes ''Cannot open input file '' @ ops ! 0 @ [10]) s)
        | Some inp \<Rightarrow>
            (let s = (if u_verbose opt then print_out (bytes ''Serial port is: '' @ portname opt @ [10]) s else s);
                 e = open_errno env (portname opt) in
             if e \<noteq> 0 then
               (-1, print_out (bytes ''error '' @ int_str e @ bytes '' opening '' @ portname opt @ bytes '': ''
                  @ strerror env e @ [10]) s)
             else transfer env (u_verbose opt) (u_quiet opt) (u_jump opt) inp
               (set_blocking env False (u_timeout opt) (snd (set_interface_attribs env B9600 0 s))))))"

definition upload_main :: "line_env \<Rightarrow> u8 list \<Rightarrow> u8 list list \<Rightarrow> session \<Rightarrow> (int \<times> session) option" where
  "upload_main env prog args s =
     (if args = [] then Some (0, print_out upload_usage s)
      else (case getopt (bytes ''vd:t:js:q'') args of (es, opts, ops) \<Rightarrow>
       (case upload_options prog es upload_defaults of
          None \<Rightarrow> None
        | Some (Inl msg) \<Rightarrow> Some (1, eprint msg s)
        | Some (Inr opt) \<Rightarrow> Some (upload_file env opt ops s))))"

end
