(* ===== verification/UploadProof.thy ===== *)
theory UploadProof
  imports BootProof Upload HostHex
begin

text \<open>
  \<open>upload\<close> and the boot loader at the two ends of the line. The far end answers what the model of
  the boot loader sends from reset on when it is given the characters the host has written; its
  greeting is over before the host opens the port, and what the application sends after the jump is
  a parameter. With such a board the upload of a
  well-formed file comes to its end, and the board holds the image of the file.
\<close>

section \<open>What the board answers\<close>

definition board_after :: "u8 list \<Rightarrow> machine" where
  "board_after xs = final_state (the (boot_main (replicate BUFLEN 0) (power_on xs)))"

text \<open>\<open>out\<close> is what the application sends, once the boot loader has started it, before the host's read times
  out.\<close>

definition board_replies :: "u8 list \<Rightarrow> u8 list \<Rightarrow> u8 list" where
  "board_replies out xs = drop (length greeting) (line_out (board_after xs))
     @ (case boot_main (replicate BUFLEN 0) (power_on xs) of Some (Jumped t m) \<Rightarrow> out | _ \<Rightarrow> [])"

lemma due_power_on: "due 1 (power_on (c # cs))"
  by (simp add: due_def power_on_def)

lemma board_starts:
  assumes "xs = 33 # cs"
  shows "\<exists>n. boot_main buf (power_on xs) =
      andthen_opt (andthen_opt (upload_loop 0 n) (\<lambda>app m. Some (Done app (io_write POUT 0xaa m))))
        (\<lambda>app m. andthen_opt (Some (puts [CR, LF] m)) (\<lambda>_ m. bl_monitor app (0, buf) m))
    \<and> line_out n = bytes greeting @ ack \<and> pending n = cs \<and> mem n = (\<lambda>_. 0)"
proof -
  obtain j n where n: "1 < (1048575::nat) \<longrightarrow> j = 0" "boot_main buf (power_on xs) =
      andthen_opt (andthen_opt (upload_loop 0 n) (\<lambda>app m. Some (Done app (io_write POUT 0xaa m))))
        (\<lambda>app m. andthen_opt (Some (puts [CR, LF] m)) (\<lambda>_ m. bl_monitor app (0, buf) m))"
    "line_out n = line_out (power_on xs) @ bytes greeting @ replicate j 42 @ ack"
    "core n = (core (power_on xs))\<lparr>pouta := 0, ubaud := 5207\<rparr>" "pending n = cs"
    using boot_uploads [OF due_power_on, of 33 cs cs buf] assms by auto
  have "mem n = mem (power_on xs)" using arg_cong [OF n(4), of mem] by simp
  then show ?thesis using n by auto
qed

lemma upload_loop_waits:
  assumes "pending m = []"
  shows "upload_loop app m = Some (Stuck (toggle_led m))"
proof -
  have "pending (toggle_led m) = []"
    using receives_pending [OF toggle_receives, of m] assms by simp
  then have "upload_iter app m = Stuck (toggle_led m)"
    by (simp add: upload_iter_def usart_getc_stuck)
  then show ?thesis by (simp add: upload_loop.simps [of app m])
qed

lemma bl_monitor_waits:
  assumes "pending m = []"
  shows "\<exists>n. bl_monitor app (a, buf) m = Some (Stuck n) \<and> line_out n = line_out m @ bytes ''> '' \<and> mem n = mem m"
proof -
  obtain n where n: "puts ''> '' m = Done () n" "serial [] (bytes ''> '') m n"
    by (rule trafficE [OF traffic_puts [of "''> ''" m]]) simp
  then have "pending n = []" using serial_pending [OF n(2)] assms by simp
  then have "bl_round app (a, buf) m = Stuck n"
    using n(1) by (simp add: bl_round_def usart_gets_def gets_loop.simps [of buf 0] usart_getc_stuck)
  then show ?thesis
    using n(2) serial_mem [OF n(2)] by (simp add: bl_monitor.simps [of app "(a, buf)" m] serial_def)
qed

lemma length_greeting: "length (bytes greeting) = length greeting"
  by simp

lemma board_lines:
  assumes "list_all wf_srec rs" and "list_all loadable rs"
  shows "board_replies out (33 # srec_text rs) = concat (replicate (Suc (length rs)) ack)"
proof -
  obtain n where n: "boot_main (replicate BUFLEN 0) (power_on (33 # srec_text rs)) =
      andthen_opt (andthen_opt (upload_loop 0 n) (\<lambda>app m. Some (Done app (io_write POUT 0xaa m))))
        (\<lambda>app m. andthen_opt (Some (puts [CR, LF] m)) (\<lambda>_ m. bl_monitor app (0, replicate BUFLEN 0) m))"
    "line_out n = bytes greeting @ ack" "pending n = srec_text rs"
    using board_starts [of _ "srec_text rs"] by blast
  obtain m where m: "upload_loop 0 n = upload_loop (file_start rs 0) m"
    "receives (srec_text rs) (concat (replicate (length rs) ack)) (file_mem rs) (led (length rs)) n m"
    using upload_loop_records [OF assms, of n "[]" 0] n(3) by auto
  have "pending m = []" using receives_pending [OF m(2)] n(3) by simp
  then have run: "boot_main (replicate BUFLEN 0) (power_on (33 # srec_text rs)) = Some (Stuck (toggle_led m))"
    using n(1) m(1) by (simp add: upload_loop_waits)
  then have "board_after (33 # srec_text rs) = toggle_led m" by (simp add: board_after_def)
  moreover have "line_out (toggle_led m) = line_out m"
    using toggle_receives [of m] by (simp add: receives_def)
  moreover have "line_out m = line_out n @ concat (replicate (length rs) ack)"
    using m(2) by (simp add: receives_def)
  ultimately show ?thesis by (simp add: board_replies_def n(2) run)
qed

lemma board_break:
  assumes "list_all wf_srec rs" and "list_all loadable rs"
  shows "\<exists>n. boot_main (replicate BUFLEN 0) (power_on (33 # srec_text rs @ [35]))
      = bl_monitor (file_start rs 0) (0, replicate BUFLEN 0) n
    \<and> mem (board_after (33 # srec_text rs @ [35])) = file_mem rs (\<lambda>_. 0)
    \<and> board_replies out (33 # srec_text rs @ [35]) = concat (replicate (Suc (length rs)) ack) @ [13, 10] @ bytes ''> ''"
proof -
  let ?b = "replicate BUFLEN 0 :: u8 list" and ?x = "33 # srec_text rs @ [35] :: u8 list"
  obtain j n where n: "1 < (1048575::nat) \<longrightarrow> j = 0"
    "boot_main ?b (power_on ?x) = bl_monitor (file_start rs 0) (0, ?b) n"
    "mem n = file_mem rs (\<lambda>_. 0)" "pending n = []"
    "line_out n = bytes greeting @ replicate j 42 @ concat (replicate (Suc (length rs)) ack) @ bytes [CR, LF]"
    using upload_then_monitor [OF due_power_on _ assms, of 33 "srec_text rs @ [35]" "[]" ?b] by auto
  obtain k where k: "bl_monitor (file_start rs 0) (0, ?b) n = Some (Stuck k)" "line_out k = line_out n @ bytes ''> ''"
    "mem k = mem n"
    using bl_monitor_waits [OF n(4)] by blast
  have "board_after ?x = k" using n(2) k(1) by (simp add: board_after_def)
  then show ?thesis using n k by (intro exI [of _ n]) (simp add: board_replies_def)
qed

lemma board_jump:
  assumes "list_all wf_srec rs" and "list_all loadable rs"
  shows "\<exists>n. boot_main (replicate BUFLEN 0) (power_on (33 # srec_text rs @ [74])) = Some (Jumped (file_start rs 0) n)
    \<and> mem n = file_mem rs (\<lambda>_. 0)
    \<and> board_replies out (33 # srec_text rs @ [74]) = concat (replicate (Suc (length rs)) ack) @ out"
proof -
  let ?b = "replicate BUFLEN 0 :: u8 list" and ?x = "33 # srec_text rs @ [74] :: u8 list"
  obtain j n where n: "1 < (1048575::nat) \<longrightarrow> j = 0"
    "boot_main ?b (power_on ?x) = Some (Jumped (file_start rs 0) n)" "mem n = file_mem rs (\<lambda>_. 0)"
    "line_out n = bytes greeting @ replicate j 42 @ concat (replicate (Suc (length rs)) ack)"
    using upload_then_jump [OF due_power_on _ assms, of 33 "srec_text rs @ [74]" "[]" ?b] by auto
  have "board_after ?x = n" using n(2) by (simp add: board_after_def)
  then show ?thesis using n by (auto simp: board_replies_def)
qed

section \<open>The waits of the host\<close>

lemma wait_newline_found:
  assumes "far_end env (sent s) = pre @ cs @ 10 # rst" and "taken s = length pre" and "10 \<notin> set cs"
  shows "\<exists>b. wait_newline env buf s = (True, b, s\<lparr>taken := taken s + length cs + 1\<rparr>)"
  using assms
proof (induction cs arbitrary: pre buf s)
  case Nil
  then show ?case by (auto simp: wait_newline.simps [of env buf] read_port_def Let_def)
next
  case (Cons c cs)
  let ?s = "s\<lparr>taken := taken s + 1\<rparr>"
  have r: "read_port env s = (Some c, ?s)"
    using Cons.prems by (simp add: read_port_def)
  obtain b where "wait_newline env (buf[0 := c]) ?s = (True, b, ?s\<lparr>taken := taken ?s + length cs + 1\<rparr>)"
    using Cons.IH [of ?s "pre @ [c]" "buf[0 := c]"] Cons.prems by auto
  then show ?case
    using r Cons.prems(3) by (simp add: wait_newline.simps [of env buf] Let_def)
qed

lemma wait_newline_timeout:
  assumes "length (far_end env (sent s)) \<le> taken s"
  shows "wait_newline env buf s = (False, buf, s)"
  using assms by (simp add: wait_newline.simps [of env buf] read_port_def)

lemma wait_newline_missing:
  assumes "far_end env (sent s) = pre @ cs" and "taken s = length pre" and "10 \<notin> set cs"
  shows "\<exists>b. wait_newline env buf s = (False, b, s\<lparr>taken := taken s + length cs\<rparr>)"
  using assms
proof (induction cs arbitrary: pre buf s)
  case Nil
  then show ?case using wait_newline_timeout [of env s buf] by auto
next
  case (Cons c cs)
  let ?s = "s\<lparr>taken := taken s + 1\<rparr>"
  have r: "read_port env s = (Some c, ?s)"
    using Cons.prems by (simp add: read_port_def)
  obtain b where "wait_newline env (buf[0 := c]) ?s = (False, b, ?s\<lparr>taken := taken ?s + length cs\<rparr>)"
    using Cons.IH [of ?s "pre @ [c]" "buf[0 := c]"] Cons.prems by auto
  then show ?case
    using r Cons.prems(3) by (simp add: wait_newline.simps [of env buf] Let_def)
qed

text \<open>What printing leaves alone: the host with its output blanked.\<close>

definition port_of :: "session \<Rightarrow> u8 list \<times> nat \<times> termios \<times> u8 list" where
  "port_of s = (sent s, taken s, tty s, serr s)"

lemma port_of_print [simp]:
  "port_of (print_out t s) = port_of s" "port_of (tell v w s) = port_of s"
  by (simp_all add: port_of_def print_out_def tell_def)

lemma port_of_fields: "port_of s = port_of s' \<Longrightarrow> sent s = sent s' \<and> taken s = taken s'"
  by (simp add: port_of_def)

lemma files_print [simp]: "files (print_out t s) = files s"
  by (simp add: print_out_def)

lemma send_chars_sent:
  "sent (send_chars v cs s) = sent s @ cs" "taken (send_chars v cs s) = taken s"
  by (induction v cs s rule: send_chars.induct) (simp_all add: Let_def write_port_def print_out_def)

section \<open>The file line by line\<close>

text \<open>A record as a line of text: the host takes its characters up to a zero byte.\<close>

definition plain_record :: "srec \<Rightarrow> bool" where
  "plain_record r \<longleftrightarrow> 0 \<notin> set (srec_body r)"

lemma acks_Suc: "concat (replicate (Suc n) ack) = concat (replicate n ack) @ [63] @ 10 # []"
  by (induction n) (simp_all add: ack_def)

lemma send_lines_board:
  assumes "far_end env = board_replies out" and "list_all wf_srec (ps @ rs)" and "list_all loadable (ps @ rs)"
    and "list_all (fits 998) rs" and "list_all plain_record rs"
    and "sent s = 33 # srec_text ps" and "taken s = 2 * Suc (length ps)"
  shows "\<exists>b s'. send_lines env v q buf (srec_text rs) s = (True, b, s')
    \<and> sent s' = 33 # srec_text (ps @ rs) \<and> taken s' = 2 * Suc (length (ps @ rs))"
  using assms(2-)
proof (induction rs arbitrary: ps buf s)
  case Nil
  then show ?case by (simp add: send_lines.simps)
next
  case (Cons r rs)
  have wf: "wf_srec r" "fits 998 r" "0 \<notin> set (srec_body r)" using Cons.prems by (simp_all add: plain_record_def)
  let ?b = "srec_body r @ 10 # 0 # drop (length (srec_body r) + 2) buf"
  have line: "c_str ?b = srec_line r"
    using c_str_terminated [of "srec_body r @ [10]" "drop (length (srec_body r) + 2) buf"] wf(3)
    by (simp add: srec_line_def)
  define s1 where "s1 = send_chars v (srec_line r) (tell v ''Write '' s)"
  have s1: "sent s1 = 33 # srec_text (ps @ [r])" "taken s1 = 2 * Suc (length ps)"
    using Cons.prems(5,6) port_of_fields [OF port_of_print(2), of v "''Write ''" s]
    by (simp_all add: s1_def send_chars_sent srec_text_def)
  have far: "far_end env (sent s1) = concat (replicate (Suc (length ps)) ack) @ [63] @ 10 # []"
    using board_lines [of "ps @ [r]" out] Cons.prems(1,2) assms(1) s1(1) acks_Suc [of "Suc (length ps)"]
    by (simp del: replicate.simps)
  have len: "taken s1 = length (concat (replicate (Suc (length ps)) ack))"
    using s1(2) by (simp add: length_concat sum_list_replicate ack_def)
  obtain b where b: "wait_newline env (replicate LEN_LINE 0) s1 = (True, b, s1\<lparr>taken := taken s1 + length [63::u8] + 1\<rparr>)"
    using wait_newline_found [OF far len] by auto
  let ?s1 = "s1\<lparr>taken := taken s1 + length [63::u8] + 1\<rparr>"
  define s2 where "s2 = (if v then print_out (nl ''  OK'') ?s1 else if \<not> q then print_out (bytes ''*'') ?s1 else ?s1)"
  have step: "send_lines env v q buf (srec_text (r # rs)) s = send_lines env v q b (srec_text rs) s2"
    using fgets_record [OF wf(1,2), of buf "srec_text rs"] line b
    by (simp add: send_lines.simps [of env v q buf] LEN_LINE_def Let_def s1_def s2_def)
  have "sent s2 = sent s1" "taken s2 = taken s1 + 2"
    by (simp_all add: s2_def print_out_def)
  then have s2: "sent s2 = 33 # srec_text (ps @ [r])" "taken s2 = 2 * Suc (length (ps @ [r]))"
    using s1 by simp_all
  show ?case
    using Cons.IH [of "ps @ [r]" s2 b] Cons.prems s2 unfolding step by simp
qed

lemma end_of_transmission_board:
  assumes "far_end env = board_replies out" and "list_all wf_srec rs" and "list_all loadable rs"
    and sent: "sent s = 33 # srec_text rs @ [end_marker jump]" and "taken s = 2 * Suc (length rs)"
  shows "\<exists>b' n. wait_newline env b s = (\<not> jump \<or> 10 \<in> set out, b', s\<lparr>taken := n\<rparr>)"
proof -
  have len: "taken s = length (concat (replicate (Suc (length rs)) ack))"
    using assms(5) by (simp add: length_concat sum_list_replicate ack_def)
  show ?thesis
  proof (cases jump)
    case True
    have far: "far_end env (sent s) = concat (replicate (Suc (length rs)) ack) @ out"
      using board_jump [OF assms(2,3)] assms(1) sent True by (auto simp: end_marker_def)
    show ?thesis
    proof (cases "10 \<in> set out")
      case nl: True
      then obtain xs ys where out: "out = xs @ 10 # ys" "10 \<notin> set xs" using split_list_first by metis
      have "far_end env (sent s) = concat (replicate (Suc (length rs)) ack) @ xs @ 10 # ys" using far out(1) by simp
      from wait_newline_found [OF this len out(2), of b] show ?thesis using nl by auto
    next
      case False
      from wait_newline_missing [OF far len False, of b] show ?thesis using False True by auto
    qed
  next
    case False
    have far: "far_end env (sent s) = concat (replicate (Suc (length rs)) ack) @ [13] @ 10 # bytes ''> ''"
      using board_break [OF assms(2,3)] assms(1) sent False by (auto simp: end_marker_def)
    show ?thesis using wait_newline_found [OF far len, of b] False by auto
  qed
qed

lemma transfer_board:
  assumes "far_end env = board_replies out" and "list_all wf_srec rs" and "list_all loadable rs"
    and "list_all (fits 998) rs" and "list_all plain_record rs" and "sent s = []" and "taken s = 0"
  shows "\<exists>s'. transfer env v q jump (srec_text rs) s = (if jump \<and> 10 \<notin> set out then -3 else 0, s')
    \<and> sent s' = 33 # srec_text rs @ [end_marker jump]"
proof -
  define s1 where "s1 = write_port 33 (tell v (''Sending '' @ [CHR 0x27, CHR ''!'', CHR 0x27] @ ''... '') s)"
  have s1: "sent s1 = [33]" "taken s1 = 0"
    using assms(6,7) by (simp_all add: s1_def write_port_def tell_def print_out_def)
  have far: "far_end env (sent s1) = [] @ [63] @ 10 # []"
    using board_lines [of "[]" out] assms(1) s1(1) by (simp add: ack_def)
  have two: "taken s1 + length [63::u8] + 1 = 2" using s1(2) by simp
  obtain b where b: "wait_newline env (replicate LEN_LINE 0) s1 = (True, b, s1\<lparr>taken := 2\<rparr>)"
    using wait_newline_found [OF far, of "replicate LEN_LINE 0", unfolded two] s1(2) by auto
  define s2 where "s2 = (if v then print_out (nl ''OK'') (s1\<lparr>taken := 2\<rparr>) else s1\<lparr>taken := 2\<rparr>)"
  have s2: "sent s2 = 33 # srec_text []" "taken s2 = 2 * Suc (length ([] :: srec list))"
    using s1 by (simp_all add: s2_def print_out_def)
  obtain b3 s3 where s3: "send_lines env v q b (srec_text rs) s2 = (True, b3, s3)"
    "sent s3 = 33 # srec_text rs" "taken s3 = 2 * Suc (length rs)"
    using send_lines_board [OF assms(1), of "[]" rs s2 v q b] assms s2 by auto
  define s4 where "s4 = write_port (end_marker jump) (tell v (''Write '' @ [CHR 0x27,
    if jump then CHR ''J'' else CHR ''#'', CHR 0x27, CHR '' '']) (if \<not> q \<and> \<not> v then print_out [10] s3 else s3))"
  have s4: "sent s4 = 33 # srec_text rs @ [end_marker jump]" "taken s4 = 2 * Suc (length rs)"
    using s3(2,3) by (simp_all add: s4_def write_port_def tell_def print_out_def)
  have run: "transfer env v q jump (srec_text rs) s = (case wait_newline env b3 s4 of
      (False, buf, s) \<Rightarrow> (-3, print_out (nl ''Nothing read while sending end of transmission!'') s)
    | (True, buf, s) \<Rightarrow> (0, if v then print_out (nl ''  OK'') s else s))"
    by (simp only: transfer_def Let_def s1_def [symmetric] b prod.case bool.case s2_def [symmetric]
        s3(1) s4_def [symmetric])
  show ?thesis
    using end_of_transmission_board [OF assms(1-3) s4, of b3] run s4(1)
    by (cases "\<not> jump \<or> 10 \<in> set out") (auto simp: print_out_def)
qed

section \<open>The whole session\<close>

text \<open>A host whose port is open to a board: nothing written, nothing read, the device there.\<close>

definition connected :: "u8 list \<Rightarrow> line_env \<Rightarrow> upload_opts \<Rightarrow> session \<Rightarrow> bool" where
  "connected out env opt s \<longleftrightarrow> far_end env = board_replies out \<and> open_errno env (portname opt) = 0
     \<and> sent s = [] \<and> taken s = 0"

lemma port_set_up:
  "sent (set_blocking env b t s) = sent s" "taken (set_blocking env b t s) = taken s"
  "sent (snd (set_interface_attribs env sp par s)) = sent s"
  "taken (snd (set_interface_attribs env sp par s)) = taken s"
  by (simp_all add: set_blocking_def set_interface_attribs_def print_out_def)

lemma upload_main_board:
  assumes "getopt (bytes ''vd:t:js:q'') args = (es, opts, src # rst)"
    and "upload_options prog es upload_defaults = Some (Inr opt)" and "connected out env opt s"
    and "files s src = Some (srec_text rs)"
    and "list_all wf_srec rs" and "list_all loadable rs" and "list_all (fits 998) rs" and "list_all plain_record rs"
  shows "\<exists>s'. upload_main env prog args s = Some (if u_jump opt \<and> 10 \<notin> set out then -3 else 0, s')
    \<and> sent s' = 33 # srec_text rs @ [end_marker (u_jump opt)]"
proof -
  let ?p = "if u_verbose opt then print_out (bytes ''Serial port is: '' @ portname opt @ [10]) s else s"
  let ?s = "set_blocking env False (u_timeout opt) (snd (set_interface_attribs env B9600 0 ?p))"
  have c: "far_end env = board_replies out" "open_errno env (portname opt) = 0" "sent ?s = []" "taken ?s = 0"
    using assms(3) by (simp_all add: connected_def port_set_up print_out_def)
  have "args \<noteq> []" using assms(1) by auto
  then have "upload_main env prog args s
      = Some (transfer env (u_verbose opt) (u_quiet opt) (u_jump opt) (srec_text rs) ?s)"
    using assms(1,2,4) c(2) by (simp add: upload_main_def upload_file_def Let_def)
  then show ?thesis
    using transfer_board [OF c(1) assms(5-8) c(3,4), of "u_verbose opt" "u_quiet opt" "u_jump opt"] by auto
qed

text \<open>What the two library functions do to the attributes: they store the speed they are given, in fields
  of its own and, as on Linux, in the bits \<open>CBAUD\<close> of the control flags, and change nothing else.\<close>

definition speed_calls_ok :: "line_env \<Rightarrow> bool" where
  "speed_calls_ok env \<longleftrightarrow>
     (\<forall>sp t. let u = cfsetospeed env sp t in
        u = t\<lparr>c_cflag := c_cflag u, c_ospeed := sp\<rparr> \<and> c_cflag u AND CBAUD = sp AND CBAUD
        \<and> c_cflag u AND NOT CBAUD = c_cflag t AND NOT CBAUD)
     \<and> (\<forall>sp t. let u = cfsetispeed env sp t in
        u = t\<lparr>c_cflag := c_cflag u, c_ispeed := sp\<rparr> \<and> c_cflag u AND CBAUD = sp AND CBAUD
        \<and> c_cflag u AND NOT CBAUD = c_cflag t AND NOT CBAUD)"

definition linux_cfsetospeed :: "u32 \<Rightarrow> termios \<Rightarrow> termios" where
  "linux_cfsetospeed sp t = t\<lparr>c_cflag := (c_cflag t AND NOT CBAUD) OR (sp AND CBAUD), c_ospeed := sp\<rparr>"

definition linux_cfsetispeed :: "u32 \<Rightarrow> termios \<Rightarrow> termios" where
  "linux_cfsetispeed sp t = t\<lparr>c_cflag := (c_cflag t AND NOT CBAUD) OR (sp AND CBAUD), c_ispeed := sp\<rparr>"

lemma linux_speed_calls:
  assumes "cfsetospeed env = linux_cfsetospeed" and "cfsetispeed env = linux_cfsetispeed"
  shows "speed_calls_ok env"
  using assms
  by (simp add: speed_calls_ok_def linux_cfsetospeed_def linux_cfsetispeed_def Let_def CBAUD_def
      bit.conj_disj_distrib2 and.assoc)

lemma speed_calls:
  assumes "speed_calls_ok env"
  defines "r t sp \<equiv> cfsetispeed env sp (cfsetospeed env sp t)"
  shows "r t sp = t\<lparr>c_cflag := c_cflag (r t sp), c_ospeed := sp, c_ispeed := sp\<rparr>"
    and "c_cflag (r t sp) AND CBAUD = sp AND CBAUD" and "c_cflag (r t sp) AND NOT CBAUD = c_cflag t AND NOT CBAUD"
proof -
  let ?o = "cfsetospeed env sp t"
  have o: "?o = t\<lparr>c_cflag := c_cflag ?o, c_ospeed := sp\<rparr>" "c_cflag ?o AND NOT CBAUD = c_cflag t AND NOT CBAUD"
    and i: "r t sp = ?o\<lparr>c_cflag := c_cflag (r t sp), c_ispeed := sp\<rparr>" "c_cflag (r t sp) AND CBAUD = sp AND CBAUD"
      "c_cflag (r t sp) AND NOT CBAUD = c_cflag ?o AND NOT CBAUD"
    using assms(1) unfolding speed_calls_ok_def r_def Let_def by blast+
  show "c_cflag (r t sp) AND CBAUD = sp AND CBAUD" "c_cflag (r t sp) AND NOT CBAUD = c_cflag t AND NOT CBAUD"
    using i(2,3) o(2) by simp_all
  show "r t sp = t\<lparr>c_cflag := c_cflag (r t sp), c_ospeed := sp, c_ispeed := sp\<rparr>"
    by (subst i(1), subst o(1)) simp
qed

text \<open>The control flags the program sets or clears, and what it makes of them.\<close>

definition line_flags :: u32 where
  "line_flags = CBAUD OR CSIZE OR CSTOPB OR CREAD OR PARENB OR PARODD OR CLOCAL OR CRTSCTS"

definition control_flags :: "u32 \<Rightarrow> u32" where
  "control_flags u = (((((((u AND NOT CSIZE) OR CS8) OR (CLOCAL OR CREAD)) AND NOT (PARENB OR PARODD)) OR 0)
     AND NOT CSTOPB) AND NOT CRTSCTS)"

lemma control_flags:
  "control_flags u AND CBAUD = u AND CBAUD" "control_flags u AND CSIZE = CS8"
  "control_flags u AND (PARENB OR PARODD OR CSTOPB OR CRTSCTS) = 0"
  "control_flags u AND (CLOCAL OR CREAD) = CLOCAL OR CREAD"
  "u AND NOT CBAUD = v AND NOT CBAUD \<Longrightarrow> control_flags u AND NOT line_flags = v AND NOT line_flags"
proof -
  show "control_flags u AND NOT line_flags = v AND NOT line_flags" if uv: "u AND NOT CBAUD = v AND NOT CBAUD"
  proof -
    have e: "x AND NOT line_flags = (x AND NOT CBAUD) AND NOT line_flags" for x
      by (simp add: line_flags_def termios_flags and.assoc)
    have "control_flags u AND NOT line_flags = u AND NOT line_flags"
      by (simp add: control_flags_def line_flags_def termios_flags bit.conj_disj_distrib bit.conj_disj_distrib2 and.assoc)
    then show ?thesis using e [of u] e [of v] uv by simp
  qed
qed (simp_all add: control_flags_def termios_flags bit.conj_disj_distrib bit.conj_disj_distrib2 and.assoc)

text \<open>A concrete line and host, with a small file to send.\<close>

definition linux_line :: "(u8 list \<Rightarrow> u8 list) \<Rightarrow> line_env" where
  "linux_line far = \<lparr>open_errno = \<lambda>_. 0, getattr_errno = 0, setattr_errno = 0, strerror = \<lambda>_. [],
     cfsetospeed = linux_cfsetospeed, cfsetispeed = linux_cfsetispeed, far_end = far\<rparr>"

definition small_host :: session where
  "small_host = \<lparr>files = [bytes ''a.srec'' \<mapsto> srec_text tiny_file], unwritable = {}, sout = [], serr = [],
     tty = \<lparr>c_iflag = 0x500, c_oflag = 5, c_cflag = 0xcbf, c_lflag = 0x8a3b, VMIN = 1, VTIME = 0, c_ispeed = 15, c_ospeed = 15\<rparr>,
     sent = [], taken = 0\<rparr>"

lemma small_host_fields:
  "connected out (linux_line (board_replies out)) opt small_host"
  "files small_host [97, 46, 115, 114, 101, 99] = Some (srec_text tiny_file)"
  by (simp_all add: connected_def linux_line_def small_host_def)

lemma tiny_file_plain: "list_all (fits 998) tiny_file" "list_all plain_record tiny_file"
  by code_simp+

text \<open>C26: With the model of the boot loader at the other end of the line, sending a well-formed
  S-record file comes to its end: upload exits with 0, and the text it has written is one
  after which the boot loader is in its monitor with the start address and exactly the image
  of the file in memory.\<close>

theorem upload_reaches_monitor:
  assumes "getopt (bytes ''vd:t:js:q'') args = (es, opts, src # rst)"
    and "upload_options prog es upload_defaults = Some (Inr opt)" and "\<not> u_jump opt" and "connected out env opt s"
    and "files s src = Some (srec_text rs)"
    and "list_all wf_srec rs" and "list_all loadable rs" and "list_all (fits 998) rs" and "list_all plain_record rs"
  shows "\<exists>s' n. upload_main env prog args s = Some (0, s')
    \<and> boot_main (replicate BUFLEN 0) (power_on (sent s')) = bl_monitor (file_start rs 0) (0, replicate BUFLEN 0) n
    \<and> mem (board_after (sent s')) = file_mem rs (\<lambda>_. 0)"
  using upload_main_board [OF assms(1,2,4-9)] board_break [OF assms(6,7)] assms(3)
  by (auto simp: end_marker_def)

theorem upload_reaches_monitor_witness:
  "\<exists>s' n. upload_main (linux_line (board_replies [])) (bytes ''upload'') [bytes ''-q'', bytes ''a.srec''] small_host = Some (0, s')
    \<and> boot_main (replicate BUFLEN 0) (power_on (sent s')) = bl_monitor (file_start tiny_file 0) (0, replicate BUFLEN 0) n
    \<and> mem (board_after (sent s')) = file_mem tiny_file (\<lambda>_. 0)"
  by (rule upload_reaches_monitor [where es = "[Option 113 []]" and opts = "[bytes ''-q'']" and src = "bytes ''a.srec''"
        and rst = "[]" and opt = "upload_defaults\<lparr>u_quiet := True\<rparr>" and out = "[]"])
    (simp_all add: upload_defaults_def small_host_fields tiny_file_ok tiny_file_plain)

text \<open>C27: With option -j the same upload leaves the board running the application on the image of
  the file, but as the boot loader sends nothing after J, the exit code depends on the
  application: it is 0 if the application sends a newline in time and -3 if it does not.\<close>

theorem upload_jump_exit_code:
  assumes "getopt (bytes ''vd:t:js:q'') args = (es, opts, src # rst)"
    and "upload_options prog es upload_defaults = Some (Inr opt)" and "u_jump opt" and "connected out env opt s"
    and "files s src = Some (srec_text rs)"
    and "list_all wf_srec rs" and "list_all loadable rs" and "list_all (fits 998) rs" and "list_all plain_record rs"
  shows "\<exists>s' n. upload_main env prog args s = Some (if 10 \<in> set out then 0 else -3, s')
    \<and> boot_main (replicate BUFLEN 0) (power_on (sent s')) = Some (Jumped (file_start rs 0) n)
    \<and> mem n = file_mem rs (\<lambda>_. 0)"
  using upload_main_board [OF assms(1,2,4-9)] board_jump [OF assms(6,7), of out] assms(3)
  by (auto simp: end_marker_def)

text \<open>A silent application, and one that begins with a new line.\<close>

theorem upload_jump_exit_code_witness:
  "(\<exists>s' n. upload_main (linux_line (board_replies [])) (bytes ''upload'') [bytes ''-j'', bytes ''a.srec''] small_host = Some (-3, s')
    \<and> boot_main (replicate BUFLEN 0) (power_on (sent s')) = Some (Jumped (file_start tiny_file 0) n)
    \<and> mem n = file_mem tiny_file (\<lambda>_. 0))
  \<and> (\<exists>s'. upload_main (linux_line (board_replies [13, 10])) (bytes ''upload'') [bytes ''-j'', bytes ''a.srec''] small_host
      = Some (0, s'))"
proof -
  note r = upload_jump_exit_code [where es = "[Option 106 []]" and opts = "[bytes ''-j'']" and src = "bytes ''a.srec''"
      and rst = "[]" and opt = "upload_defaults\<lparr>u_jump := True\<rparr>" and args = "[bytes ''-j'', bytes ''a.srec'']"
      and rs = tiny_file and prog = "bytes ''upload''" and s = small_host]
  from r [where out = "[]" and env = "linux_line (board_replies [])"]
    r [where out = "[13, 10]" and env = "linux_line (board_replies [13, 10])"]
  show ?thesis by (simp add: upload_defaults_def small_host_fields tiny_file_ok tiny_file_plain) blast
qed

text \<open>C33: When the attribute calls succeed, upload leaves the port at 9600 bps with 8 data bits,
  no parity, one stop bit, no hardware or software flow control, no break processing, no
  processing of output, no echo and no line mode, and with a time-out of the given number of
  tenths of a second modulo 256; all other control and input flags, such as the translation
  of carriage returns, stay as they were.\<close>

theorem serial_mode:
  assumes "getattr_errno env = 0" and "setattr_errno env = 0" and "speed_calls_ok env" and "0 \<le> timeout"
  shows "let u = tty s; t = tty (set_blocking env False timeout (snd (set_interface_attribs env B9600 0 s))) in
    c_ispeed t = B9600 \<and> c_ospeed t = B9600 \<and> c_cflag t AND CBAUD = B9600
    \<and> c_cflag t AND CSIZE = CS8 \<and> c_cflag t AND (PARENB OR PARODD OR CSTOPB OR CRTSCTS) = 0
    \<and> c_cflag t AND (CLOCAL OR CREAD) = CLOCAL OR CREAD
    \<and> c_cflag t AND NOT line_flags = c_cflag u AND NOT line_flags
    \<and> c_iflag t = c_iflag u AND NOT (IGNBRK OR IXON OR IXOFF OR IXANY)
    \<and> c_lflag t = 0 \<and> c_oflag t = 0 \<and> VMIN t = 0 \<and> unat (VTIME t) = nat timeout mod 256"
proof -
  define u where "u = c_cflag (cfsetispeed env B9600 (cfsetospeed env B9600 (tty s)))"
  let ?t = "tty (set_blocking env False timeout (snd (set_interface_attribs env B9600 0 s)))"
  have t: "unat (word_of_int timeout :: u8) = nat timeout mod 256"
    using assms(4) by (simp add: unat_eq_nat_uint uint_word_of_int nat_mod_distrib)
  have u: "cfsetispeed env B9600 (cfsetospeed env B9600 (tty s)) = (tty s)\<lparr>c_cflag := u, c_ospeed := B9600, c_ispeed := B9600\<rparr>"
    "u AND CBAUD = B9600" "u AND NOT CBAUD = c_cflag (tty s) AND NOT CBAUD"
    using speed_calls [OF assms(3), of B9600 "tty s"] by (simp_all add: u_def B9600_def CBAUD_def)
  have k: "c_cflag ?t = control_flags u" "c_iflag ?t = c_iflag (tty s) AND NOT (IGNBRK OR IXON OR IXOFF OR IXANY)"
    "c_lflag ?t = 0" "c_oflag ?t = 0" "VMIN ?t = 0" "VTIME ?t = word_of_int timeout" "c_ispeed ?t = B9600" "c_ospeed ?t = B9600"
    using assms(1,2)
    by (simp_all add: set_blocking_def set_interface_attribs_def raw_mode_def Let_def u(1) control_flags_def)
      (simp add: termios_flags and.assoc)
  show ?thesis
    using control_flags [of u] t u(2,3) unfolding Let_def k by simp
qed

text \<open>Flags a terminal in canonical mode has: among them \<open>ICRNL\<close>, 0x100, which stays.\<close>

theorem serial_mode_witness:
  "let t = tty (set_blocking (linux_line (\<lambda>_. [])) False 300 (snd (set_interface_attribs (linux_line (\<lambda>_. [])) B9600 0 small_host)))
    in c_cflag t AND CBAUD = B9600 \<and> c_iflag t = 0x100 \<and> unat (VTIME t) = 44"
  using serial_mode [of "linux_line (\<lambda>_. [])" 300 small_host] linux_speed_calls [of "linux_line (\<lambda>_. [])"]
  by (simp add: Let_def IGNBRK_def IXON_def IXOFF_def IXANY_def linux_line_def small_host_def)

end
