(* ===== verification/LinkedList.thy ===== *)
theory LinkedList
  imports Usart Format
begin

text \<open>
  \<open>CODE/linked_list/linked_list.c\<close>: a list of four nodes is built on the heap, printed and searched
  for its end; then memory is filled with nodes. The nodes are a store from addresses to records.
  \<open>malloc\<close> is a parameter; what the program relies on are the laws of the locale \<open>allocator\<close>.
\<close>

section \<open>The program\<close>

definition NAMLEN :: nat where
  "NAMLEN = 20"

record node =
  node_name :: "u8 list"
  node_age :: u32
  node_next :: u32

text \<open>20 characters, an \<open>int\<close> and a pointer.\<close>

definition sizeof_node :: u32 where
  "sizeof_node = 28"

record 'a ll_state =
  ll_dev :: machine
  ll_heap :: 'a
  ll_nodes :: "u32 \<Rightarrow> node option"
  ll_head :: u32

definition ll_on_dev :: "(machine \<Rightarrow> (machine, 'b) outcome) \<Rightarrow> 'a ll_state \<Rightarrow> ('a ll_state, 'b) outcome" where
  "ll_on_dev f s = (case f (ll_dev s) of
       Done b m \<Rightarrow> Done b (s\<lparr>ll_dev := m\<rparr>)
     | Stuck m \<Rightarrow> Stuck (s\<lparr>ll_dev := m\<rparr>)
     | Fault e m \<Rightarrow> Fault e (s\<lparr>ll_dev := m\<rparr>)
     | Jumped a m \<Rightarrow> Jumped a (s\<lparr>ll_dev := m\<rparr>))"

definition ll_puts :: "string \<Rightarrow> 'a ll_state \<Rightarrow> ('a ll_state, unit) outcome" where
  "ll_puts t s = ll_on_dev (puts t) s"

text \<open>\<open>sprintf (buffer, ...); usart_puts (buffer);\<close> with \<open>char buffer[NAMLEN+26]\<close>.\<close>

definition ll_printf :: "u8 list \<Rightarrow> 'a ll_state \<Rightarrow> ('a ll_state, unit) outcome" where
  "ll_printf t s = (if length t < NAMLEN + 26 then ll_on_dev (usart_puts (Some (t @ [0]))) s
     else Fault Out_Of_Bounds s)"

definition strncpy_name :: "string \<Rightarrow> u8 list" where
  "strncpy_name t = take NAMLEN (bytes t @ replicate NAMLEN 0)"

text \<open>A new node: \<open>malloc\<close> and its three assignments, or the message and \<open>None\<close>.\<close>

definition new_node :: "(u32 \<Rightarrow> 'a \<Rightarrow> u32 \<times> 'a) \<Rightarrow> string \<Rightarrow> u32 \<Rightarrow> 'a ll_state
    \<Rightarrow> ('a ll_state, u32 option) outcome" where
  "new_node malloc nm age s = (case malloc sizeof_node (ll_heap s) of (p, a) \<Rightarrow>
     (let s = s\<lparr>ll_heap := a\<rparr> in
      if p = 0 then andthen (ll_puts (''Cannot allocate node!'' @ [CR, LF]) s) (\<lambda>_ s. Done None s)
      else Done (Some p) (s\<lparr>ll_nodes := (ll_nodes s)(p \<mapsto>
        \<lparr>node_name = strncpy_name nm, node_age = age, node_next = 0\<rparr>)\<rparr>)))"

definition set_next :: "u32 \<Rightarrow> u32 \<Rightarrow> 'a ll_state \<Rightarrow> ('a ll_state, unit) outcome" where
  "set_next p q s = (case ll_nodes s p of
       None \<Rightarrow> Fault Out_Of_Bounds s
     | Some n \<Rightarrow> Done () (s\<lparr>ll_nodes := (ll_nodes s)(p \<mapsto> n\<lparr>node_next := q\<rparr>)\<rparr>))"

definition node_text :: "u32 \<Rightarrow> node \<Rightarrow> u8 list" where
  "node_text p n = bytes ''@: '' @ ptr_str p @ bytes '', name: '' @ c_str (node_name n)
     @ bytes '', age: '' @ int_str (sint (node_age n)) @ [13, 10]"

text \<open>\<open>for (current = head; current != NULL; current = current->next)\<close>: print each node.\<close>

partial_function (option) print_list :: "u32 \<Rightarrow> 'a ll_state \<Rightarrow> ('a ll_state, unit) outcome option" where
  "print_list current s = (if current = 0 then Some (Done () s)
     else (case ll_nodes s current of
         None \<Rightarrow> Some (Fault Out_Of_Bounds s)
       | Some n \<Rightarrow> (case ll_printf (node_text current n) s of
             Done _ s \<Rightarrow> print_list (node_next n) s
           | Stuck s \<Rightarrow> Some (Stuck s)
           | Fault e s \<Rightarrow> Some (Fault e s)
           | Jumped t s \<Rightarrow> Some (Jumped t s))))"

text \<open>The same loop with \<open>prev = current\<close> as its body.\<close>

partial_function (option) last_node :: "u32 \<Rightarrow> u32 \<Rightarrow> 'a ll_state \<Rightarrow> ('a ll_state, u32) outcome option" where
  "last_node prev current s = (if current = 0 then Some (Done prev s)
     else (case ll_nodes s current of
         None \<Rightarrow> Some (Fault Out_Of_Bounds s)
       | Some n \<Rightarrow> last_node current (node_next n) s))"

text \<open>Fill up memory: the last node and the number of nodes. The nodes are not written.\<close>

partial_function (option) fill :: "(u32 \<Rightarrow> 'a \<Rightarrow> u32 \<times> 'a) \<Rightarrow> u32 \<Rightarrow> nat \<Rightarrow> 'a ll_state
    \<Rightarrow> ('a ll_state, u32 \<times> nat) outcome option" where
  "fill malloc current count s = (case malloc sizeof_node (ll_heap s) of (p, a) \<Rightarrow>
     (if p = 0 then Some (andthen (ll_puts (''Cannot allocate more nodes!'' @ [CR, LF]) (s\<lparr>ll_heap := a\<rparr>))
        (\<lambda>_ s. Done (current, count) s))
      else fill malloc p (count + 1) (s\<lparr>ll_heap := a\<rparr>)))"

definition build :: "(u32 \<Rightarrow> 'a \<Rightarrow> u32 \<times> 'a) \<Rightarrow> 'a ll_state \<Rightarrow> ('a ll_state, bool) outcome" where
  "build malloc s =
     andthen (new_node malloc ''Evan'' 25 s) (\<lambda>r s. case r of None \<Rightarrow> Done False s | Some h \<Rightarrow>
     let s = s\<lparr>ll_head := h\<rparr> in
     andthen (new_node malloc ''Billie'' 18 s) (\<lambda>r s. case r of None \<Rightarrow> Done False s | Some current \<Rightarrow>
     andthen (set_next (ll_head s) current s) (\<lambda>_ s.
     let prev = current in
     andthen (new_node malloc ''Sam'' 29 s) (\<lambda>r s. case r of None \<Rightarrow> Done False s | Some current \<Rightarrow>
     andthen (set_next prev current s) (\<lambda>_ s.
     let prev = current in
     andthen (new_node malloc ''Hendrik'' 54 s) (\<lambda>r s. case r of None \<Rightarrow> Done False s | Some current \<Rightarrow>
     andthen (set_next prev current s) (\<lambda>_ s. Done True s)))))))"

text \<open>The list printed, and its last node.\<close>

definition ll_report :: "'a ll_state \<Rightarrow> ('a ll_state, unit) outcome option" where
  "ll_report s =
     andthen_opt (print_list (ll_head s) s) (\<lambda>_ s.
     andthen_opt (last_node 0 (ll_head s) s) (\<lambda>prev s.
     andthen_opt (Some (ll_printf (bytes ''Last node @: '' @ ptr_str prev @ [13, 10]) s)) (\<lambda>_ s.
     case ll_nodes s prev of
       None \<Rightarrow> Some (Fault Out_Of_Bounds s)
     | Some n \<Rightarrow> Some (ll_printf (bytes ''Name: '' @ c_str (node_name n) @ bytes '', age: ''
         @ int_str (sint (node_age n)) @ [13, 10]) s))))"

definition ll_exhaust :: "(u32 \<Rightarrow> 'a \<Rightarrow> u32 \<times> 'a) \<Rightarrow> 'a ll_state \<Rightarrow> ('a ll_state, int) outcome option" where
  "ll_exhaust malloc s =
     andthen_opt (fill malloc 0 0 s) (\<lambda>(prev, count) s.
     andthen_opt (Some (ll_printf (bytes ''Total of '' @ dec_str count @ nl ('' nodes'' @ [CR])) s)) (\<lambda>_ s.
     andthen_opt (Some (ll_printf (bytes ''Last node @: '' @ ptr_str prev @ [13, 10]) s)) (\<lambda>_ s.
     Some (Done 0 s))))"

definition ll_main :: "(u32 \<Rightarrow> 'a \<Rightarrow> u32 \<times> 'a) \<Rightarrow> 'a ll_state \<Rightarrow> ('a ll_state, int) outcome option" where
  "ll_main malloc s =
     andthen_opt (Some (ll_puts ([CR, LF, CR, LF] @ ''Linked list test'' @ [CR, LF])
       (s\<lparr>ll_dev := usart_init (ll_dev s)\<rparr>))) (\<lambda>_ s.
     andthen_opt (Some (ll_printf (bytes ''Size of node: '' @ dec_str (unat sizeof_node) @ [13, 10]) s)) (\<lambda>_ s.
     andthen_opt (Some (build malloc s)) (\<lambda>built s.
     if \<not> built then Some (Done (-1) s)
     else andthen_opt (ll_report s) (\<lambda>_ s. ll_exhaust malloc s))))"

end
