(* ===== verification/LinkedListProof.thy ===== *)
theory LinkedListProof
  imports LinkedList Syscalls
begin

text \<open>
  The list program prints its four nodes in order, finds the last one, and comes to an end,
  whatever allocator it runs on: the interface of the allocator is a locale, and the simplest
  allocator on top of the model of \<open>_sbrk\<close> is an instance of it.
\<close>

section \<open>The interface of malloc\<close>

text \<open>
  \<open>ok\<close> is the invariant of the allocator, \<open>blocks\<close> the blocks it has handed out and \<open>room\<close> a bound
  on the number of blocks it still can.
\<close>

locale allocator =
  fixes malloc :: "u32 \<Rightarrow> 'a \<Rightarrow> u32 \<times> 'a"
    and ok :: "'a \<Rightarrow> bool"
    and blocks :: "'a \<Rightarrow> u32 set"
    and room :: "'a \<Rightarrow> nat"
  assumes malloc_ok: "ok a \<Longrightarrow> malloc sizeof_node a = (p, a') \<Longrightarrow> ok a'"
    and malloc_fresh: "ok a \<Longrightarrow> malloc sizeof_node a = (p, a') \<Longrightarrow> p \<noteq> 0 \<Longrightarrow> p \<notin> blocks a \<and> blocks a' = insert p (blocks a)"
    and malloc_room: "ok a \<Longrightarrow> malloc sizeof_node a = (p, a') \<Longrightarrow> p \<noteq> 0 \<Longrightarrow> room a' < room a"
begin

lemma four_blocks:
  assumes "ok a" and "malloc sizeof_node a = (p1, a1)" and "malloc sizeof_node a1 = (p2, a2)"
    and "malloc sizeof_node a2 = (p3, a3)" and "malloc sizeof_node a3 = (p4, a4)"
    and "p1 \<noteq> 0" "p2 \<noteq> 0" "p3 \<noteq> 0" "p4 \<noteq> 0"
  shows "distinct [p1, p2, p3, p4]" and "ok a4" and "room a4 < room a" and "{p1, p2, p3, p4} \<subseteq> blocks a4"
proof -
  have ok: "ok a1" "ok a2" "ok a3" "ok a4"
    using malloc_ok assms(1-5) by blast+
  have b: "blocks a1 = insert p1 (blocks a)" "blocks a2 = insert p2 (blocks a1)" "blocks a3 = insert p3 (blocks a2)"
    "p2 \<notin> blocks a1" "p3 \<notin> blocks a2" "p4 \<notin> blocks a3" "blocks a4 = insert p4 (blocks a3)"
    using malloc_fresh assms ok by blast+
  then show "distinct [p1, p2, p3, p4]" "{p1, p2, p3, p4} \<subseteq> blocks a4" by auto
  show "ok a4" by (rule ok)
  have "room a4 < room a3" "room a3 < room a2" "room a2 < room a1" "room a1 < room a"
    using malloc_room assms ok by blast+
  then show "room a4 < room a" by linarith
qed

end

section \<open>Output\<close>

definition says :: "u8 list \<Rightarrow> 'b \<Rightarrow> ('a ll_state, 'b) outcome \<Rightarrow> 'a ll_state \<Rightarrow> bool" where
  "says os b x s \<longleftrightarrow> (\<exists>m. x = Done b (s\<lparr>ll_dev := m\<rparr>) \<and> serial [] os (ll_dev s) m)"

lemma says_puts: "0 \<notin> set (bytes t) \<Longrightarrow> says (bytes t) () (ll_puts t s) s"
  using traffic_puts [of t "ll_dev s"] by (auto simp: says_def ll_puts_def ll_on_dev_def traffic_def)

lemma says_printf:
  assumes "0 \<notin> set t" and "length t < 46"
  shows "says t () (ll_printf t s) s"
  using usart.puts_by_io [OF assms(1), of "[]" "ll_dev s"] assms(2)
  by (auto simp: says_def ll_printf_def ll_on_dev_def NAMLEN_def usart_puts_def)

lemma saysE:
  assumes "says os b x s"
  obtains m where "x = Done b (s\<lparr>ll_dev := m\<rparr>)" and "line_out m = line_out (ll_dev s) @ os"
  using assms serial_out by (auto simp: says_def)

section \<open>Lists in memory\<close>

text \<open>From \<open>p\<close> on the store holds a list of nodes at the given addresses, ended by \<open>NULL\<close>.\<close>

fun list_at :: "(u32 \<Rightarrow> node option) \<Rightarrow> u32 \<Rightarrow> (u32 \<times> string \<times> u32) list \<Rightarrow> bool" where
  "list_at h p [] \<longleftrightarrow> p = 0"
| "list_at h p ((a, nm, ag) # xs) \<longleftrightarrow> p = a \<and> a \<noteq> 0
     \<and> (\<exists>q. h a = Some \<lparr>node_name = strncpy_name nm, node_age = ag, node_next = q\<rparr> \<and> list_at h q xs)"

fun entry_text :: "u32 \<times> string \<times> u32 \<Rightarrow> u8 list" where
  "entry_text (a, nm, ag) = bytes ''@: '' @ ptr_str a @ bytes '', name: '' @ bytes nm
     @ bytes '', age: '' @ int_str (sint ag) @ [13, 10]"

text \<open>Names that leave room for their terminating zero, and lines that fit the buffer.\<close>

definition good_entry :: "u32 \<times> string \<times> u32 \<Rightarrow> bool" where
  "good_entry e \<longleftrightarrow> (case e of (a, nm, ag) \<Rightarrow> length nm < NAMLEN \<and> 0 \<notin> set (bytes nm)
     \<and> 0 \<le> sint ag \<and> sint ag < 100 \<and> length nm \<le> 12)"

lemma name_str: "length nm < NAMLEN \<Longrightarrow> 0 \<notin> set (bytes nm) \<Longrightarrow> c_str (strncpy_name nm) = bytes nm"
proof -
  assume a: "length nm < NAMLEN" "0 \<notin> set (bytes nm)"
  obtain k where k: "NAMLEN - length nm = Suc k" using a(1) by (cases "NAMLEN - length nm") auto
  have "strncpy_name nm = bytes nm @ 0 # replicate k 0"
    using a(1) k by (simp add: strncpy_name_def)
  then show "c_str (strncpy_name nm) = bytes nm" using a(2) by simp
qed

lemma length_ptr_str: "length (ptr_str p) \<le> 10"
proof -
  have "unat p < 16 ^ 8" using unsigned_less [of p, where 'a = nat] by simp
  then have "length (hex_str (unat p)) \<le> 8" by (rule length_num_str) simp_all
  then show ?thesis by (simp add: ptr_str_def)
qed

lemma ptr_str_nonzero: "0 \<notin> set (ptr_str p)"
  using num_str_nonzero [of 16 "unat p"] by (simp add: ptr_str_def)

lemma age_str: "0 \<le> sint (ag::u32) \<Longrightarrow> sint ag < 100 \<Longrightarrow> length (int_str (sint ag)) \<le> 2 \<and> 0 \<notin> set (int_str (sint ag))"
  using length_num_str [of "nat (sint ag)" 10 2] num_str_nonzero [of 10 "nat (sint ag)"]
  by (simp add: int_str_def nat_less_iff)

lemma entry_printable:
  assumes "good_entry (a, nm, ag)"
  shows "0 \<notin> set (entry_text (a, nm, ag))" and "length (entry_text (a, nm, ag)) < 46"
  using assms ptr_str_nonzero [of a] length_ptr_str [of a] age_str [of ag]
  by (auto simp: good_entry_def)

lemma print_list_at:
  assumes "list_at (ll_nodes s) p xs" and "list_all good_entry xs"
  shows "\<exists>m. print_list p s = Some (Done () (s\<lparr>ll_dev := m\<rparr>))
    \<and> line_out m = line_out (ll_dev s) @ concat (map entry_text xs)"
  using assms
proof (induction xs arbitrary: p s)
  case Nil
  then show ?case by (intro exI [of _ "ll_dev s"]) (simp add: print_list.simps)
next
  case (Cons x xs)
  obtain a nm ag where x: "x = (a, nm, ag)" by (cases x)
  obtain q where q: "p = a" "a \<noteq> 0" "ll_nodes s a = Some \<lparr>node_name = strncpy_name nm, node_age = ag, node_next = q\<rparr>"
    "list_at (ll_nodes s) q xs"
    using Cons.prems(1) x by auto
  have g: "good_entry (a, nm, ag)" using Cons.prems(2) x by simp
  have t: "node_text a \<lparr>node_name = strncpy_name nm, node_age = ag, node_next = q\<rparr> = entry_text (a, nm, ag)"
    using g by (simp add: node_text_def name_str good_entry_def)
  obtain m where m: "ll_printf (entry_text (a, nm, ag)) s = Done () (s\<lparr>ll_dev := m\<rparr>)"
    "line_out m = line_out (ll_dev s) @ entry_text (a, nm, ag)"
    by (rule saysE [OF says_printf [OF entry_printable [OF g]]])
  obtain m' where m': "print_list q (s\<lparr>ll_dev := m\<rparr>) = Some (Done () (s\<lparr>ll_dev := m, ll_dev := m'\<rparr>))"
    "line_out m' = line_out m @ concat (map entry_text xs)"
    using Cons.IH [of "s\<lparr>ll_dev := m\<rparr>" q] q(4) Cons.prems(2) by auto
  have "print_list p s = Some (Done () (s\<lparr>ll_dev := m'\<rparr>))"
    using q m(1) m'(1) t by (subst print_list.simps) (simp del: entry_text.simps)
  then show ?case using m(2) m'(2) x by (intro exI [of _ m']) (simp del: entry_text.simps)
qed

lemma last_node_at:
  "list_at (ll_nodes s) p xs \<Longrightarrow> last_node prev p s = Some (Done (last (prev # map fst xs)) s)"
proof (induction xs arbitrary: p prev)
  case Nil
  then show ?case by (simp add: last_node.simps)
next
  case (Cons x xs)
  obtain a nm ag where x: "x = (a, nm, ag)" by (cases x)
  obtain q where q: "p = a" "a \<noteq> 0" "ll_nodes s a = Some \<lparr>node_name = strncpy_name nm, node_age = ag, node_next = q\<rparr>"
    "list_at (ll_nodes s) q xs"
    using Cons.prems x by auto
  show ?case
    using q Cons.IH [OF q(4), of a] by (subst last_node.simps) (simp add: x)
qed

lemma list_at_last:
  "list_at h p (xs @ [(a, nm, ag)]) \<Longrightarrow> \<exists>q. h a = Some \<lparr>node_name = strncpy_name nm, node_age = ag, node_next = q\<rparr>"
  by (induction xs arbitrary: p) auto

section \<open>Building and filling\<close>

definition the_list :: "u32 \<Rightarrow> u32 \<Rightarrow> u32 \<Rightarrow> u32 \<Rightarrow> (u32 \<times> string \<times> u32) list" where
  "the_list p1 p2 p3 p4 = [(p1, ''Evan'', 25), (p2, ''Billie'', 18), (p3, ''Sam'', 29), (p4, ''Hendrik'', 54)]"

lemma good_list: "list_all good_entry (the_list p1 p2 p3 p4)"
  by (simp add: the_list_def good_entry_def NAMLEN_def)

lemma build_list:
  assumes "malloc sizeof_node (ll_heap s) = (p1, a1)" and "malloc sizeof_node a1 = (p2, a2)"
    and "malloc sizeof_node a2 = (p3, a3)" and "malloc sizeof_node a3 = (p4, a4)"
    and "p1 \<noteq> 0" "p2 \<noteq> 0" "p3 \<noteq> 0" "p4 \<noteq> 0" and "distinct [p1, p2, p3, p4]"
  shows "\<exists>h. build malloc s = Done True (s\<lparr>ll_head := p1, ll_heap := a4, ll_nodes := h\<rparr>)
    \<and> list_at h p1 (the_list p1 p2 p3 p4)"
proof -
  let ?h = "(ll_nodes s)(p1 \<mapsto> \<lparr>node_name = strncpy_name ''Evan'', node_age = 25, node_next = p2\<rparr>,
    p2 \<mapsto> \<lparr>node_name = strncpy_name ''Billie'', node_age = 18, node_next = p3\<rparr>,
    p4 \<mapsto> \<lparr>node_name = strncpy_name ''Hendrik'', node_age = 54, node_next = 0\<rparr>,
    p3 \<mapsto> \<lparr>node_name = strncpy_name ''Sam'', node_age = 29, node_next = p4\<rparr>)"
  have "list_at ?h p1 (the_list p1 p2 p3 p4)" using assms by (auto simp: the_list_def)
  then show ?thesis
    using assms by (intro exI [of _ ?h]) (auto simp: build_def new_node_def set_next_def Let_def)
qed

text \<open>The requests of a program that asks for nodes until it is refused: \<open>ps\<close> are the blocks it is given, in
  order, from the heap \<open>a\<close>, and \<open>b\<close> is the heap after the refusal. They are determined by \<open>a\<close>.\<close>

fun hands_out :: "(u32 \<Rightarrow> 'a \<Rightarrow> u32 \<times> 'a) \<Rightarrow> 'a \<Rightarrow> u32 list \<Rightarrow> 'a \<Rightarrow> bool" where
  "hands_out malloc a [] b \<longleftrightarrow> malloc sizeof_node a = (0, b)"
| "hands_out malloc a (p # ps) b \<longleftrightarrow> (case malloc sizeof_node a of (q, c) \<Rightarrow> q = p \<and> p \<noteq> 0 \<and> hands_out malloc c ps b)"

lemma hands_out_unique: "hands_out malloc a ps b \<Longrightarrow> hands_out malloc a ps' b' \<Longrightarrow> ps' = ps \<and> b' = b"
proof (induction malloc a ps b arbitrary: ps' rule: hands_out.induct)
  case (1 malloc a b)
  then show ?case by (cases ps') auto
next
  case (2 malloc a p ps b)
  then show ?case by (cases ps') (auto split: prod.splits)
qed

context allocator begin

lemma hands_out_ends: "ok a \<Longrightarrow> \<exists>ps b. hands_out malloc a ps b \<and> length ps \<le> room a"
proof (induction "room a" arbitrary: a rule: less_induct)
  case less
  obtain p c where r: "malloc sizeof_node a = (p, c)" by fastforce
  show ?case
  proof (cases "p = 0")
    case True
    then show ?thesis using r by (intro exI [of _ "[]"] exI [of _ c]) simp
  next
    case False
    have l: "room c < room a" "ok c" using malloc_room [OF less.prems r False] malloc_ok [OF less.prems r] by simp_all
    obtain ps b where "hands_out malloc c ps b" "length ps \<le> room c" using less.hyps [OF l] by blast
    then show ?thesis using r False l(1) by (intro exI [of _ "p # ps"] exI [of _ b]) simp
  qed
qed

lemma hands_out_new: "ok a \<Longrightarrow> hands_out malloc a ps b \<Longrightarrow> distinct ps \<and> set ps \<inter> blocks a = {}"
proof (induction ps arbitrary: a)
  case (Cons p ps)
  obtain c where r: "malloc sizeof_node a = (p, c)" "p \<noteq> 0" "hands_out malloc c ps b"
    using Cons.prems(2) by (auto split: prod.splits)
  have "distinct ps" "set ps \<inter> blocks c = {}" using Cons.IH [OF malloc_ok [OF Cons.prems(1) r(1)] r(3)] by simp_all
  then show ?case using malloc_fresh [OF Cons.prems(1) r(1,2)] by auto
qed simp

lemma fill_hands_out:
  assumes "hands_out malloc (ll_heap s) ps b"
  shows "\<exists>m. fill malloc current count s = Some (Done (last (current # ps), count + length ps) (s\<lparr>ll_heap := b, ll_dev := m\<rparr>))
    \<and> line_out m = line_out (ll_dev s) @ bytes (''Cannot allocate more nodes!'' @ [CR, LF])"
  using assms
proof (induction ps arbitrary: s current count)
  case Nil
  let ?t = "''Cannot allocate more nodes!'' @ [CR, LF]"
  obtain m where "ll_puts ?t (s\<lparr>ll_heap := b\<rparr>) = Done () (s\<lparr>ll_heap := b, ll_dev := m\<rparr>)"
    "line_out m = line_out (ll_dev (s\<lparr>ll_heap := b\<rparr>)) @ bytes ?t"
    by (rule saysE [OF says_puts [of ?t "s\<lparr>ll_heap := b\<rparr>"]]) simp
  then show ?case using Nil by (intro exI [of _ m]) (simp add: fill.simps [of malloc current])
next
  case (Cons p ps)
  obtain c where r: "malloc sizeof_node (ll_heap s) = (p, c)" "p \<noteq> 0" "hands_out malloc c ps b"
    using Cons.prems by (auto split: prod.splits)
  obtain m where "fill malloc p (count + 1) (s\<lparr>ll_heap := c\<rparr>)
      = Some (Done (last (p # ps), count + 1 + length ps) (s\<lparr>ll_heap := c, ll_heap := b, ll_dev := m\<rparr>))"
    "line_out m = line_out (ll_dev s) @ bytes (''Cannot allocate more nodes!'' @ [CR, LF])"
    using Cons.IH [of "s\<lparr>ll_heap := c\<rparr>" p "count + 1"] r(3) by auto
  then show ?case using r by (intro exI [of _ m]) (simp add: fill.simps [of malloc current])
qed

end

section \<open>The program\<close>

definition ll_output :: "u32 \<Rightarrow> u32 \<Rightarrow> u32 \<Rightarrow> u32 \<Rightarrow> u32 \<Rightarrow> nat \<Rightarrow> u8 list" where
  "ll_output p1 p2 p3 p4 q n = bytes ([CR, LF, CR, LF] @ ''Linked list test'' @ [CR, LF])
     @ (bytes ''Size of node: 28'' @ [13, 10])
     @ concat (map entry_text (the_list p1 p2 p3 p4))
     @ (bytes ''Last node @: '' @ ptr_str p4 @ [13, 10])
     @ (bytes ''Name: Hendrik, age: 54'' @ [13, 10])
     @ bytes (''Cannot allocate more nodes!'' @ [CR, LF])
     @ (bytes ''Total of '' @ dec_str n @ nl ('' nodes'' @ [CR]))
     @ (bytes ''Last node @: '' @ ptr_str q @ [13, 10])"

lemma printf_step:
  assumes "0 \<notin> set t" and "length t < 46"
  shows "\<exists>m. ll_printf t s = Done () (s\<lparr>ll_dev := m\<rparr>) \<and> line_out m = line_out (ll_dev s) @ t"
  by (rule saysE [OF says_printf [OF assms]]) blast

lemma ptr_line:
  "0 \<notin> set (bytes ''Last node @: '' @ ptr_str p @ [13, 10])"
  "length (bytes ''Last node @: '' @ ptr_str p @ [13, 10]) < 46"
  using ptr_str_nonzero [of p] length_ptr_str [of p] by simp_all

lemma count_line:
  assumes "n < 2 ^ 31"
  shows "0 \<notin> set (bytes ''Total of '' @ dec_str n @ nl ('' nodes'' @ [CR]))"
    and "length (bytes ''Total of '' @ dec_str n @ nl ('' nodes'' @ [CR])) < 46"
  using length_num_str [of n 10 10] num_str_nonzero [of 10 n] assms by (simp_all add: nl_def)

lemma small_texts:
  "dec_str (unat sizeof_node) = bytes ''28''" "int_str 54 = bytes ''54''"
  by (simp_all add: sizeof_node_def num_str.simps int_str_def hexdig_def)

lemma ll_report_runs:
  assumes "list_at (ll_nodes s) (ll_head s) (xs @ [(p, nm, ag)])" and "list_all good_entry (xs @ [(p, nm, ag)])"
    and "length nm \<le> 12" and "0 \<notin> set (bytes nm)"
  shows "\<exists>m. ll_report s = Some (Done () (s\<lparr>ll_dev := m\<rparr>))
    \<and> line_out m = line_out (ll_dev s) @ concat (map entry_text (xs @ [(p, nm, ag)]))
      @ (bytes ''Last node @: '' @ ptr_str p @ [13, 10])
      @ (bytes ''Name: '' @ bytes nm @ bytes '', age: '' @ int_str (sint ag) @ [13, 10])"
proof -
  let ?l = "xs @ [(p, nm, ag)]"
  obtain m1 where m1: "print_list (ll_head s) s = Some (Done () (s\<lparr>ll_dev := m1\<rparr>))"
    "line_out m1 = line_out (ll_dev s) @ concat (map entry_text ?l)"
    using print_list_at [OF assms(1,2)] by blast
  have last: "last_node 0 (ll_head s) (s\<lparr>ll_dev := m1\<rparr>) = Some (Done p (s\<lparr>ll_dev := m1\<rparr>))"
    using last_node_at [of "s\<lparr>ll_dev := m1\<rparr>" "ll_head s" ?l 0] assms(1) by simp
  obtain m2 where m2: "ll_printf (bytes ''Last node @: '' @ ptr_str p @ [13, 10]) (s\<lparr>ll_dev := m1\<rparr>)
      = Done () (s\<lparr>ll_dev := m2\<rparr>)" "line_out m2 = line_out m1 @ bytes ''Last node @: '' @ ptr_str p @ [13, 10]"
    using printf_step [OF ptr_line [of p], of "s\<lparr>ll_dev := m1\<rparr>"] by auto
  obtain q where n: "ll_nodes s p = Some \<lparr>node_name = strncpy_name nm, node_age = ag, node_next = q\<rparr>"
    using list_at_last [OF assms(1)] by blast
  have g: "good_entry (p, nm, ag)" using assms(2) by simp
  then have c: "c_str (strncpy_name nm) = bytes nm" by (simp add: name_str good_entry_def)
  have a: "0 \<notin> set (int_str (sint ag))" "length (int_str (sint ag)) \<le> 2"
    using g age_str [of ag] by (simp_all add: good_entry_def)
  obtain m3 where m3: "ll_printf (bytes ''Name: '' @ bytes nm @ bytes '', age: '' @ int_str (sint ag) @ [13, 10])
      (s\<lparr>ll_dev := m2\<rparr>) = Done () (s\<lparr>ll_dev := m3\<rparr>)"
    "line_out m3 = line_out m2 @ bytes ''Name: '' @ bytes nm @ bytes '', age: '' @ int_str (sint ag) @ [13, 10]"
    using printf_step [of "bytes ''Name: '' @ bytes nm @ bytes '', age: '' @ int_str (sint ag) @ [13, 10]" "s\<lparr>ll_dev := m2\<rparr>"]
      assms(3,4) a by auto
  have "ll_report s = Some (Done () (s\<lparr>ll_dev := m3\<rparr>))"
    using m1(1) last m2(1) n m3(1) by (simp add: ll_report_def c)
  then show ?thesis using m1(2) m2(2) m3(2) by (intro exI [of _ m3]) (simp del: entry_text.simps)
qed

context allocator begin

lemma ll_exhaust_runs:
  assumes "hands_out malloc (ll_heap s) ps b" and "length ps < 2 ^ 31"
  shows "\<exists>m. ll_exhaust malloc s = Some (Done 0 (s\<lparr>ll_heap := b, ll_dev := m\<rparr>))
    \<and> line_out m = line_out (ll_dev s) @ bytes (''Cannot allocate more nodes!'' @ [CR, LF])
      @ (bytes ''Total of '' @ dec_str (length ps) @ nl ('' nodes'' @ [CR]))
      @ (bytes ''Last node @: '' @ ptr_str (last (0 # ps)) @ [13, 10])"
proof -
  let ?q = "last (0 # ps)" and ?n = "length ps"
  obtain m where m: "fill malloc 0 0 s = Some (Done (?q, ?n) (s\<lparr>ll_heap := b, ll_dev := m\<rparr>))"
    "line_out m = line_out (ll_dev s) @ bytes (''Cannot allocate more nodes!'' @ [CR, LF])"
    using fill_hands_out [OF assms(1), of 0 0] unfolding add_0 by blast
  let ?s = "s\<lparr>ll_heap := b, ll_dev := m\<rparr>"
  obtain k where k: "ll_printf (bytes ''Total of '' @ dec_str ?n @ nl ('' nodes'' @ [CR])) ?s = Done () (s\<lparr>ll_heap := b, ll_dev := k\<rparr>)"
    "line_out k = line_out m @ bytes ''Total of '' @ dec_str ?n @ nl ('' nodes'' @ [CR])"
    using printf_step [OF count_line [OF assms(2)], of ?s] by auto
  obtain j where j: "ll_printf (bytes ''Last node @: '' @ ptr_str ?q @ [13, 10]) (s\<lparr>ll_heap := b, ll_dev := k\<rparr>)
      = Done () (s\<lparr>ll_heap := b, ll_dev := j\<rparr>)"
    "line_out j = line_out k @ bytes ''Last node @: '' @ ptr_str ?q @ [13, 10]"
    using printf_step [OF ptr_line [of ?q], of "s\<lparr>ll_heap := b, ll_dev := k\<rparr>"] by auto
  have "ll_exhaust malloc s = Some (Done 0 (s\<lparr>ll_heap := b, ll_dev := j\<rparr>))"
    by (simp only: ll_exhaust_def andthen_opt_simps m(1) k(1) j(1) prod.case)
  then show ?thesis
    using m(2) k(2) j(2) by (intro exI [of _ j]) simp
qed

lemma ll_main_runs:
  assumes "ok (ll_heap s)" and "room (ll_heap s) < 2 ^ 31"
    and "malloc sizeof_node (ll_heap s) = (p1, a1)" and "malloc sizeof_node a1 = (p2, a2)"
    and "malloc sizeof_node a2 = (p3, a3)" and "malloc sizeof_node a3 = (p4, a4)"
    and "p1 \<noteq> 0" "p2 \<noteq> 0" "p3 \<noteq> 0" "p4 \<noteq> 0"
  shows "\<exists>t ps b. ll_main malloc s = Some (Done 0 t) \<and> hands_out malloc a4 ps b
    \<and> line_out (ll_dev t) = line_out (ll_dev s) @ ll_output p1 p2 p3 p4 (last (0 # ps)) (length ps)
    \<and> ll_heap t = b \<and> distinct ([p1, p2, p3, p4] @ ps)
    \<and> ll_head t = p1 \<and> list_at (ll_nodes t) p1 (the_list p1 p2 p3 p4)"
proof -
  note four = four_blocks [OF assms(1,3-)]
  let ?l = "the_list p1 p2 p3 p4"
  let ?t1 = "[CR, LF, CR, LF] @ ''Linked list test'' @ [CR, LF]"
  let ?t2 = "bytes ''Size of node: '' @ dec_str (unat sizeof_node) @ [13, 10]"
  have init: "line_out (usart_init (ll_dev s)) = line_out (ll_dev s)" by (simp add: usart_init_def)
  obtain m1 where m1: "ll_puts ?t1 (s\<lparr>ll_dev := usart_init (ll_dev s)\<rparr>) = Done () (s\<lparr>ll_dev := m1\<rparr>)"
    "line_out m1 = line_out (ll_dev s) @ bytes ?t1"
    by (rule saysE [OF says_puts [of ?t1 "s\<lparr>ll_dev := usart_init (ll_dev s)\<rparr>"]]) (use init in simp_all)
  obtain m2 where m2: "ll_printf ?t2 (s\<lparr>ll_dev := m1\<rparr>) = Done () (s\<lparr>ll_dev := m2\<rparr>)" "line_out m2 = line_out m1 @ ?t2"
    using printf_step [of ?t2 "s\<lparr>ll_dev := m1\<rparr>"] by (auto simp: small_texts)
  obtain h where h: "build malloc (s\<lparr>ll_dev := m2\<rparr>)
      = Done True (s\<lparr>ll_dev := m2, ll_head := p1, ll_heap := a4, ll_nodes := h\<rparr>)" "list_at h p1 ?l"
    using build_list [of malloc "s\<lparr>ll_dev := m2\<rparr>" p1 a1 p2 a2 p3 a3 p4 a4] assms(3-) four(1) by auto
  define u where "u = s\<lparr>ll_dev := m2, ll_head := p1, ll_heap := a4, ll_nodes := h\<rparr>"
  obtain m3 where m3: "ll_report u = Some (Done () (u\<lparr>ll_dev := m3\<rparr>))"
    "line_out m3 = line_out m2 @ concat (map entry_text ?l)
      @ (bytes ''Last node @: '' @ ptr_str p4 @ [13, 10]) @ (bytes ''Name: Hendrik, age: 54'' @ [13, 10])"
    using ll_report_runs [of u "butlast ?l" p4 "''Hendrik''" 54] h(2) good_list [of p1 p2 p3 p4]
    by (auto simp: u_def the_list_def small_texts simp del: list_at.simps entry_text.simps)
  obtain ps b where ps: "hands_out malloc a4 ps b" "length ps \<le> room a4" using hands_out_ends [OF four(2)] by blast
  have new: "distinct ([p1, p2, p3, p4] @ ps)"
    using hands_out_new [OF four(2) ps(1)] four(1,4) by auto
  obtain m4 where m4: "ll_exhaust malloc (u\<lparr>ll_dev := m3\<rparr>) = Some (Done 0 (u\<lparr>ll_dev := m3, ll_heap := b, ll_dev := m4\<rparr>))"
    "line_out m4 = line_out m3 @ bytes (''Cannot allocate more nodes!'' @ [CR, LF])
      @ (bytes ''Total of '' @ dec_str (length ps) @ nl ('' nodes'' @ [CR]))
      @ (bytes ''Last node @: '' @ ptr_str (last (0 # ps)) @ [13, 10])"
    using ll_exhaust_runs [of "u\<lparr>ll_dev := m3\<rparr>" ps b] ps four(3) assms(2) by (auto simp: u_def)
  have "ll_main malloc s = Some (Done 0 (u\<lparr>ll_dev := m3, ll_heap := b, ll_dev := m4\<rparr>))"
    by (simp only: ll_main_def andthen_opt_simps m1(1) m2(1) h(1) u_def [symmetric] m3(1) m4(1) simp_thms if_False)
  moreover have "line_out m4 = line_out (ll_dev s) @ ll_output p1 p2 p3 p4 (last (0 # ps)) (length ps)"
    using m1(2) m2(2) m3(2) m4(2) small_texts(1) by (simp add: ll_output_def)
  ultimately show ?thesis
    using h(2) ps(1) new
    by (intro exI [of _ "u\<lparr>ll_dev := m3, ll_heap := b, ll_dev := m4\<rparr>"] exI [of _ ps] exI [of _ b]) (simp add: u_def)
qed

end

section \<open>An allocator on the model of sbrk\<close>

text \<open>Each request is passed to \<open>_sbrk\<close>; the second component remembers the blocks.\<close>

definition bump_malloc :: "sysenv \<Rightarrow> u32 \<Rightarrow> clib \<times> u32 set \<Rightarrow> u32 \<times> clib \<times> u32 set" where
  "bump_malloc E n sB = (case sB of (s, B) \<Rightarrow> (case sbrk E n s of (p, s') \<Rightarrow>
     if p = -1 then (0, s', B) else (p, s', insert p B)))"

definition bump_ok :: "sysenv \<Rightarrow> clib \<times> u32 set \<Rightarrow> bool" where
  "bump_ok E sB \<longleftrightarrow> heap_ok E (fst sB) \<and> unat (limit E) < 2 ^ 31 \<and> (\<forall>p \<in> snd sB. unat p < unat (brk_of E (fst sB)))"

definition bump_room :: "sysenv \<Rightarrow> clib \<times> u32 set \<Rightarrow> nat" where
  "bump_room E sB = unat (limit E) - unat (brk_of E (fst sB))"

lemma bump_cases:
  assumes "bump_ok E (s, B)" and "bump_malloc E sizeof_node (s, B) = (p, s', B')"
  shows "heap_ok E s' \<and> (if p = 0 then B' = B \<and> brk_of E s' = brk_of E s
    else p = brk_of E s \<and> B' = insert p B \<and> unat (brk_of E s') = unat p + 28
      \<and> unat (brk_of E s') \<le> unat (limit E))"
proof -
  obtain q t where q: "sbrk E sizeof_node s = (q, t)" by fastforce
  have ok: "heap_ok E s" "unat (limit E) < 2 ^ 31" using assms(1) by (simp_all add: bump_ok_def)
  have nz: "brk_of E s \<noteq> 0" "brk_of E s \<noteq> -1"
  proof -
    show "brk_of E s \<noteq> 0" using ok(1) by (auto simp: heap_ok_def brk_of_def)
    have "unat (-1 :: u32) = 2 ^ 32 - 1" by (simp add: unsigned_minus_1_eq_mask mask_eq_exp_minus_1)
    then show "brk_of E s \<noteq> -1" using ok by (auto simp: heap_ok_def word_le_nat_alt)
  qed
  have "unat sizeof_node < 2 ^ 31" by (simp add: sizeof_node_def)
  then have c: "heap_ok E t" "if unat (brk_of E s) + unat sizeof_node \<le> unat (limit E)
      then q = brk_of E s \<and> unat (brk_of E t) = unat q + unat sizeof_node
      else q = -1 \<and> brk_of E t = brk_of E s"
    using sbrk_correct_step [OF ok(1) _ ok(2), of sizeof_node] unfolding q by (auto split: if_splits)
  show ?thesis
    using c nz assms(2) q by (auto simp: bump_malloc_def sizeof_node_def split: if_splits)
qed

interpretation bump: allocator "bump_malloc E" "bump_ok E" snd "bump_room E"
proof
  fix a p a'
  assume ok: "bump_ok E a" and r: "bump_malloc E sizeof_node a = (p, a')"
  obtain s B s' B' where a: "a = (s, B)" "a' = (s', B')" by (cases a; cases a')
  note c = bump_cases [OF ok [unfolded a] r [unfolded a]]
  show "bump_ok E a'" using c ok by (fastforce simp: a bump_ok_def split: if_splits)
  assume p: "p \<noteq> 0"
  show "p \<notin> snd a \<and> snd a' = insert p (snd a)"
    using c ok p by (auto simp: a bump_ok_def)
  have "unat (brk_of E s') = unat (brk_of E s) + 28" "unat (brk_of E s') \<le> unat (limit E)"
    using c p by auto
  then show "bump_room E a' < bump_room E a" unfolding a bump_room_def fst_conv by arith
qed

text \<open>C34: On any allocator that keeps the laws of malloc and can serve four nodes, the list
  program builds the list of four in memory, prints its nodes in order and the last one,
  takes memory until the allocator has none left, and comes to its end with the output in
  full: the number of further nodes and the address of the last one are those the allocator
  handed out, all different from each other and from the list, which is unharmed.\<close>

theorem linked_list_prints:
  assumes "allocator malloc ok blocks room" and "ok (ll_heap s)" and "room (ll_heap s) < 2 ^ 31"
    and "malloc sizeof_node (ll_heap s) = (p1, a1)" and "malloc sizeof_node a1 = (p2, a2)"
    and "malloc sizeof_node a2 = (p3, a3)" and "malloc sizeof_node a3 = (p4, a4)"
    and "p1 \<noteq> 0" "p2 \<noteq> 0" "p3 \<noteq> 0" "p4 \<noteq> 0"
  shows "\<exists>t ps b. ll_main malloc s = Some (Done 0 t) \<and> hands_out malloc a4 ps b
    \<and> line_out (ll_dev t) = line_out (ll_dev s) @ ll_output p1 p2 p3 p4 (last (0 # ps)) (length ps)
    \<and> ll_heap t = b \<and> distinct ([p1, p2, p3, p4] @ ps)
    \<and> ll_head t = p1 \<and> list_at (ll_nodes t) p1 (the_list p1 p2 p3 p4)"
  by (rule allocator.ll_main_runs [OF assms])

text \<open>A heap with room for six nodes: two more are handed out after the four of the list.\<close>

theorem linked_list_prints_witness:
  "let E = board\<lparr>end_sym := 0x20003b50\<rparr> in \<exists>t. ll_main (bump_malloc E)
      \<lparr>ll_dev = power_on [], ll_heap = (\<lparr>cdev = power_on [], cerrno = None, heap_end = 0\<rparr>, {}), ll_nodes = \<lambda>_. None, ll_head = 0\<rparr>
      = Some (Done 0 t)
    \<and> line_out (ll_dev t) = ll_output 0x20003b50 0x20003b6c 0x20003b88 0x20003ba4 0x20003bdc 2
    \<and> ll_head t = 0x20003b50
    \<and> list_at (ll_nodes t) 0x20003b50 (the_list 0x20003b50 0x20003b6c 0x20003b88 0x20003ba4)"
proof -
  let ?E = "board\<lparr>end_sym := 0x20003b50\<rparr>"
  let ?s = "\<lparr>ll_dev = power_on [], ll_heap = (\<lparr>cdev = power_on [], cerrno = None, heap_end = 0\<rparr>, {}), ll_nodes = \<lambda>_. None, ll_head = 0\<rparr>"
  let ?h = "\<lambda>e. \<lparr>cdev = power_on [], cerrno = None, heap_end = e\<rparr>"
  have i: "bump_ok ?E (ll_heap ?s)" "bump_room ?E (ll_heap ?s) < 2 ^ 31"
    by (simp_all add: bump_ok_def bump_room_def heap_ok_def brk_of_def limit_def)
  have m: "bump_malloc ?E sizeof_node (?h 0, B) = (0x20003b50, ?h 0x20003b6c, insert 0x20003b50 B)"
    "bump_malloc ?E sizeof_node (?h 0x20003b6c, B) = (0x20003b6c, ?h 0x20003b88, insert 0x20003b6c B)"
    "bump_malloc ?E sizeof_node (?h 0x20003b88, B) = (0x20003b88, ?h 0x20003ba4, insert 0x20003b88 B)"
    "bump_malloc ?E sizeof_node (?h 0x20003ba4, B) = (0x20003ba4, ?h 0x20003bc0, insert 0x20003ba4 B)"
    "bump_malloc ?E sizeof_node (?h 0x20003bc0, B) = (0x20003bc0, ?h 0x20003bdc, insert 0x20003bc0 B)"
    "bump_malloc ?E sizeof_node (?h 0x20003bdc, B) = (0x20003bdc, ?h 0x20003bf8, insert 0x20003bdc B)"
    "bump_malloc ?E sizeof_node (?h 0x20003bf8, B) = (0, ?h 0x20003bf8\<lparr>cerrno := Some ENOMEM\<rparr>, B)" for B
    by (simp_all add: bump_malloc_def sbrk_def sizeof_node_def Let_def)
  let ?B = "{0x20003ba4, 0x20003b88, 0x20003b6c, 0x20003b50}"
  have o: "hands_out (bump_malloc ?E) (?h 0x20003bc0, ?B) [0x20003bc0, 0x20003bdc]
      (?h 0x20003bf8\<lparr>cerrno := Some ENOMEM\<rparr>, insert 0x20003bdc (insert 0x20003bc0 ?B))"
    by (simp add: m)
  have f: "bump_malloc ?E sizeof_node (ll_heap ?s) = (0x20003b50, ?h 0x20003b6c, {0x20003b50})" using m(1) by simp
  have nz: "(0x20003b50 :: u32) \<noteq> 0" "(0x20003b6c :: u32) \<noteq> 0" "(0x20003b88 :: u32) \<noteq> 0" "(0x20003ba4 :: u32) \<noteq> 0"
    by simp_all
  have l: "line_out (ll_dev ?s) = []" by simp
  obtain t ps b where t: "ll_main (bump_malloc ?E) ?s = Some (Done 0 t)" "hands_out (bump_malloc ?E) (?h 0x20003bc0, ?B) ps b"
    "line_out (ll_dev t) = ll_output 0x20003b50 0x20003b6c 0x20003b88 0x20003ba4 (last (0 # ps)) (length ps)"
    "ll_head t = 0x20003b50" "list_at (ll_nodes t) 0x20003b50 (the_list 0x20003b50 0x20003b6c 0x20003b88 0x20003ba4)"
    using linked_list_prints [OF bump.allocator_axioms i f m(2-4) nz] unfolding l append_Nil by blast
  have "ps = [0x20003bc0, 0x20003bdc]" using hands_out_unique [OF o t(2)] by simp
  then show ?thesis using t(1,3-5) by (auto simp: Let_def numeral_2_eq_2)
qed

end
