(* ===== verification/Clock.thy ===== *)
theory Clock
  imports Usart SysTime
begin

text \<open>
  The passage of time: \<open>later m n\<close> says that the machine \<open>n\<close> is the machine \<open>m\<close> some ticks later, with
  the clock advanced by what those ticks took. Everything the polling driver does only lets time
  pass; the driver is a second instance of \<open>byte_sink\<close>, with traffic and time in its relation.
  \<open>sample\<close> is what a program that reads the clock holds: the time at a tick that was.
\<close>

section \<open>Time passes\<close>

text \<open>The microseconds of the ticks from the \<open>i\<close>th up to the \<open>j\<close>th.\<close>

definition lapse :: "machine \<Rightarrow> nat \<Rightarrow> nat \<Rightarrow> nat" where
  "lapse m i j = (\<Sum>k = i..<j. elapse m k)"

definition later :: "machine \<Rightarrow> machine \<Rightarrow> bool" where
  "later m n \<longleftrightarrow> elapse n = elapse m \<and> ticks m \<le> ticks n
     \<and> mtime n = mtime m + of_nat (lapse m (ticks m) (ticks n))"

lemma lapse_same [simp]: "lapse m i i = 0"
  by (simp add: lapse_def)

lemma lapse_Suc [simp]: "lapse m i (Suc i) = elapse m i"
  by (simp add: lapse_def)

lemma lapse_add: "i \<le> j \<Longrightarrow> j \<le> k \<Longrightarrow> lapse m i k = lapse m i j + lapse m j k"
  by (simp add: lapse_def sum.atLeastLessThan_concat)

lemma lapse_cong: "elapse n = elapse m \<Longrightarrow> lapse n = lapse m"
  by (simp add: lapse_def fun_eq_iff)

lemma lapse_mono: "j \<le> k \<Longrightarrow> lapse m i j \<le> lapse m i k"
  unfolding lapse_def by (rule sum_mono2) auto

text \<open>Every tick takes time, and at most \<open>e\<close>.\<close>

definition paced :: "nat \<Rightarrow> machine \<Rightarrow> bool" where
  "paced e m \<longleftrightarrow> (\<forall>k. 1 \<le> elapse m k \<and> elapse m k \<le> e)"

lemma paced_lapse:
  assumes "paced e m"
  shows "j - i \<le> lapse m i j" and "lapse m i j \<le> (j - i) * e"
proof -
  have "(\<Sum>k = i..<j. 1) \<le> lapse m i j"
    unfolding lapse_def by (rule sum_mono) (use assms in \<open>simp add: paced_def\<close>)
  then show "j - i \<le> lapse m i j" by simp
  have "lapse m i j \<le> (\<Sum>k = i..<j. e)"
    unfolding lapse_def by (rule sum_mono) (use assms in \<open>simp add: paced_def\<close>)
  then show "lapse m i j \<le> (j - i) * e" by simp
qed

lemma later_refl [simp, intro]: "later m m"
  by (simp add: later_def)

lemma later_trans: "later m n \<Longrightarrow> later n k \<Longrightarrow> later m k"
  using lapse_add [of "ticks m" "ticks n" "ticks k" m] lapse_cong [of n m]
  by (auto simp: later_def add.assoc)

lemma later_tick [simp, intro]: "later m (tick m)"
  by (simp add: later_def tick_def tick_time_def tick_rx_def tick_tx_def
      split: option.splits nat.splits list.splits prod.splits)

lemma later_paced: "later m n \<Longrightarrow> paced e n = paced e m"
  by (simp add: later_def paced_def)

lemma later_same_clock:
  "ticks n = ticks m \<Longrightarrow> elapse n = elapse m \<Longrightarrow> mtime n = mtime m \<Longrightarrow> later m n"
  by (simp add: later_def)

lemma later_elapsed: "later m n \<Longrightarrow> later n k \<Longrightarrow> lapse m (ticks n) (ticks k) = lapse n (ticks n) (ticks k)"
  using lapse_cong [of n m] by (simp add: later_def)

section \<open>The driver only lets time pass\<close>

lemma wait_stat_later:
  assumes "wait_stat fl m = Some n"
  shows "later m n"
proof (rule wait_stat.raw_induct [where P = "\<lambda>fl m n. later m n", OF _ assms])
  fix f :: "u32 \<Rightarrow> machine \<Rightarrow> machine option" and fl m n
  assume IH: "\<And>fl m n. f fl m = Some n \<Longrightarrow> later m n"
    and eq: "(case io_read USTAT m of (v, m') \<Rightarrow> if v AND fl = 0 then f fl m' else Some m') = Some n"
  show "later m n"
    using eq later_trans [OF later_tick IH] later_tick
    by (auto simp: io_read_def split: if_splits)
qed

text \<open>Traffic that takes the time it takes.\<close>

definition timed :: "u8 list \<Rightarrow> u8 list \<Rightarrow> machine \<Rightarrow> machine \<Rightarrow> bool" where
  "timed i os m n \<longleftrightarrow> serial i os m n \<and> later m n"

lemma timed_refl [simp, intro]: "timed [] [] m m"
  by (simp add: timed_def)

lemma timed_trans: "timed i os m n \<Longrightarrow> timed i' os' n k \<Longrightarrow> timed (i @ i') (os @ os') m k"
  using serial_trans later_trans by (auto simp: timed_def)

lemma timed_says: "timed [] os m n \<Longrightarrow> timed [] os' n k \<Longrightarrow> timed [] (os @ os') m k"
  using timed_trans [of "[]" os m n "[]" os' k] by simp

lemma timed_waits: "timed [] [] m n \<Longrightarrow> timed [] os n k \<Longrightarrow> timed [] os m k"
  using timed_says [of "[]" m n os k] by simp

lemma timed_out: "timed i os m n \<Longrightarrow> line_out n = line_out m @ os"
  using serial_out by (auto simp: timed_def)

lemma timed_tick: "timed [] [] m (tick m)"
  by (simp add: timed_def serial_tick)

lemma usart_putc_timed: "\<exists>n. usart_putc ch m = Done () n \<and> timed [] [ucast ch] m n"
proof -
  obtain n where n: "usart_putc ch m = Done () n" "serial [] [ucast ch] m n"
    using usart_putc_serial by blast
  let ?m = "io_write UDATA (ucast (ucast ch :: u8)) m"
  have "wait_stat 16 ?m = Some n"
    using n(1) by (auto simp: usart_putc_def Let_def split: option.splits)
  then have "later ?m n" by (rule wait_stat_later)
  moreover have "later m ?m" by (rule later_same_clock) simp_all
  ultimately show ?thesis using n later_trans by (auto simp: timed_def)
qed

interpretation timed: byte_sink usart_putc timed
proof unfold_locales
  show "timed [] [] s s" for s by simp
  show "timed (i @ i') (os @ os') s u" if "timed i os s t" "timed i' os' t u" for i i' os os' s t u
    using that by (rule timed_trans)
  show "\<exists>t. usart_putc ch s = Done () t \<and> timed [] [ucast ch] s t" for ch s
    by (rule usart_putc_timed)
qed

lemma puts_timed: "0 \<notin> set cs \<Longrightarrow> \<exists>n. usart_puts (Some (cs @ [0])) m = Done () n \<and> timed [] cs m n"
  using timed.puts_by_io [of cs "[]" m] by (simp add: usart_puts_def)

section \<open>Reading the clock\<close>

text \<open>The program holds the time \<open>t\<close> of the machine \<open>n\<close>, at most four ticks after it began to read.\<close>

definition sample :: "machine \<Rightarrow> u64 \<Rightarrow> machine \<Rightarrow> machine \<Rightarrow> bool" where
  "sample m t n k \<longleftrightarrow> t = mtime n \<and> timed [] [] m n \<and> k = tick (tick n) \<and> ticks m < ticks n \<and> ticks n \<le> ticks m + 4"

lemma read_time_agreed:
  assumes "brisk m" and "hi32 (mtime m) = hi32 (mtime (tick (tick m)))"
  shows "\<exists>hi lo. read_time m = Some (hi, lo, tick (tick (tick m))) \<and> join64 hi lo = mtime (tick m)"
proof -
  have "join64 (hi32 (mtime m)) (lo32 (mtime (tick m))) = mtime (tick m)"
    using hi32_run [OF assms(1)] assms(2) join64_halves [of "mtime (tick m)"] by simp
  then show ?thesis using assms(2) by (simp add: read_time_unfold)
qed

lemma read_time_sample:
  assumes "brisk m"
  shows "\<exists>hi lo n k. read_time m = Some (hi, lo, k) \<and> sample m (join64 hi lo) n k"
proof (cases "hi32 (mtime m) = hi32 (mtime (tick (tick m)))")
  case True
  then show ?thesis
    using read_time_agreed [OF assms True] timed_tick [of m] by (force simp: sample_def tick_clock)
next
  case False
  let ?n = "tick (tick (tick m))"
  have "read_time m = read_time ?n" using False by (simp add: read_time_unfold [of m])
  moreover have "timed [] [] m (tick ?n)"
    using timed_trans [OF timed_trans [OF timed_tick timed_tick] timed_trans [OF timed_tick timed_tick], of m] by simp
  ultimately show ?thesis
    using read_time_agreed [of ?n] second_round_agrees [OF assms False] assms
    by (force simp: sample_def tick_clock)
qed

lemma sample_after: "sample m t n k \<Longrightarrow> timed [] [] m k \<and> later n k \<and> ticks k \<le> ticks m + 6"
  using timed_trans [of "[]" "[]" m n "[]" "[]" k] timed_trans [OF timed_tick timed_tick, of n]
  by (auto simp: sample_def tick_clock timed_def)

end
