(* ===== verification/Interval.thy ===== *)
theory Interval
  imports Clock Format
begin

text \<open>
  \<open>CODE/interval/interval.c\<close>: the program prints its clock, waits for five seconds by polling the
  clock, and says so, for ever. The wait comes to an end and lasts five seconds, whether or not
  the 32-bit clock wraps meanwhile.
\<close>

section \<open>The program\<close>

text \<open>\<open>snprintf (buffer, n, ...); usart_puts (buffer);\<close>\<close>

definition sn_put :: "nat \<Rightarrow> u8 list \<Rightarrow> machine \<Rightarrow> (machine, unit) outcome" where
  "sn_put n t m = usart_puts (Some (take (n - 1) t @ [0])) m"

text \<open>A loop without exit: its first \<open>n\<close> rounds.\<close>

fun rounds :: "nat \<Rightarrow> ('s \<Rightarrow> ('s, unit) outcome) \<Rightarrow> 's \<Rightarrow> ('s, unit) outcome" where
  "rounds 0 f s = Done () s"
| "rounds (Suc n) f s = andthen (f s) (\<lambda>_ s. rounds n f s)"

text \<open>\<open>clock ()\<close> is the sum of the four times of \<open>_times\<close>, of which three are zero, in a
  \<open>clock_t\<close> of 32 bits.\<close>

definition clock_now :: "machine \<Rightarrow> (u32 \<times> machine) option" where
  "clock_now m = (case read_time m of None \<Rightarrow> None
     | Some (hi, lo, m) \<Rightarrow> Some (ucast (join64 hi lo), m))"

partial_function (option) wait_clock :: "u32 \<Rightarrow> u32 \<Rightarrow> machine \<Rightarrow> machine option" where
  "wait_clock clocks_per_sec current m = (case clock_now m of
       None \<Rightarrow> None
     | Some (t, m) \<Rightarrow> if t - current < 5 * clocks_per_sec then wait_clock clocks_per_sec current m else Some m)"

definition interval_round :: "u32 \<Rightarrow> machine \<Rightarrow> (machine, unit) outcome" where
  "interval_round clocks_per_sec m = (case clock_now m of
       None \<Rightarrow> Stuck m
     | Some (current, m) \<Rightarrow>
         andthen (sn_put 100 (dec_str (unat current) @ [13, 10]) m) (\<lambda>_ m.
         andthen (puts (''Wait....'' @ [CR]) m) (\<lambda>_ m.
         case wait_clock clocks_per_sec current m of
           None \<Rightarrow> Stuck m
         | Some m \<Rightarrow> puts (''5 seconds elapsed'' @ [CR, LF]) m)))"

definition interval_start :: "u32 \<Rightarrow> machine \<Rightarrow> (machine, unit) outcome" where
  "interval_start clocks_per_sec m =
     andthen (puts ([CR, LF, CR, LF] @ ''Interval testing'' @ [CR, LF]) (usart_init m)) (\<lambda>_ m.
     andthen (sn_put 100 (bytes ''Clocks per second: '' @ int_str (sint clocks_per_sec) @ [13, 10]) m) (\<lambda>_ m.
     if clocks_per_sec \<noteq> 1000000
     then puts (''Clocks per second should be 1000000!'' @ [CR, LF]) m
     else Done () m))"

definition interval_main :: "nat \<Rightarrow> u32 \<Rightarrow> machine \<Rightarrow> (machine, unit) outcome" where
  "interval_main n clocks_per_sec m =
     andthen (interval_start clocks_per_sec m) (\<lambda>_ m. rounds n (interval_round clocks_per_sec) m)"

section \<open>The wait\<close>

lemma paced_brisk: "paced e m \<Longrightarrow> e < 2 ^ 29 \<Longrightarrow> brisk m"
  unfolding paced_def brisk_def using le_less_trans by blast

text \<open>The difference of two readings of the 32-bit clock.\<close>

lemma clock_difference:
  assumes "later m n"
  shows "unat (ucast (mtime n) - ucast (mtime m) :: u32) = lapse m (ticks m) (ticks n) mod 2 ^ 32"
proof -
  let ?k = "lapse m (ticks m) (ticks n)"
  have "mtime n = mtime m + of_nat ?k" using assms by (simp add: later_def)
  then have "(ucast (mtime n) :: u32) = ucast (mtime m) + of_nat ?k"
    by (simp add: unsigned_ucast_eq word_unat_eq_iff unat_word_ariths unat_of_nat take_bit_eq_mod mod_mod_cancel mod_simps)
  then show ?thesis by (simp add: unat_of_nat take_bit_eq_mod)
qed

lemma clock_sample:
  assumes "brisk m"
  shows "\<exists>n k. clock_now m = Some (ucast (mtime n), k) \<and> sample m (mtime n) n k"
  using read_time_sample [OF assms] by (auto simp: clock_now_def sample_def)

lemma wait_clock_poll:
  assumes "brisk m" and "later c m"
  obtains n k where "sample m (mtime n) n k"
    and "wait_clock 1000000 (ucast (mtime c)) m
      = (if lapse c (ticks c) (ticks n) mod 2 ^ 32 < 5000000 then wait_clock 1000000 (ucast (mtime c)) k else Some k)"
proof -
  obtain n k where n: "clock_now m = Some (ucast (mtime n), k)" "sample m (mtime n) n k"
    using clock_sample [OF assms(1)] by blast
  have "later c n" using n(2) assms(2) later_trans by (auto simp: sample_def timed_def)
  note d = clock_difference [OF this]
  have "wait_clock 1000000 (ucast (mtime c)) m
      = (if lapse c (ticks c) (ticks n) mod 2 ^ 32 < 5000000 then wait_clock 1000000 (ucast (mtime c)) k else Some k)"
    by (subst wait_clock.simps) (simp add: n(1) word_less_nat_alt d)
  with n(2) show ?thesis by (rule that)
qed

text \<open>What a poll adds to the time waited: at least a tick, at most six.\<close>

lemma poll_lapse:
  assumes "paced e m" and "later c m" and "sample m t n k"
  shows "later c n" and "later c k" and "ticks m < ticks n" and "ticks n \<le> ticks k"
    and "lapse c (ticks c) (ticks m) < lapse c (ticks c) (ticks n)"
    and "lapse c (ticks c) (ticks n) \<le> lapse c (ticks c) (ticks m) + 4 * e"
    and "lapse c (ticks c) (ticks n) < lapse c (ticks c) (ticks k)"
    and "lapse c (ticks c) (ticks k) \<le> lapse c (ticks c) (ticks n) + 2 * e"
proof -
  have l: "later m n" "later n k" and t: "ticks m < ticks n" "ticks n \<le> ticks m + 4" "ticks k = ticks n + 2"
    using assms(3) sample_after [OF assms(3)] by (auto simp: sample_def timed_def tick_clock)
  show "later c n" "later c k" using later_trans assms(2) l by blast+
  show "ticks m < ticks n" "ticks n \<le> ticks k" using t by simp_all
  have p: "paced e c" using later_paced assms(1,2) by blast
  have c: "ticks c \<le> ticks m" using assms(2) by (simp add: later_def)
  have a: "lapse c (ticks c) (ticks n) = lapse c (ticks c) (ticks m) + lapse c (ticks m) (ticks n)"
    "lapse c (ticks c) (ticks k) = lapse c (ticks c) (ticks n) + lapse c (ticks n) (ticks k)"
    by (rule lapse_add; use c t in simp)+
  have e: "1 \<le> ticks n - ticks m" "1 \<le> ticks k - ticks n" "(ticks k - ticks n) * e = 2 * e"
    using t by simp_all
  have f: "(ticks n - ticks m) * e \<le> 4 * e" by (rule mult_le_mono1) (use t in simp)
  show "lapse c (ticks c) (ticks m) < lapse c (ticks c) (ticks n)"
    "lapse c (ticks c) (ticks n) \<le> lapse c (ticks c) (ticks m) + 4 * e"
    "lapse c (ticks c) (ticks n) < lapse c (ticks c) (ticks k)"
    "lapse c (ticks c) (ticks k) \<le> lapse c (ticks c) (ticks n) + 2 * e"
    using a e f paced_lapse [OF p, where i = "ticks m" and j = "ticks n"]
      paced_lapse [OF p, where i = "ticks n" and j = "ticks k"] by linarith+
qed

text \<open>The result of the wait: it ended after a reading \<open>n\<close>, five seconds after the reading \<open>c\<close>, and
  not later than one poll after that if it had begun before.\<close>

definition waited :: "nat \<Rightarrow> machine \<Rightarrow> machine \<Rightarrow> machine \<Rightarrow> bool" where
  "waited e c m k \<longleftrightarrow> timed [] [] m k \<and> 5000000 \<le> lapse c (ticks c) (ticks k)
     \<and> (lapse c (ticks c) (ticks m) < 5000000 \<longrightarrow> lapse c (ticks c) (ticks k) < 5000000 + 8 * e)"

lemma wait_clock_ends:
  assumes "paced e m" and "e < 2 ^ 29" and "later c m"
    and "lapse c (ticks c) (ticks m) = q * 2 ^ 32 + d" and "d < 5000000 + 2 * e"
  shows "\<exists>k. wait_clock 1000000 (ucast (mtime c)) m = Some k \<and> timed [] [] m k
    \<and> q * 2 ^ 32 + 5000000 \<le> lapse c (ticks c) (ticks k) \<and> lapse c (ticks c) (ticks k) < q * 2 ^ 32 + 5000000 + 8 * e"
  using assms
proof (induction "5000000 + 2 * e - d" arbitrary: m d rule: less_induct)
  case less
  let ?L = "\<lambda>m. lapse c (ticks c) (ticks m)"
  obtain n k where nk: "sample m (mtime n) n k" and poll: "wait_clock 1000000 (ucast (mtime c)) m
      = (if ?L n mod 2 ^ 32 < 5000000 then wait_clock 1000000 (ucast (mtime c)) k else Some k)"
    by (rule wait_clock_poll [OF paced_brisk [OF less.prems(1,2)] less.prems(3)])
  note p = poll_lapse [OF less.prems(1,3) nk] and a = sample_after [OF nk]
  define x where "x = ?L n - q * 2 ^ 32"
  have x: "?L n = q * 2 ^ 32 + x" "d < x" "x \<le> d + 4 * e"
    using p(5,6) less.prems(4) by (simp_all add: x_def)
  then have "x < 2 ^ 32" using less.prems(2,5) by simp
  then have m: "?L n mod 2 ^ 32 = x" using x(1) by simp
  show ?case
  proof (cases "x < 5000000")
    case True
    define y where "y = ?L k - q * 2 ^ 32"
    have y: "?L k = q * 2 ^ 32 + y" "d < y" "y < 5000000 + 2 * e"
      using p(7,8) x True by (simp_all add: y_def)
    have dec: "5000000 + 2 * e - y < 5000000 + 2 * e - d" using y(2,3) by linarith
    have k: "paced e k" "timed [] [] m k"
      using later_paced [of m k e] less.prems(1) a by (simp_all add: timed_def)
    obtain j where j: "wait_clock 1000000 (ucast (mtime c)) k = Some j" "timed [] [] k j"
      "q * 2 ^ 32 + 5000000 \<le> ?L j" "?L j < q * 2 ^ 32 + 5000000 + 8 * e"
      using less.hyps [OF dec k(1) less.prems(2) p(2) y(1) y(3)] by blast
    then show ?thesis
      using poll m True timed_trans [OF k(2) j(2)] by auto
  next
    case False
    then have "wait_clock 1000000 (ucast (mtime c)) m = Some k" using poll m by simp
    then show ?thesis using False x p(7,8) less.prems(5) a by auto
  qed
qed

lemma wait_clock_waits:
  assumes "paced e m" and "e < 2 ^ 29" and "later c m"
  shows "\<exists>k. wait_clock 1000000 (ucast (mtime c)) m = Some k \<and> waited e c m k"
proof (cases "lapse c (ticks c) (ticks m) < 5000000")
  case True
  then show ?thesis
    using wait_clock_ends [OF assms, of 0] by (auto simp: waited_def)
next
  case False
  let ?L = "\<lambda>m. lapse c (ticks c) (ticks m)"
  obtain n k where nk: "sample m (mtime n) n k" and poll: "wait_clock 1000000 (ucast (mtime c)) m
      = (if ?L n mod 2 ^ 32 < 5000000 then wait_clock 1000000 (ucast (mtime c)) k else Some k)"
    by (rule wait_clock_poll [OF paced_brisk [OF assms(1,2)] assms(3)])
  note p = poll_lapse [OF assms(1,3) nk] and a = sample_after [OF nk]
  show ?thesis
  proof (cases "?L n mod 2 ^ 32 < 5000000")
    case wrapped: True
    define y where "y = ?L k - ?L n div 2 ^ 32 * 2 ^ 32"
    have q: "?L n = ?L n div 2 ^ 32 * 2 ^ 32 + ?L n mod 2 ^ 32" by simp
    have y: "?L k = ?L n div 2 ^ 32 * 2 ^ 32 + y" "y < 5000000 + 2 * e"
      using p(7,8) q wrapped unfolding y_def by linarith+
    have k: "paced e k" "timed [] [] m k"
      using later_paced [of m k e] assms(1) a by (simp_all add: timed_def)
    obtain j where j: "wait_clock 1000000 (ucast (mtime c)) k = Some j" "timed [] [] k j"
      "?L n div 2 ^ 32 * 2 ^ 32 + 5000000 \<le> ?L j"
      using wait_clock_ends [OF k(1) assms(2) p(2) y] by blast
    then show ?thesis
      using poll wrapped timed_trans [OF k(2) j(2)] False by (auto simp: waited_def)
  next
    case now: False
    then have "wait_clock 1000000 (ucast (mtime c)) m = Some k" using poll by simp
    moreover have "5000000 \<le> ?L k" using False p(5,7) by linarith
    ultimately show ?thesis using a False by (auto simp: waited_def)
  qed
qed

section \<open>The program runs\<close>

lemma sn_put_timed:
  assumes "0 \<notin> set t" and "length t < n"
  shows "\<exists>k. sn_put n t m = Done () k \<and> timed [] t m k"
proof -
  have "take (n - 1) t = t" using assms(2) by simp
  then show ?thesis using puts_timed [OF assms(1), of m] by (simp add: sn_put_def)
qed

definition interval_line :: "u32 \<Rightarrow> u8 list" where
  "interval_line t = (dec_str (unat t) @ [13, 10]) @ bytes (''Wait....'' @ [CR]) @ bytes (''5 seconds elapsed'' @ [CR, LF])"

lemma clock_text: "0 \<notin> set (dec_str (unat (t :: u32)) @ [13, 10])" "length (dec_str (unat t) @ [13, 10]) < 100"
proof -
  have "unat t < 10 ^ 10" using unsigned_less [of t, where 'a = nat] by simp
  then have "length (dec_str (unat t)) \<le> 10" by (rule length_num_str) simp_all
  then show "length (dec_str (unat t) @ [13, 10]) < 100" by simp
  show "0 \<notin> set (dec_str (unat t) @ [13, 10])" using num_str_nonzero [of 10 "unat t"] by simp
qed

lemma literal_timed: "0 \<notin> set (bytes s) \<Longrightarrow> \<exists>k. puts s m = Done () k \<and> timed [] (bytes s) m k"
  using puts_timed [of "bytes s" m] by (simp add: cstr_def)

lemma interval_round_waits:
  assumes "paced e m" and "e < 2 ^ 29"
  shows "\<exists>c w b k. interval_round 1000000 m = Done () k \<and> sample m (mtime c) c (tick (tick c))
    \<and> waited e c w b \<and> timed [] (interval_line (ucast (mtime c))) m k \<and> later b k"
proof -
  obtain c j where c: "clock_now m = Some (ucast (mtime c), j)" "sample m (mtime c) c j"
    using clock_sample [OF paced_brisk [OF assms]] by blast
  note s = sample_after [OF c(2)]
  let ?t = "ucast (mtime c) :: u32"
  obtain m1 where m1: "sn_put 100 (dec_str (unat ?t) @ [13, 10]) j = Done () m1" "timed [] (dec_str (unat ?t) @ [13, 10]) j m1"
    using sn_put_timed [OF clock_text] by blast
  obtain m2 where m2: "puts (''Wait....'' @ [CR]) m1 = Done () m2" "timed [] (bytes (''Wait....'' @ [CR])) m1 m2"
    using literal_timed [of "''Wait....'' @ [CR]" m1] by auto
  have l: "later m m2" "later c m2"
    using s m1(2) m2(2) by (auto simp: timed_def intro: later_trans)
  obtain b where b: "wait_clock 1000000 ?t m2 = Some b" "waited e c m2 b"
    using wait_clock_waits [OF _ assms(2) l(2)] later_paced [OF l(1)] assms(1) by blast
  obtain k where k: "puts (''5 seconds elapsed'' @ [CR, LF]) b = Done () k" "timed [] (bytes (''5 seconds elapsed'' @ [CR, LF])) b k"
    using literal_timed [of "''5 seconds elapsed'' @ [CR, LF]" b] by auto
  have "timed [] [] m2 b" using b(2) by (simp add: waited_def)
  then have "timed [] (interval_line ?t) m k"
    unfolding interval_line_def
    using timed_waits [OF conjunct1 [OF s] timed_says [OF m1(2) timed_says [OF m2(2) timed_waits [OF _ k(2)]]]] by blast
  moreover have "interval_round 1000000 m = Done () k"
    by (simp add: interval_round_def c(1) m1(1) m2(1) [simplified] b(1) k(1) [simplified])
  moreover have "j = tick (tick c)" using c(2) by (simp add: sample_def)
  moreover have "later b k" using k(2) by (simp add: timed_def)
  ultimately show ?thesis using c(2) b(2) by blast
qed

text \<open>Output and time together.\<close>

definition prints :: "u8 list \<Rightarrow> machine \<Rightarrow> machine \<Rightarrow> bool" where
  "prints os m n \<longleftrightarrow> line_out n = line_out m @ os \<and> later m n"

lemma prints_trans: "prints os m n \<Longrightarrow> prints os' n k \<Longrightarrow> prints (os @ os') m k"
  using later_trans by (auto simp: prints_def)

lemma timed_prints: "timed i os m n \<Longrightarrow> prints os m n"
  using timed_out by (auto simp: prints_def timed_def)

lemma interval_round_prints:
  assumes "paced e m" and "e < 2 ^ 29"
  shows "\<exists>t k. interval_round 1000000 m = Done () k \<and> prints (interval_line t) m k
    \<and> 5000000 \<le> lapse m (ticks m) (ticks k)"
proof -
  obtain c w b k where k: "interval_round 1000000 m = Done () k" "sample m (mtime c) c (tick (tick c))"
    "waited e c w b" "timed [] (interval_line (ucast (mtime c))) m k" "later b k"
    using interval_round_waits [OF assms] by blast
  have l: "later m c" "later m k" using k(2,4) by (simp_all add: sample_def timed_def)
  have "5000000 \<le> lapse c (ticks c) (ticks b)" using k(3) by (simp add: waited_def)
  also have "\<dots> \<le> lapse c (ticks c) (ticks k)" using k(5) by (simp add: later_def lapse_mono)
  also have "\<dots> = lapse m (ticks c) (ticks k)" using l(1) lapse_cong [of c m] by (simp add: later_def)
  also have "\<dots> \<le> lapse m (ticks m) (ticks k)"
    unfolding lapse_def by (rule sum_mono2) (use l(1) in \<open>auto simp: later_def\<close>)
  finally show ?thesis using k(1) timed_prints [OF k(4)] by blast
qed

lemma interval_rounds_print:
  assumes "paced e m" and "e < 2 ^ 29"
  shows "\<exists>ts k. rounds n (interval_round 1000000) m = Done () k \<and> length ts = n
    \<and> prints (concat (map interval_line ts)) m k \<and> n * 5000000 \<le> lapse m (ticks m) (ticks k)"
  using assms(1)
proof (induction n arbitrary: m)
  case 0
  then show ?case by (simp add: prints_def)
next
  case (Suc n)
  obtain t j where j: "interval_round 1000000 m = Done () j" "prints (interval_line t) m j"
    "5000000 \<le> lapse m (ticks m) (ticks j)"
    using interval_round_prints [OF Suc.prems assms(2)] by blast
  have p: "paced e j" using later_paced Suc.prems j(2) by (auto simp: prints_def)
  obtain ts k where k: "rounds n (interval_round 1000000) j = Done () k" "length ts = n"
    "prints (concat (map interval_line ts)) j k" "n * 5000000 \<le> lapse j (ticks j) (ticks k)"
    using Suc.IH [OF p] by blast
  have "lapse m (ticks m) (ticks k) = lapse m (ticks m) (ticks j) + lapse j (ticks j) (ticks k)"
    using j(2) k(3) lapse_add [of "ticks m" "ticks j" "ticks k" m] lapse_cong [of j m]
    by (simp add: prints_def later_def)
  then show ?case
    using j k prints_trans [OF j(2) k(3)] by (intro exI [of _ "t # ts"] exI [of _ k]) simp
qed

definition interval_intro :: "u8 list" where
  "interval_intro = bytes ([CR, LF, CR, LF] @ ''Interval testing'' @ [CR, LF])
     @ (bytes ''Clocks per second: 1000000'' @ [13, 10])"

lemma interval_start_prints: "\<exists>k. interval_start 1000000 m = Done () k \<and> prints interval_intro m k"
proof -
  have i: "prints [] m (usart_init m)" by (simp add: prints_def usart_init_def later_same_clock)
  let ?s = "[CR, LF, CR, LF] @ ''Interval testing'' @ [CR, LF]"
  obtain j where j: "puts ?s (usart_init m) = Done () j" "timed [] (bytes ?s) (usart_init m) j"
    using literal_timed [of ?s "usart_init m"] by auto
  have t: "bytes ''Clocks per second: '' @ int_str (sint (1000000 :: u32)) @ [13, 10]
      = bytes ''Clocks per second: 1000000'' @ [13, 10]"
    by (simp add: int_str_def num_str.simps hexdig_def)
  obtain k where k: "sn_put 100 (bytes ''Clocks per second: 1000000'' @ [13, 10]) j = Done () k"
    "timed [] (bytes ''Clocks per second: 1000000'' @ [13, 10]) j k"
    using sn_put_timed [of "bytes ''Clocks per second: 1000000'' @ [13, 10]" 100 j] by auto
  have "interval_start 1000000 m = Done () k"
    by (simp only: interval_start_def j(1) t k(1) andthen.simps simp_thms if_False)
  then show ?thesis
    using prints_trans [OF i prints_trans [OF timed_prints [OF j(2)] timed_prints [OF k(2)]]]
    by (simp only: interval_intro_def append_Nil) blast
qed

text \<open>C35: The polling loops of the interval program come to an end: n rounds of it return,
  whatever the 32-bit clock wraps in between, print n lines and take at least five seconds
  each.\<close>

theorem interval_waits:
  assumes "paced e m" and "e < 2 ^ 29"
  shows "\<exists>ts k. interval_main n 1000000 m = Done () k \<and> length ts = n
    \<and> line_out k = line_out m @ interval_intro @ concat (map interval_line ts)
    \<and> n * 5000000 \<le> lapse m (ticks m) (ticks k)"
proof -
  obtain j where j: "interval_start 1000000 m = Done () j" "prints interval_intro m j"
    using interval_start_prints by blast
  have p: "paced e j" using later_paced assms(1) j(2) by (auto simp: prints_def)
  obtain ts k where k: "rounds n (interval_round 1000000) j = Done () k" "length ts = n"
    "prints (concat (map interval_line ts)) j k" "n * 5000000 \<le> lapse j (ticks j) (ticks k)"
    using interval_rounds_print [OF p assms(2)] by blast
  have "lapse j (ticks j) (ticks k) \<le> lapse m (ticks m) (ticks k)"
    unfolding lapse_def by (rule order.trans [OF sum_mono2 eq_refl])
      (use j(2) in \<open>auto simp: prints_def later_def\<close>)
  then show ?thesis using j k by (auto simp: interval_main_def prints_def)
qed

theorem interval_waits_witness:
  "\<exists>ts k. interval_main 3 1000000 (power_on []) = Done () k \<and> length ts = 3
    \<and> line_out k = line_out (power_on []) @ interval_intro @ concat (map interval_line ts)
    \<and> 3 * 5000000 \<le> lapse (power_on []) (ticks (power_on [])) (ticks k)"
  by (rule interval_waits [of 1]) (simp_all add: paced_def power_on_def)

end
