(* ===== verification/ShowTime.thy ===== *)
theory ShowTime
  imports Interval Vectored Syscalls
begin

text \<open>
  The programs that show the time since reset: \<open>CODE/clock/clock.c\<close> and the main programs of
  \<open>CODE/interrupt_direct\<close> and \<open>CODE/interrupt_vectored\<close>, which set up the timers and interrupts
  first and execute an EBREAK every 400 rounds. The interrupts that come between the rounds are
  steps of the relation \<open>irq_step\<close>.
\<close>

section \<open>The time of day\<close>

text \<open>What \<open>gettimeofday\<close> returns and leaves in the local \<open>tv\<close>.\<close>

definition gettimeofday :: "machine \<Rightarrow> (machine, u32 \<times> u64 \<times> u32) outcome" where
  "gettimeofday m = (case read_time m of
       None \<Rightarrow> Stuck m
     | Some (hi, lo, m) \<Rightarrow>
         let thetime = join64 hi lo
         in Done (0, thetime div 1000000, ucast (thetime mod 1000000)) m)"

lemma gettimeofday_in_memory:
  "lib_gettimeofday E tp m = andthen (gettimeofday m) (\<lambda>(status, sec, usec) m.
     Done status (m\<lparr>mem := put_timeval E tp sec usec (mem m)\<rparr>))"
  by (auto simp: lib_gettimeofday_clock gettimeofday_def Let_def split: option.splits)

section \<open>The clock program\<close>

definition clock_line :: "u64 \<Rightarrow> u32 \<Rightarrow> u8 list" where
  "clock_line tv_sec tv_usec =
     (let sec = tv_sec mod 60; min = tv_sec div 60 mod 60; hour = tv_sec div 3600
      in int_str (sint (ucast tv_sec :: u32)) @ [44] @ zpad_int 6 (sint tv_usec) @ bytes '' | ''
         @ zpad_int 3 (sint (ucast hour :: u32)) @ [58] @ zpad_int 2 (sint (ucast min :: u32)) @ [58]
         @ zpad_int 2 (sint (ucast sec :: u32)) @ bytes ''           '' @ [13])"

definition clock_round :: "machine \<Rightarrow> (machine, unit) outcome" where
  "clock_round m = andthen (gettimeofday m) (\<lambda>(status, sec, usec) m. sn_put 100 (clock_line sec usec) m)"

definition clock_main :: "nat \<Rightarrow> machine \<Rightarrow> (machine, unit) outcome" where
  "clock_main n m =
     andthen (puts ([CR, LF, CR, LF] @ ''Time since last reset:'' @ [CR, LF]) (usart_init m)) (\<lambda>_ m.
     rounds n clock_round m)"

section \<open>The interrupt programs\<close>

text \<open>\<open>sprintf (buffer, ...); usart_puts (buffer);\<close> with a buffer of \<open>n\<close> characters.\<close>

definition sp_put :: "nat \<Rightarrow> u8 list \<Rightarrow> machine \<Rightarrow> (machine, unit) outcome" where
  "sp_put n t m = (if length t < n then usart_puts (Some (t @ [0])) m else Fault Out_Of_Bounds m)"

definition irq_line :: "u64 \<Rightarrow> u32 \<Rightarrow> u8 list" where
  "irq_line tv_sec tv_usec =
     (let hour = ucast (tv_sec div 3600) :: u32; min = ucast (tv_sec div 60 mod 60) :: u32;
          sec = ucast (tv_sec mod 60) :: u32
      in zpad_int 5 (sint (ucast tv_sec :: u32)) @ [58] @ zpad_int 6 (sint tv_usec) @ bytes ''   ''
         @ zpad_int 2 (sint hour) @ [58] @ zpad_int 2 (sint min) @ [58] @ zpad_int 2 (sint sec) @ [13])"

definition direct_setup :: "u32 \<Rightarrow> machine \<Rightarrow> machine" where
  "direct_setup handler m =
     (let m = set_mtvec handler TRAP_DIRECT_MODE m;
          m = irq_usart_init m;
          m = io_write T1CMPT 24999999 m;
          m = io_write T1CTRL (push_bit 4 1 OR push_bit 0 1) m;
          m = enable_external_timer_irq m
      in enable_irq m)"

definition vectored_setup :: "u32 \<Rightarrow> machine \<Rightarrow> machine" where
  "vectored_setup jump_table m =
     (let m = set_mtvec jump_table TRAP_VECTORED_MODE m;
          m = irq_usart_init m;
          m = io_write T1CMPT (50000000 div 100 - 1) m;
          m = io_write T1CTRL (push_bit 4 1 OR push_bit 0 1) m;
          m = enable_external_timer_irq m
      in enable_irq m)"

fun show_args :: "string list \<Rightarrow> machine \<Rightarrow> (machine, unit) outcome" where
  "show_args [] m = Done () m"
| "show_args (a # argv) m =
     andthen (puts a m) (\<lambda>_ m. andthen (puts [CR, LF] m) (\<lambda>_ m. show_args argv m))"

definition irq_intro :: "string list \<Rightarrow> machine \<Rightarrow> (machine, unit) outcome" where
  "irq_intro argv m =
     andthen (puts [CR, LF] m) (\<lambda>_ m.
     andthen (show_args argv m) (\<lambda>_ m.
     puts ([CR, LF, CR, LF] @ ''Displaying the time passed since reset'' @ [CR, LF, CR, LF]) m))"

text \<open>One round of the loop; its result is \<open>ebreak_counter\<close>. \<open>ebreak\<close> is what the trap of the
  instruction does.\<close>

definition irq_round :: "(machine \<Rightarrow> (machine, unit) outcome) \<Rightarrow> u32 \<Rightarrow> machine \<Rightarrow> (machine, u32) outcome" where
  "irq_round ebreak ebreak_counter m =
     andthen (gettimeofday m) (\<lambda>(status, sec, usec) m.
     andthen (if status = 0 then sp_put 40 (irq_line sec usec) m else Done () m) (\<lambda>_ m.
     let ebreak_counter = ebreak_counter + 1 in
     if ebreak_counter = 400 then andthen (ebreak m) (\<lambda>_ m. Done 0 m)
     else Done ebreak_counter m))"

fun irq_rounds :: "nat \<Rightarrow> (machine \<Rightarrow> (machine, unit) outcome) \<Rightarrow> u32 \<Rightarrow> machine \<Rightarrow> (machine, u32) outcome" where
  "irq_rounds 0 ebreak c m = Done c m"
| "irq_rounds (Suc n) ebreak c m = andthen (irq_round ebreak c m) (\<lambda>c m. irq_rounds n ebreak c m)"

definition direct_main :: "nat \<Rightarrow> (machine \<Rightarrow> (machine, unit) outcome) \<Rightarrow> u32 \<Rightarrow> string list
    \<Rightarrow> machine \<Rightarrow> (machine, u32) outcome" where
  "direct_main n ebreak handler argv m =
     andthen (irq_intro argv (direct_setup handler m)) (\<lambda>_ m. irq_rounds n ebreak 0 m)"

definition vectored_main :: "nat \<Rightarrow> (machine \<Rightarrow> (machine, unit) outcome) \<Rightarrow> u32 \<Rightarrow> string list
    \<Rightarrow> machine \<Rightarrow> (machine, u32) outcome" where
  "vectored_main n ebreak jump_table argv m =
     andthen (irq_intro argv (vectored_setup jump_table m)) (\<lambda>_ m. irq_rounds n ebreak 0 m)"

text \<open>The loop with interrupts: between two rounds the compare event of TIMER1 may be raised, and any
  interrupt that is pending and enabled may be served.\<close>

inductive irq_step :: "(machine \<Rightarrow> (machine, unit) outcome) \<Rightarrow> u64 \<Rightarrow> u32 \<times> machine \<Rightarrow> u32 \<times> machine \<Rightarrow> bool"
  for ebreak delta where
  Round: "irq_round ebreak c m = Done c' m' \<Longrightarrow> irq_step ebreak delta (c, m) (c', m')"
| Compare: "bit (t1ctrl m) 0 \<Longrightarrow> irq_step ebreak delta (c, m) (c, m\<lparr>t1stat := set_bit 4 (t1stat m)\<rparr>)"
| Timer: "irq_timer m \<Longrightarrow> bit (mstatus m) 3 \<Longrightarrow> bit (mie m) 7 \<Longrightarrow> external_timer_handler delta m = Some m'
    \<Longrightarrow> irq_step ebreak delta (c, m) (c, m')"
| Timer1: "irq_timer1 m \<Longrightarrow> bit (mstatus m) 3 \<Longrightarrow> irq_step ebreak delta (c, m) (c, timer1_cmpt_handler m)"
| Receive: "irq_usart m \<Longrightarrow> bit (mstatus m) 3 \<Longrightarrow> irq_step ebreak delta (c, m) (c, usart_handler m)"

inductive_cases irq_stepE: "irq_step ebreak delta (c, m) (c', m')"

section \<open>The lines fit\<close>

lemma sint_ucast_small: "unat (x :: u64) < 2 ^ 31 \<Longrightarrow> sint (ucast x :: u32) = int (unat x)"
proof -
  assume "unat x < 2 ^ 31"
  then have "int (unat x) < 2 ^ 31" by (simp only: of_nat_less_numeral_power_cancel_iff)
  then have x: "0 \<le> uint x" "uint x < 2 ^ 31" by simp_all
  have "uint (ucast x :: u32) = uint x"
    using x by (simp add: unsigned_ucast_eq take_bit_int_eq_self_iff)
  moreover have "- (2 ^ 31) \<le> (0 :: int)" by simp
  then have "- (2 ^ 31) \<le> uint x" using x(1) by (rule order_trans)
  then have "signed_take_bit 31 (uint x) = uint x"
    using x(2) by (rule signed_take_bit_int_eq_self)
  ultimately have "sint (ucast x :: u32) = uint x" by (simp add: sint_uint)
  then show ?thesis by simp
qed

lemma zpad_small:
  assumes "unat (x :: u64) < 10 ^ k" and "0 < k" and "k \<le> 9" and "w \<le> k"
  shows "length (zpad_int w (sint (ucast x :: u32))) \<le> k"
proof -
  have "(10 :: nat) ^ k \<le> 10 ^ 9" using assms(3) by (rule power_increasing) simp
  then have "unat x < 2 ^ 31" using assms(1) by simp
  then show ?thesis
    using assms length_zpad_digits [of "int (unat x)" k w] of_nat_less_iff [of "unat x" "10 ^ k", where 'a = int]
    by (simp add: sint_ucast_small)
qed

lemma zpad_word: "w \<le> 11 \<Longrightarrow> length (zpad_int w (sint (x :: u32))) \<le> 11"
  using sint_greater_eq [of x] sint_less [of x] by (intro length_zpad_32) simp_all

lemma int_str_word: "length (int_str (sint (x :: u32))) \<le> 11"
  using zpad_word [of 0 x] by (simp add: zpad_int_def int_str_def pad_def split: if_splits)

lemma time_parts:
  "unat ((t :: u64) mod 1000000) < 10 ^ 6" "unat (t div 60 mod 60) < 10 ^ 2" "unat (t mod 60) < 10 ^ 2"
proof -
  have "unat t mod 1000000 < 1000000" "unat t div 60 mod 60 < 60" "unat t mod 60 < 60"
    by simp_all
  then show "unat (t mod 1000000) < 10 ^ 6" "unat (t div 60 mod 60) < 10 ^ 2" "unat (t mod 60) < 10 ^ 2"
    by (simp_all add: unat_mod unat_div)
qed

definition irq_time :: "u64 \<Rightarrow> u8 list" where
  "irq_time t = irq_line (t div 1000000) (ucast (t mod 1000000))"

definition clock_time :: "u64 \<Rightarrow> u8 list" where
  "clock_time t = clock_line (t div 1000000) (ucast (t mod 1000000))"

lemma irq_time_fits: "0 \<notin> set (irq_time t)" "length (irq_time t) < 40"
proof -
  let ?s = "t div 1000000"
  show "0 \<notin> set (irq_time t)"
    by (simp add: irq_time_def irq_line_def zpad_int_nonzero Let_def)
  show "length (irq_time t) < 40"
    using zpad_word [of 5 "ucast ?s"] zpad_word [of 2 "ucast (?s div 3600)"]
      zpad_small [OF time_parts(1) [of t], of 6] zpad_small [OF time_parts(2) [of ?s], of 2]
      zpad_small [OF time_parts(3) [of ?s], of 2]
    by (simp add: irq_time_def irq_line_def Let_def)
qed

lemma clock_time_fits: "0 \<notin> set (clock_time t)" "length (clock_time t) < 100"
proof -
  let ?s = "t div 1000000"
  show "0 \<notin> set (clock_time t)"
    by (simp add: clock_time_def clock_line_def zpad_int_nonzero int_str_nonzero Let_def)
  show "length (clock_time t) < 100"
    using int_str_word [of "ucast ?s"] zpad_word [of 3 "ucast (?s div 3600)"]
      zpad_small [OF time_parts(1) [of t], of 6] zpad_small [OF time_parts(2) [of ?s], of 2]
      zpad_small [OF time_parts(3) [of ?s], of 2]
    by (simp add: clock_time_def clock_line_def Let_def)
qed

end
