(* ===== verification/ShowTimeProof.thy ===== *)
theory ShowTimeProof
  imports ShowTime Startup
begin

text \<open>
  The programs that show the time: every line fits its buffer and is a time the clock had, later
  than that of the line before; the EBREAK comes every 400 rounds; the loop goes on for ever, with
  any interrupts in between, and keeps the configuration of the interrupts as it was set up.
\<close>

section \<open>The breakpoint trap\<close>

locale breakpoint =
  fixes ebreak :: "machine \<Rightarrow> (machine, unit) outcome"
  assumes ebreak_returns: "\<exists>os n. ebreak m = Done () n \<and> os \<noteq> [] \<and> timed [] os m n"

lemma debug_bits_timed:
  "n < 32 \<Longrightarrow> \<exists>os k. debug_bits (2 ^ n) ip m = Done () k \<and> timed [] os m k"
proof (induction n arbitrary: m)
  case 0
  let ?c = "if bit ip 0 then 49 else 48 :: u32"
  obtain k where "usart_putc ?c m = Done () k" "timed [] [ucast ?c] m k"
    using usart_putc_timed by blast
  then show ?case using debug_bits_step [OF 0, of ip m] by (auto simp: debug_bits.simps [of 0])
next
  case (Suc n)
  have d: "drop_bit 1 (2 ^ Suc n) = (2 ^ n :: u32)"
    by (rule bit_word_eqI) (use Suc.prems in \<open>auto simp: bit_simps bit_exp_iff\<close>)
  let ?c = "if bit ip (Suc n) then 49 else 48 :: u32"
  obtain j where j: "usart_putc ?c m = Done () j" "timed [] [ucast ?c] m j"
    using usart_putc_timed by blast
  obtain os k where k: "debug_bits (2 ^ n) ip j = Done () k" "timed [] os j k"
    using Suc.IH Suc.prems by (meson Suc_lessD)
  have "debug_bits (2 ^ Suc n) ip m = Done () k"
    unfolding debug_bits_step [OF Suc.prems] d using j(1) k(1) by simp
  then show ?case using timed_says [OF j(2) k(2)] by blast
qed

lemma debugger_timed: "\<exists>os n. debugger m = Done () n \<and> os \<noteq> [] \<and> timed [] os m n"
proof -
  let ?s = "[CR, LF] @ ''EBREAK! mip = ''"
  obtain n where n: "puts ?s m = Done () n" "timed [] (bytes ?s) m n"
    using literal_timed [of ?s m] by auto
  obtain os k where k: "debug_bits (2 ^ 31) (mip n) n = Done () k" "timed [] os n k"
    using debug_bits_timed [of 31 "mip n" n] by auto
  obtain j where j: "puts [CR, LF] k = Done () j" "timed [] (bytes [CR, LF]) k j"
    using literal_timed [of "[CR, LF]" k] by auto
  have "debugger m = Done () j" using n(1) k(1) j(1) by (simp add: debugger_def)
  moreover have "bytes ?s @ os @ bytes [CR, LF] \<noteq> []" by simp
  ultimately show ?thesis using timed_says [OF n(2) timed_says [OF k(2) j(2)]] by blast
qed

interpretation debug: breakpoint debugger
  by unfold_locales (rule debugger_timed)

section \<open>One round\<close>

text \<open>The clock of a machine at a later tick.\<close>

definition clock_at :: "machine \<Rightarrow> nat \<Rightarrow> u64" where
  "clock_at m k = mtime m + of_nat (lapse m (ticks m) k)"

lemma clock_at_later: "later m n \<Longrightarrow> clock_at m (ticks n) = mtime n"
  by (simp add: later_def clock_at_def)

lemma clock_at_shift: "later m n \<Longrightarrow> ticks n \<le> k \<Longrightarrow> clock_at n k = clock_at m k"
  using lapse_add [of "ticks m" "ticks n" k m] lapse_cong [of n m]
  by (simp add: later_def clock_at_def)

lemma gettimeofday_sample:
  assumes "brisk m"
  shows "\<exists>a n. gettimeofday m = Done (0, mtime a div 1000000, ucast (mtime a mod 1000000)) n \<and> sample m (mtime a) a n"
  using read_time_sample [OF assms] by (auto simp: gettimeofday_def sample_def Let_def)

lemma brisk_later: "later m n \<Longrightarrow> brisk n = brisk m"
  by (simp add: later_def brisk_def)

lemma sp_put_timed:
  assumes "0 \<notin> set t" and "length t < n"
  shows "\<exists>k. sp_put n t m = Done () k \<and> timed [] t m k"
  using puts_timed [OF assms(1), of m] assms(2) by (simp add: sp_put_def)

text \<open>A reading of the clock at tick \<open>x\<close> and the text \<open>os\<close> printed after it.\<close>

definition shows_time :: "(u64 \<Rightarrow> u8 list) \<Rightarrow> u8 list \<Rightarrow> nat \<Rightarrow> machine \<Rightarrow> machine \<Rightarrow> bool" where
  "shows_time line os x m k \<longleftrightarrow> ticks m < x \<and> x < ticks k \<and> timed [] (line (clock_at m x) @ os) m k"

lemma sample_shows:
  assumes "sample m (mtime a) a n" and "timed [] (line (mtime a) @ os) n k"
  shows "shows_time line os (ticks a) m k"
proof -
  have l: "later m a" "ticks m < ticks a" "later n k" "ticks n = ticks a + 2"
    using assms by (auto simp: sample_def timed_def tick_clock)
  have "timed [] (line (clock_at m (ticks a)) @ os) m k"
    unfolding clock_at_later [OF l(1)] using timed_waits sample_after [OF assms(1)] assms(2) by blast
  then show ?thesis using l by (auto simp: shows_time_def later_def)
qed

context breakpoint begin

lemma irq_round_shows:
  assumes "brisk m"
  shows "\<exists>x os k. irq_round ebreak c m = Done (if c + 1 = 400 then 0 else c + 1) k
    \<and> shows_time irq_time os x m k \<and> (os \<noteq> [] \<longleftrightarrow> c + 1 = 400)"
proof -
  obtain a n where a: "gettimeofday m = Done (0, mtime a div 1000000, ucast (mtime a mod 1000000)) n"
    "sample m (mtime a) a n"
    using gettimeofday_sample [OF assms] by blast
  obtain j where j: "sp_put 40 (irq_time (mtime a)) n = Done () j" "timed [] (irq_time (mtime a)) n j"
    using sp_put_timed [OF irq_time_fits] by blast
  have head: "irq_round ebreak c m = (if c + 1 = 400 then andthen (ebreak j) (\<lambda>_ m. Done 0 m) else Done (c + 1) j)"
    using j(1) by (simp add: irq_round_def a(1) irq_time_def)
  show ?thesis
  proof (cases "c + 1 = 400")
    case True
    obtain os k where k: "ebreak j = Done () k" "os \<noteq> []" "timed [] os j k"
      using ebreak_returns by blast
    have "irq_round ebreak c m = Done (if c + 1 = 400 then 0 else c + 1) k"
      unfolding head using True k(1) by simp
    then show ?thesis using sample_shows [where line = irq_time, OF a(2) timed_says [OF j(2) k(3)]] True k(2) by blast
  next
    case False
    have "timed [] (irq_time (mtime a) @ []) n j" using j(2) by simp
    from sample_shows [where line = irq_time, OF a(2) this] show ?thesis unfolding head using False by fastforce
  qed
qed

end

lemma clock_round_shows:
  assumes "brisk m"
  shows "\<exists>x k. clock_round m = Done () k \<and> shows_time clock_time [] x m k"
proof -
  obtain a n where a: "gettimeofday m = Done (0, mtime a div 1000000, ucast (mtime a mod 1000000)) n"
    "sample m (mtime a) a n"
    using gettimeofday_sample [OF assms] by blast
  obtain j where j: "sn_put 100 (clock_time (mtime a)) n = Done () j" "timed [] (clock_time (mtime a)) n j"
    using sn_put_timed [OF clock_time_fits] by blast
  have "timed [] (clock_time (mtime a) @ []) n j" using j(2) by simp
  from sample_shows [where line = clock_time, OF a(2) this] show ?thesis
    using j(1) by (auto simp: clock_round_def a(1) clock_time_def)
qed

section \<open>Many rounds\<close>

definition shows_times :: "(u64 \<Rightarrow> u8 list) \<Rightarrow> (nat \<times> u8 list) list \<Rightarrow> machine \<Rightarrow> machine \<Rightarrow> bool" where
  "shows_times line xs m k \<longleftrightarrow> sorted_wrt (<) (map fst xs) \<and> (\<forall>x \<in> fst ` set xs. ticks m < x)
     \<and> timed [] (concat (map (\<lambda>(x, os). line (clock_at m x) @ os) xs)) m k"

lemma shows_times_Nil [simp]: "shows_times line [] m m"
  by (simp add: shows_times_def)

lemma shows_times_Cons:
  assumes "shows_time line os x m j" and "shows_times line xs j k"
  shows "shows_times line ((x, os) # xs) m k"
proof -
  have l: "later m j" using assms(1) by (simp add: shows_time_def timed_def)
  have t: "ticks j < y" if "(y, b) \<in> set xs" for y b
    using assms(2) that by (force simp: shows_times_def)
  have e: "map (\<lambda>(x, os). line (clock_at j x) @ os) xs = map (\<lambda>(x, os). line (clock_at m x) @ os) xs"
    using t clock_at_shift [OF l] by (auto simp: less_imp_le)
  have "timed [] (line (clock_at m x) @ os) m j"
    "timed [] (concat (map (\<lambda>(x, os). line (clock_at m x) @ os) xs)) j k"
    using assms by (simp_all add: shows_time_def shows_times_def e)
  note timed_says [OF this]
  moreover have "\<forall>y \<in> fst ` set xs. ticks m < y \<and> x < y" "ticks m < x" "sorted_wrt (<) (map fst xs)"
    using assms t by (fastforce simp: shows_time_def shows_times_def)+
  ultimately show ?thesis by (simp add: shows_times_def)
qed

text \<open>The text of the trap is there in every 400th round, counted from \<open>c\<close>.\<close>

fun breaks_at :: "u32 \<Rightarrow> u8 list list \<Rightarrow> bool" where
  "breaks_at c [] \<longleftrightarrow> True"
| "breaks_at c (b # bs) \<longleftrightarrow> (b \<noteq> [] \<longleftrightarrow> c + 1 = 400) \<and> breaks_at (if c + 1 = 400 then 0 else c + 1) bs"

lemma counter_step:
  assumes "c < 400"
  defines "d \<equiv> if c + 1 = 400 then 0 else c + 1 :: u32"
  shows "d < 400" and "of_nat ((unat d + n) mod 400) = (of_nat ((unat c + Suc n) mod 400) :: u32)"
proof -
  have c: "unat c < 400" using assms(1) by (simp add: word_less_nat_alt)
  then have u: "unat (c + 1) = Suc (unat c)" by (simp add: unat_word_ariths)
  have e: "c + 1 = 400 \<longleftrightarrow> Suc (unat c) = 400" using u by (simp add: word_unat_eq_iff)
  have d: "unat d = Suc (unat c) mod 400" using c u e by (auto simp: d_def)
  then show "d < 400" by (simp add: word_less_nat_alt)
  show "of_nat ((unat d + n) mod 400) = (of_nat ((unat c + Suc n) mod 400) :: u32)"
    by (simp add: d mod_simps)
qed

context breakpoint begin

lemma irq_rounds_show:
  assumes "brisk m" and "c < 400"
  shows "\<exists>xs k. irq_rounds n ebreak c m = Done (of_nat ((unat c + n) mod 400)) k \<and> length xs = n
    \<and> shows_times irq_time xs m k \<and> breaks_at c (map snd xs)"
  using assms
proof (induction n arbitrary: m c)
  case 0
  then show ?case by (simp add: word_less_nat_alt)
next
  case (Suc n)
  let ?d = "if c + 1 = 400 then 0 else c + 1"
  obtain x os j where j: "irq_round ebreak c m = Done ?d j" "shows_time irq_time os x m j" "os \<noteq> [] \<longleftrightarrow> c + 1 = 400"
    using irq_round_shows [OF Suc.prems(1)] by blast
  have "brisk j" using j(2) brisk_later Suc.prems(1) by (auto simp: shows_time_def timed_def)
  then obtain xs k where k: "irq_rounds n ebreak ?d j = Done (of_nat ((unat ?d + n) mod 400)) k" "length xs = n"
    "shows_times irq_time xs j k" "breaks_at ?d (map snd xs)"
    using Suc.IH [of j ?d] counter_step(1) [OF Suc.prems(2)] by blast
  have "irq_rounds (Suc n) ebreak c m = Done (of_nat ((unat c + Suc n) mod 400)) k"
    using j(1) k(1) counter_step(2) [OF Suc.prems(2)] by simp
  then show ?case
    using shows_times_Cons [OF j(2) k(3)] k(2,4) j(3) by (intro exI [of _ "(x, os) # xs"] exI [of _ k]) simp
qed

end

lemma clock_rounds_show:
  assumes "brisk m"
  shows "\<exists>xs k. rounds n clock_round m = Done () k \<and> length xs = n
    \<and> shows_times clock_time xs m k \<and> (\<forall>b \<in> snd ` set xs. b = [])"
  using assms
proof (induction n arbitrary: m)
  case 0
  then show ?case by simp
next
  case (Suc n)
  obtain x j where j: "clock_round m = Done () j" "shows_time clock_time [] x m j"
    using clock_round_shows [OF Suc.prems(1)] by blast
  have "brisk j" using j(2) brisk_later Suc.prems(1) by (auto simp: shows_time_def timed_def)
  then obtain xs k where k: "rounds n clock_round j = Done () k" "length xs = n"
    "shows_times clock_time xs j k" "\<forall>b \<in> snd ` set xs. b = []"
    using Suc.IH by blast
  then show ?case
    using shows_times_Cons [OF j(2) k(3)] j(1) by (intro exI [of _ "(x, []) # xs"] exI [of _ k]) simp
qed

section \<open>The interrupt programs\<close>

definition irq_head :: "string list \<Rightarrow> u8 list" where
  "irq_head argv = bytes [CR, LF] @ concat (map (\<lambda>a. bytes a @ bytes [CR, LF]) argv)
     @ bytes ([CR, LF, CR, LF] @ ''Displaying the time passed since reset'' @ [CR, LF, CR, LF])"

lemma show_args_timed:
  "\<forall>a \<in> set argv. 0 \<notin> set (bytes a) \<Longrightarrow>
   \<exists>k. show_args argv m = Done () k \<and> timed [] (concat (map (\<lambda>a. bytes a @ bytes [CR, LF]) argv)) m k"
proof (induction argv arbitrary: m)
  case Nil
  then show ?case by simp
next
  case (Cons a argv)
  obtain i where i: "puts a m = Done () i" "timed [] (bytes a) m i"
    using literal_timed [of a m] Cons.prems by auto
  obtain j where j: "puts [CR, LF] i = Done () j" "timed [] (bytes [CR, LF]) i j"
    using literal_timed [of "[CR, LF]" i] by auto
  obtain k where k: "show_args argv j = Done () k" "timed [] (concat (map (\<lambda>a. bytes a @ bytes [CR, LF]) argv)) j k"
    using Cons.IH [of j] Cons.prems by auto
  have "show_args (a # argv) m = Done () k"
    by (simp only: show_args.simps i(1) j(1) k(1) andthen.simps)
  then show ?case using timed_says [OF i(2) timed_says [OF j(2) k(2)]] by (auto simp: append.assoc)
qed

lemma irq_intro_timed:
  assumes "\<forall>a \<in> set argv. 0 \<notin> set (bytes a)"
  shows "\<exists>k. irq_intro argv m = Done () k \<and> timed [] (irq_head argv) m k"
proof -
  let ?s = "[CR, LF, CR, LF] @ ''Displaying the time passed since reset'' @ [CR, LF, CR, LF]"
  obtain i where i: "puts [CR, LF] m = Done () i" "timed [] (bytes [CR, LF]) m i"
    using literal_timed [of "[CR, LF]" m] by auto
  obtain j where j: "show_args argv i = Done () j" "timed [] (concat (map (\<lambda>a. bytes a @ bytes [CR, LF]) argv)) i j"
    using show_args_timed [OF assms] by blast
  obtain k where k: "puts ?s j = Done () k" "timed [] (bytes ?s) j k"
    using literal_timed [of ?s j] by auto
  have "irq_intro argv m = Done () k"
    by (simp only: irq_intro_def i(1) j(1) k(1) andthen.simps)
  then show ?thesis
    using timed_says [OF i(2) timed_says [OF j(2) k(2)]] unfolding irq_head_def by blast
qed

lemma setup_keeps:
  "brisk (direct_setup v m) = brisk m" "brisk (vectored_setup v m) = brisk m"
  "line_out (direct_setup v m) = line_out m" "line_out (vectored_setup v m) = line_out m"
  "mem (direct_setup v m) = mem m" "mem (vectored_setup v m) = mem m"
  by (simp_all add: direct_setup_def vectored_setup_def set_mtvec_def irq_usart_init_def enable_irq_def
      enable_external_timer_irq_def brisk_def Let_def)

text \<open>What the set-up of each program has to say about the registers.\<close>

definition irq_configured :: "u32 \<Rightarrow> u32 \<Rightarrow> machine \<Rightarrow> bool" where
  "irq_configured vector period m \<longleftrightarrow> mtvec m = vector \<and> t1cmpt m = period \<and> t1ctrl m = 0x11
     \<and> ubaud m = 5207 \<and> uctrl m = 0x40 \<and> bit (mstatus m) 3 \<and> bit (mie m) 7"

lemma setup_configures:
  "irq_configured v 24999999 (direct_setup v m)" "irq_configured (v OR 1) 499999 (vectored_setup v m)"
  by (simp_all add: irq_configured_def direct_setup_def vectored_setup_def set_mtvec_def irq_usart_init_def
      enable_irq_def enable_external_timer_irq_def F_CPU_def BAUD_RATE_def TRAP_DIRECT_MODE_def
      TRAP_VECTORED_MODE_def Let_def bit_simps)

context breakpoint begin

lemma irq_main_shows:
  assumes "brisk s" and "\<forall>a \<in> set argv. 0 \<notin> set (bytes a)"
  shows "\<exists>j xs k. andthen (irq_intro argv s) (\<lambda>_ m. irq_rounds n ebreak 0 m) = Done (of_nat (n mod 400)) k
    \<and> timed [] (irq_head argv) s j \<and> shows_times irq_time xs j k \<and> length xs = n \<and> breaks_at 0 (map snd xs)"
proof -
  obtain j where j: "irq_intro argv s = Done () j" "timed [] (irq_head argv) s j"
    using irq_intro_timed [OF assms(2)] by blast
  have "brisk j" using j(2) brisk_later assms(1) by (auto simp: timed_def)
  then obtain xs k where "irq_rounds n ebreak 0 j = Done (of_nat (n mod 400)) k" "length xs = n"
    "shows_times irq_time xs j k" "breaks_at 0 (map snd xs)"
    using irq_rounds_show [of j 0 n] by (auto simp: word_less_nat_alt)
  then show ?thesis using j by auto
qed

end

text \<open>C36: The main programs of both interrupt variants set up vector, timers and USART with the
  values of the code (TIMER1 with a period of 25 000 000 clock cycles in the direct, 500 000
  in the vectored variant) and print, in n rounds, n times the clock had, in ascending
  order, each in the 40-byte buffer, with the breakpoint taken in every 400th round only.\<close>

theorem irq_programs_show_time:
  assumes "breakpoint ebreak" and "brisk m" and "\<forall>a \<in> set argv. 0 \<notin> set (bytes a)"
    and "(main, s, p, w) \<in> {(direct_main, direct_setup v m, 24999999, v), (vectored_main, vectored_setup v m, 499999, v OR 1)}"
  shows "\<exists>j xs k. main n ebreak v argv m = Done (of_nat (n mod 400)) k \<and> length xs = n
    \<and> irq_configured w p s \<and> timed [] (irq_head argv) s j \<and> shows_times irq_time xs j k \<and> breaks_at 0 (map snd xs)"
proof -
  have s: "brisk s" "irq_configured w p s"
    "main n ebreak v argv m = andthen (irq_intro argv s) (\<lambda>_ m. irq_rounds n ebreak 0 m)"
    using assms(2,4) setup_configures [of v m] by (auto simp: setup_keeps direct_main_def vectored_main_def)
  show ?thesis unfolding s(3) using s(2) breakpoint.irq_main_shows [OF assms(1) s(1) assms(3)] by blast
qed

theorem irq_programs_show_time_witness:
  "\<exists>j xs k. direct_main 1000 debugger 0x1000 irq_argv (power_on []) = Done (of_nat (1000 mod 400)) k \<and> length xs = 1000
    \<and> irq_configured 0x1000 24999999 (direct_setup 0x1000 (power_on []))
    \<and> timed [] (irq_head irq_argv) (direct_setup 0x1000 (power_on [])) j
    \<and> shows_times irq_time xs j k \<and> breaks_at 0 (map snd xs)"
  by (rule irq_programs_show_time [OF debug.breakpoint_axioms, where v = "0x1000" and s = "direct_setup 0x1000 (power_on [])"])
    (auto simp: brisk_def power_on_def irq_argv_def)

section \<open>The loop with interrupts\<close>

text \<open>What no step may change: everything but the serial line, the clock, the compare register,
  the event flag of TIMER1 and the three leds of the handlers.\<close>

definition fixed :: "machine \<Rightarrow> machine" where
  "fixed m = (core m)\<lparr>pouta := pouta m AND 0xfffffff8, mtimecmp := 0, t1stat := 0\<rparr>"

lemma led_masks:
  "(x XOR 1) AND 0xfffffff8 = x AND (0xfffffff8 :: u32)" "(x XOR 2) AND 0xfffffff8 = x AND (0xfffffff8 :: u32)"
  "(x XOR 4) AND 0xfffffff8 = x AND (0xfffffff8 :: u32)"
  by (simp_all add: xor.commute bit.conj_xor_distrib bit.conj_xor_distrib2)

lemma fixed_core: "core n = core m \<Longrightarrow> fixed n = fixed m"
  using core_fields [of n m] by (simp add: fixed_def)

lemma fixed_elapse: "fixed n = fixed m \<Longrightarrow> brisk n = brisk m"
proof -
  assume "fixed n = fixed m"
  then have "elapse (fixed n) = elapse (fixed m)" by simp
  then show ?thesis by (simp add: fixed_def brisk_def)
qed

lemma handlers_keep:
  "fixed (timer1_cmpt_handler m) = fixed m"
  "fixed (m\<lparr>t1stat := v\<rparr>) = fixed m"
proof -
  have "pouta (timer1_cmpt_handler m) = pouta m XOR 1"
    using arg_cong [OF timer1_handler_clears(1) [of m], of pouta] by simp
  then show "fixed (timer1_cmpt_handler m) = fixed m"
    by (simp add: fixed_def timer1_handler_clears(1) led_masks)
  show "fixed (m\<lparr>t1stat := v\<rparr>) = fixed m" by (simp add: fixed_def)
qed

lemma usart_handler_keeps: "fixed (usart_handler m) = fixed m"
proof -
  have "core (usart_handler m) = (core m)\<lparr>pouta := pouta m XOR 4\<rparr> \<or> core (usart_handler m) = core m"
    using usart_handler_effect [of m] by (auto split: if_splits)
  then show ?thesis
  proof
    assume c: "core (usart_handler m) = (core m)\<lparr>pouta := pouta m XOR 4\<rparr>"
    have "pouta (usart_handler m) = pouta m XOR 4" using arg_cong [OF c, of pouta] by simp
    then show ?thesis by (simp add: fixed_def c led_masks)
  qed (rule fixed_core)
qed

lemma timer_handler_keeps:
  assumes "brisk m" and "external_timer_handler delta m = Some m'"
  shows "fixed m' = fixed m"
proof -
  obtain t where c: "core m' = (core m)\<lparr>mtimecmp := t, pouta := pouta m XOR 2\<rparr>"
    using timer_handler_effect [OF assms(1), of delta] assms(2) by auto
  have "pouta m' = pouta m XOR 2" using arg_cong [OF c, of pouta] by simp
  then show ?thesis by (simp add: fixed_def c led_masks)
qed

context breakpoint begin

lemma irq_step_keeps:
  assumes "irq_step ebreak delta (c, m) (c', m')" and "brisk m" and "c < 400"
  shows "c' < 400 \<and> fixed m' = fixed m"
proof -
  have round: "c' < 400 \<and> fixed m' = fixed m" if r: "irq_round ebreak c m = Done c' m'"
  proof -
    obtain x os k where k: "irq_round ebreak c m = Done (if c + 1 = 400 then 0 else c + 1) k" "shows_time irq_time os x m k"
      using irq_round_shows [OF assms(2)] by blast
    have "serial [] (irq_time (clock_at m x) @ os) m k" using k(2) by (simp add: shows_time_def timed_def)
    then have "fixed k = fixed m" using serial_core fixed_core by blast
    moreover have "c' = (if c + 1 = 400 then 0 else c + 1)" "m' = k" using k(1) r by simp_all
    ultimately show ?thesis using counter_step(1) [OF assms(3)] by simp
  qed
  from assms(1) show ?thesis
    by (rule irq_stepE) (use assms(2,3) round handlers_keep usart_handler_keeps timer_handler_keeps in auto)
qed

lemma irq_reachable:
  assumes "(irq_step ebreak delta)\<^sup>*\<^sup>* s t" and "brisk (snd s)" and "fst s < 400"
  shows "fst t < 400 \<and> fixed (snd t) = fixed (snd s)"
  using assms
proof (induction rule: rtranclp_induct)
  case base
  then show ?case by simp
next
  case (step t u)
  then have "brisk (snd t)" using fixed_elapse by blast
  then show ?case
    using irq_step_keeps [of delta "fst t" "snd t" "fst u" "snd u"] step by simp
qed

end

text \<open>C37: With timer, TIMER1 and USART interrupts served between the rounds in any order, the
  loop of the interrupt programs keeps its counter below 400, changes neither memory nor the
  configuration nor any led but the three of the handlers, and never gets stuck.\<close>

theorem irq_loop_invariant:
  assumes "breakpoint ebreak" and "brisk m" and "(irq_step ebreak delta)\<^sup>*\<^sup>* (0, m) (c, n)"
  shows "c < 400 \<and> fixed n = fixed m
    \<and> (\<exists>c' n'. irq_round ebreak c n = Done c' n' \<and> irq_step ebreak delta (c, n) (c', n'))"
proof -
  have i: "c < 400" "fixed n = fixed m"
    using breakpoint.irq_reachable [OF assms(1,3)] assms(2) by (auto simp: word_less_nat_alt)
  have "brisk n" using fixed_elapse [OF i(2)] assms(2) by simp
  then obtain c' n' where "irq_round ebreak c n = Done c' n'"
    using breakpoint.irq_round_shows [OF assms(1)] by blast
  then show ?thesis using i irq_step.Round by blast
qed

theorem irq_loop_invariant_witness:
  "(0 :: u32) < 400 \<and> fixed (timer1_cmpt_handler ((direct_setup 0x1000 (power_on []))\<lparr>t1stat := 16\<rparr>)) = fixed (direct_setup 0x1000 (power_on []))"
proof -
  let ?m = "direct_setup 0x1000 (power_on [])"
  have c: "irq_configured 0x1000 24999999 ?m" by (rule setup_configures)
  have "t1stat ?m = 0"
    by (simp add: direct_setup_def set_mtvec_def irq_usart_init_def enable_irq_def enable_external_timer_irq_def
        power_on_def Let_def)
  then have t: "?m\<lparr>t1stat := set_bit 4 (t1stat ?m)\<rparr> = ?m\<lparr>t1stat := 16\<rparr>"
    by (simp add: set_bit_eq_or)
  have "irq_step debugger 1000 (0, ?m) (0, ?m\<lparr>t1stat := 16\<rparr>)"
    using irq_step.Compare [of ?m debugger 1000 0] c t by (simp add: irq_configured_def bit_simps)
  moreover have "irq_step debugger 1000 (0, ?m\<lparr>t1stat := 16\<rparr>) (0, timer1_cmpt_handler (?m\<lparr>t1stat := 16\<rparr>))"
    by (rule irq_step.Timer1) (use c in \<open>simp_all add: irq_configured_def irq_timer1_def bit_simps\<close>)
  ultimately have r: "(irq_step debugger 1000)\<^sup>*\<^sup>* (0, ?m) (0, timer1_cmpt_handler (?m\<lparr>t1stat := 16\<rparr>))"
    by (meson converse_rtranclp_into_rtranclp rtranclp.rtrancl_refl)
  have "brisk ?m" by (simp add: setup_keeps) (simp add: brisk_def power_on_def)
  from irq_loop_invariant [OF debug.breakpoint_axioms this r] show ?thesis by blast
qed

section \<open>The clock program\<close>

lemma clock_shows_time:
  assumes "brisk m"
  shows "\<exists>j xs k. clock_main n m = Done () k \<and> length xs = n
    \<and> timed [] (bytes ([CR, LF, CR, LF] @ ''Time since last reset:'' @ [CR, LF])) (usart_init m) j
    \<and> shows_times clock_time xs j k \<and> (\<forall>b \<in> snd ` set xs. b = [])"
proof -
  let ?s = "[CR, LF, CR, LF] @ ''Time since last reset:'' @ [CR, LF]"
  obtain j where j: "puts ?s (usart_init m) = Done () j" "timed [] (bytes ?s) (usart_init m) j"
    using literal_timed [of ?s "usart_init m"] by auto
  have "later m (usart_init m)" by (simp add: usart_init_def later_same_clock)
  then have "brisk j" using j(2) brisk_later assms by (auto simp: timed_def)
  then obtain xs k where k: "rounds n clock_round j = Done () k" "length xs = n"
    "shows_times clock_time xs j k" "\<forall>b \<in> snd ` set xs. b = []"
    using clock_rounds_show by blast
  have "clock_main n m = Done () k" by (simp only: clock_main_def j(1) k(1) andthen.simps)
  then show ?thesis using j(2) k(2-4) by blast
qed

end
