(* ===== verification/IrqSystem.thy ===== *)
theory IrqSystem
  imports ShowTimeProof Startup
begin

text \<open>
  The interrupt programs on the processor: the loop of \<open>main\<close> (\<open>interrupt_direct/main.c\<close>,
  \<open>interrupt_vectored/main.c\<close>) reads the time by a system call and takes its breakpoint through the
  trap handler, and between two rounds the handler serves any interrupt that is raised. The steps of
  this system are those of \<open>irq_step\<close> on the devices, whatever the handler and the C library do to
  the stack below and to the time structure. The two locales are what the handler and the
  library function promise to the loop.
\<close>

section \<open>The loop on the processor\<close>

text \<open>A trap: the processor sets the cause and enters the handler.\<close>

definition take_trap :: "(cpu \<Rightarrow> (cpu, unit) outcome) \<Rightarrow> u32 \<Rightarrow> cpu \<Rightarrow> (cpu, unit) outcome" where
  "take_trap trap cause c = trap (c\<lparr>dev := (dev c)\<lparr>mcause := cause\<rparr>\<rparr>)"

text \<open>One round. \<open>gtod tp\<close> is the library function \<open>gettimeofday\<close> with the structure at \<open>tp\<close>, and
  \<open>get_tv\<close> reads the structure.\<close>

definition cpu_round :: "(cpu \<Rightarrow> (cpu, unit) outcome) \<Rightarrow> (u32 \<Rightarrow> cpu \<Rightarrow> (cpu, u32) outcome)
    \<Rightarrow> ((u32 \<Rightarrow> u8) \<Rightarrow> u32 \<Rightarrow> u64 \<times> u32) \<Rightarrow> u32 \<Rightarrow> u32 \<Rightarrow> cpu \<Rightarrow> (cpu, u32) outcome" where
  "cpu_round trap gtod get_tv tp ebreak_counter c =
     andthen (gtod tp c) (\<lambda>status c.
     let tv_sec = fst (get_tv (mem (dev c)) tp); tv_usec = snd (get_tv (mem (dev c)) tp) in
     andthen (if status = 0 then on_dev (sp_put 40 (irq_line tv_sec tv_usec)) c else Done () c) (\<lambda>_ c.
     let ebreak_counter = ebreak_counter + 1 in
     if ebreak_counter = 400 then andthen (take_trap trap EBREAK_IN_MCAUSE c) (\<lambda>_ c. Done 0 c)
     else Done ebreak_counter c))"

text \<open>An interrupt the processor takes: requested, and enabled in \<open>mstatus\<close> and, for the timer, \<open>mie\<close>.\<close>

definition raised :: "u32 \<Rightarrow> machine \<Rightarrow> bool" where
  "raised cause m \<longleftrightarrow> bit (mstatus m) 3 \<and>
     (cause = SYSTEM_TIMER_IN_MCAUSE \<and> irq_timer m \<and> bit (mie m) 7
      \<or> cause = TIMER1_CMPT_IN_MCAUSE \<and> irq_timer1 m
      \<or> cause = USART_IN_MCAUSE \<and> irq_usart m)"

inductive cpu_step :: "((nat \<Rightarrow> u32) \<Rightarrow> cpu \<Rightarrow> (cpu, unit) outcome) \<Rightarrow> (u32 \<Rightarrow> cpu \<Rightarrow> (cpu, u32) outcome)
    \<Rightarrow> ((u32 \<Rightarrow> u8) \<Rightarrow> u32 \<Rightarrow> u64 \<times> u32) \<Rightarrow> u32 \<Rightarrow> u32 \<times> cpu \<Rightarrow> u32 \<times> cpu \<Rightarrow> bool"
  for trap gtod get_tv tp where
  Round: "cpu_round (trap junk) gtod get_tv tp k c = Done k' c' \<Longrightarrow> cpu_step trap gtod get_tv tp (k, c) (k', c')"
| Compare: "bit (t1ctrl (dev c)) 0
    \<Longrightarrow> cpu_step trap gtod get_tv tp (k, c) (k, c\<lparr>dev := (dev c)\<lparr>t1stat := set_bit 4 (t1stat (dev c))\<rparr>\<rparr>)"
| Interrupt: "raised cause (dev c) \<Longrightarrow> take_trap (trap junk) cause c = Done () c'
    \<Longrightarrow> cpu_step trap gtod get_tv tp (k, c) (k, c')"

inductive_cases cpu_stepE: "cpu_step trap gtod get_tv tp (k, c) (k', c')"

section \<open>The library function\<close>

text \<open>The registers a function hands back as it got them, by the RISC-V calling convention: \<open>x0\<close>, the
  stack, global and thread pointers and the saved registers \<open>s0\<close> to \<open>s11\<close>. A trap keeps all of
  them, a call these.\<close>

definition callee_saved :: "nat list" where
  "callee_saved = [0, 2, 3, 4, 8, 9] @ [18..<28]"

definition keeps_regs :: "cpu \<Rightarrow> cpu \<Rightarrow> bool" where
  "keeps_regs c e \<longleftrightarrow> list_all (\<lambda>r. gpr e r = gpr c r) callee_saved"

lemma keeps_regs_all: "\<forall>r < 32. gpr e r = gpr c r \<Longrightarrow> keeps_regs c e"
  by (simp add: keeps_regs_def callee_saved_def list_all_iff)

lemma keeps_regs_sp: "keeps_regs c e \<Longrightarrow> gpr e 2 = gpr c 2"
  by (simp add: keeps_regs_def callee_saved_def)

lemma keeps_regs_trans: "keeps_regs c d \<Longrightarrow> keeps_regs d e \<Longrightarrow> keeps_regs c e"
  by (simp add: keeps_regs_def list_all_iff)

text \<open>\<open>gettimeofday\<close> of the C library, code outside this repository, is a parameter \<open>gtod\<close>. What the
  programs rely on is the convention of a system call: the function executes ECALL with the number in
  \<open>a7\<close> and the address of the structure in \<open>a0\<close>, on its caller's devices and stack, writing no memory of its own; when \<open>a0\<close> then
  holds 0 it returns 0, and it follows the calling convention.\<close>

definition call_ready :: "sysenv \<Rightarrow> u32 \<Rightarrow> cpu \<Rightarrow> cpu \<Rightarrow> bool" where
  "call_ready E tp c e \<longleftrightarrow> gpr e 17 = nr E SYS_gettimeofday \<and> gpr e 10 = tp \<and> keeps_regs c e
     \<and> dev e = dev c \<and> errno_var e = errno_var c"

definition ecall_stub :: "sysenv \<Rightarrow> (cpu \<Rightarrow> (cpu, unit) outcome) \<Rightarrow> (u32 \<Rightarrow> cpu \<Rightarrow> (cpu, u32) outcome) \<Rightarrow> bool" where
  "ecall_stub E trap gtod \<longleftrightarrow> (\<forall>tp c. \<exists>e. call_ready E tp c e
     \<and> (\<forall>d. take_trap trap ECALL_IN_MCAUSE e = Done () d \<and> gpr d 10 = 0
          \<longrightarrow> (\<exists>d'. gtod tp c = Done 0 d' \<and> keeps_regs d d' \<and> dev d' = dev d \<and> errno_var d' = errno_var d)))"

text \<open>The shortest function of this kind, for concrete runs: two registers are set and ECALL is executed.\<close>

definition plain_stub :: "sysenv \<Rightarrow> (cpu \<Rightarrow> (cpu, unit) outcome) \<Rightarrow> u32 \<Rightarrow> cpu \<Rightarrow> (cpu, u32) outcome" where
  "plain_stub E trap tp c =
     andthen (take_trap trap ECALL_IN_MCAUSE (set_reg 10 tp (set_reg 17 (nr E SYS_gettimeofday) c)))
       (\<lambda>_ d. Done (gpr d 10) d)"

lemma plain_stub_calls: "ecall_stub E trap (plain_stub E trap)"
proof -
  have "call_ready E tp c (set_reg 10 tp (set_reg 17 (nr E SYS_gettimeofday) c))" for tp c
    by (simp add: call_ready_def keeps_regs_def callee_saved_def list_all_iff set_reg_def)
  then show ?thesis
    unfolding ecall_stub_def
    by (intro allI, intro exI conjI allI impI, assumption)
      (auto simp: plain_stub_def keeps_regs_def list_all_iff)
qed

section \<open>The interfaces\<close>

text \<open>Memory the loop does not own: the frame of the handler and the time structure.\<close>

definition in_tv :: "u32 \<Rightarrow> u32 \<Rightarrow> bool" where
  "in_tv tp x \<longleftrightarrow> list_ex (\<lambda>k. x = tp + of_nat k) [0..<16]"

definition apart :: "u32 \<Rightarrow> u32 \<Rightarrow> bool" where
  "apart b tp \<longleftrightarrow> list_all (\<lambda>k. \<not> in_frame b (tp + of_nat k)) [0..<16]"

lemma apartD: "apart b tp \<Longrightarrow> in_tv tp x \<Longrightarrow> \<not> in_frame b x"
  by (auto simp: apart_def in_tv_def list_all_iff list_ex_iff)

lemma apart_above:
  assumes "128 \<le> unat (tp - b)" and "unat (tp - b) + 16 \<le> 2 ^ 32"
  shows "apart b tp"
proof -
  have "tp + of_nat k \<noteq> b + of_nat j" if k: "k < 16" and j: "j < 128" for k j :: nat
  proof
    assume "tp + of_nat k = b + of_nat j"
    then have e: "(tp - b) + of_nat k = of_nat j" by (simp add: algebra_simps)
    have "unat ((tp - b) + of_nat k) = unat (tp - b) + k"
      using k assms(2) by (simp add: unat_word_ariths unat_of_nat)
    moreover have "unat (of_nat j :: u32) = j" using j by (simp add: unat_of_nat)
    ultimately show False using e assms(1) j by simp
  qed
  then show ?thesis by (auto simp: apart_def in_frame_def list_all_iff list_ex_iff)
qed

text \<open>The layout of \<open>struct timeval\<close> that the environment has.\<close>

definition timeval_ok :: "sysenv \<Rightarrow> ((u32 \<Rightarrow> u8) \<Rightarrow> u32 \<Rightarrow> u64 \<times> u32) \<Rightarrow> bool" where
  "timeval_ok E get_tv \<longleftrightarrow> inj (nr E) \<and> (\<forall>tp s u f. get_tv (put_timeval E tp s u f) tp = (s, u))
     \<and> (\<forall>tp s u f x. \<not> in_tv tp x \<longrightarrow> put_timeval E tp s u f x = f x)"

text \<open>The handler: interrupts and breakpoints are served on the devices, and nothing else changes.\<close>

locale trap_handler =
  fixes trap :: "(nat \<Rightarrow> u32) \<Rightarrow> cpu \<Rightarrow> (cpu, unit) outcome" and delta :: u64
  assumes trap_serves: "frame_ok (frame_of c)
    \<Longrightarrow> mcause (dev c) \<in> set (EBREAK_IN_MCAUSE # interrupts)
    \<Longrightarrow> serve delta (mcause (dev c)) (dev c) = Done () n
    \<Longrightarrow> \<exists>e. trap junk c = Done () e \<and> served c n e"

text \<open>The library function: the clock is read, and the structure holds its value.\<close>

locale clock_call =
  fixes gtod :: "u32 \<Rightarrow> cpu \<Rightarrow> (cpu, u32) outcome" and get_tv :: "(u32 \<Rightarrow> u8) \<Rightarrow> u32 \<Rightarrow> u64 \<times> u32"
  assumes gtod_reads: "frame_ok (frame_of c) \<Longrightarrow> apart (frame_of c) tp
    \<Longrightarrow> gettimeofday (dev c) = Done (status, sec, usec) n
    \<Longrightarrow> \<exists>e f x. gtod tp c = Done status e \<and> keeps_regs c e \<and> errno_var e = errno_var c
      \<and> dev e = remap f x n \<and> get_tv f tp = (sec, usec)
      \<and> (\<forall>a. \<not> in_frame (frame_of c) a \<and> \<not> in_tv tp a \<longrightarrow> f a = mem n a)"

locale irq_system = trap_handler trap delta + clock_call gtod get_tv for trap delta gtod get_tv

section \<open>The two handlers keep the contract\<close>

interpretation direct: trap_handler "universal_handler E delta" delta for E delta
proof unfold_locales
  show "\<exists>e. universal_handler E delta junk c = Done () e \<and> served c n e"
    if "frame_ok (frame_of c)" "mcause (dev c) \<in> set (EBREAK_IN_MCAUSE # interrupts)"
      "serve delta (mcause (dev c)) (dev c) = Done () n" for c n junk
    using that universal_handler_serves interrupts_no_ecall causes_differ(7) by auto
qed

lemma ebreak_sync: "\<not> bit EBREAK_IN_MCAUSE 31" "\<not> bit ECALL_IN_MCAUSE 31"
  by (simp_all add: EBREAK_IN_MCAUSE_def ECALL_IN_MCAUSE_def bit_simps)

interpretation vectored: trap_handler "vectored_trap E delta" delta for E delta
proof unfold_locales
  fix c n junk
  assume f: "frame_ok (frame_of c)" and k: "mcause (dev c) \<in> set (EBREAK_IN_MCAUSE # interrupts)"
    and s: "serve delta (mcause (dev c)) (dev c) = Done () n"
  show "\<exists>e. vectored_trap E delta junk c = Done () e \<and> served c n e"
  proof (cases "mcause (dev c) \<in> set interrupts")
    case True
    have "served c n (c\<lparr>dev := n\<rparr>)" by (auto simp: served_def intro!: exI [of _ "mem n"])
    then show ?thesis using vectored_interrupt [OF True s] by blast
  next
    case False
    then have "mcause (dev c) = EBREAK_IN_MCAUSE" using k by simp
    then show ?thesis
      using vectored_exceptions [OF f, of E delta junk] direct.trap_serves [OF f k s] ebreak_sync by simp
  qed
qed

text \<open>The system call behind the library function.\<close>

lemma gettimeofday_call:
  assumes f: "frame_ok (frame_of c)" and x: "mcause (dev c) = ECALL_IN_MCAUSE" and a7: "gpr c 17 = nr E SYS_gettimeofday"
    and tv: "timeval_ok E get_tv" and ap: "apart (frame_of c) (gpr c 10)"
    and g: "gettimeofday (dev c) = Done (status, sec, usec) n"
  shows "\<exists>e. universal_handler E delta junk c = Done () e \<and> returns c status e \<and> errno_var e = errno_var c
    \<and> dev e = remap (put_timeval E (gpr c 10) sec usec (mem (dev (saved c)))) ECALL_IN_MCAUSE n"
proof -
  let ?s = "saved c" and ?f = "mem (dev (saved c))"
  let ?n = "remap (put_timeval E (gpr c 10) sec usec ?f) ECALL_IN_MCAUSE n"
  obtain hi lo where r: "read_time (dev c) = Some (hi, lo, n)"
    and v: "status = 0" "sec = join64 hi lo div 1000000" "usec = ucast (join64 hi lo mod 1000000)"
    using g by (auto simp: gettimeofday_def Let_def split: option.splits)
  have "read_time (dev ?s) = Some (hi, lo, remap ?f ECALL_IN_MCAUSE n)"
    using read_time_remap [OF r, of ?f ECALL_IN_MCAUSE] saved_dev [of c] x by simp
  moreover have "(remap g x n)\<lparr>mem := h\<rparr> = remap h x n" for g h x by (simp add: remap_def)
  ultimately have "ecall E ?s = Done status (?s\<lparr>dev := ?n\<rparr>)"
    using a7 v tv by (simp add: ecall_def Let_def inj_eq timeval_ok_def sys_gettimeofday_def)
  moreover have "keeps_frame (frame_of c) (dev ?s) (dev (?s\<lparr>dev := ?n\<rparr>))"
  proof (rule keeps_frame_mem)
    fix y assume "in_frame (frame_of c) y"
    then have "\<not> in_tv (gpr c 10) y" using apartD [OF ap] by blast
    then show "mem (dev (?s\<lparr>dev := ?n\<rparr>)) y = mem (dev ?s) y" using tv by (simp add: timeval_ok_def)
  qed
  ultimately show ?thesis using ecall_context [OF f x] by fastforce
qed

lemma gettimeofday_oblivious: "oblivious gettimeofday"
  unfolding oblivious_def
proof (intro allI impI)
  fix m f x a n
  assume g: "gettimeofday m = Done a n"
  then obtain hi lo where r: "read_time m = Some (hi, lo, n)"
    by (auto simp: gettimeofday_def Let_def split: option.splits)
  from read_time_remap [OF r] show "gettimeofday (remap f x m) = Done a (remap f x n)"
    using g r by (simp add: gettimeofday_def Let_def)
qed

lemma ecall_stub_reads:
  assumes tv: "timeval_ok E get_tv" and g: "ecall_stub E trap gtod"
    and t: "\<And>c. frame_ok (frame_of c) \<Longrightarrow> mcause (dev c) = ECALL_IN_MCAUSE
    \<Longrightarrow> trap c = universal_handler E delta junk c"
  shows "clock_call gtod get_tv"
proof
  fix c tp status sec usec n
  assume f: "frame_ok (frame_of c)" and ap: "apart (frame_of c) tp"
    and gt: "gettimeofday (dev c) = Done (status, sec, usec) n"
  have st: "status = 0" using gt by (auto simp: gettimeofday_def Let_def split: option.splits)
  obtain k where k: "gpr k 17 = nr E SYS_gettimeofday" "gpr k 10 = tp" "keeps_regs c k" "dev k = dev c"
      "errno_var k = errno_var c"
    and run: "\<And>d. take_trap trap ECALL_IN_MCAUSE k = Done () d \<Longrightarrow> gpr d 10 = 0 \<Longrightarrow>
      \<exists>d'. gtod tp c = Done 0 d' \<and> keeps_regs d d' \<and> dev d' = dev d \<and> errno_var d' = errno_var d"
    using g unfolding ecall_stub_def call_ready_def by metis
  let ?d = "k\<lparr>dev := remap (mem (dev c)) ECALL_IN_MCAUSE (dev c)\<rparr>"
  let ?f = "put_timeval E tp sec usec (mem (dev (saved ?d)))"
  have d: "frame_of ?d = frame_of c" "gpr ?d 17 = nr E SYS_gettimeofday" "gpr ?d 10 = tp"
    "mcause (dev ?d) = ECALL_IN_MCAUSE" "errno_var ?d = errno_var c"
    using k keeps_regs_sp [OF k(3)] by (simp_all add: frame_of_def)
  have "gettimeofday (dev ?d) = Done (status, sec, usec) (remap (mem (dev c)) ECALL_IN_MCAUSE n)"
    using oblivious_run [OF gettimeofday_oblivious gt] by simp
  from gettimeofday_call [OF _ d(4,2) tv _ this, of delta junk] obtain e where e:
    "universal_handler E delta junk ?d = Done () e" "returns ?d 0 e" "errno_var e = errno_var c"
    "dev e = remap ?f ECALL_IN_MCAUSE n"
    using f ap d st by auto
  have "take_trap trap ECALL_IN_MCAUSE k = Done () e"
    using e(1) t [of ?d] f d k(4) by (simp add: take_trap_def remap_def)
  then obtain d' where d': "gtod tp c = Done 0 d'" "keeps_regs e d'" "dev d' = dev e" "errno_var d' = errno_var e"
    using run e(2) by (auto simp: returns_def)
  have "keeps_regs k e"
    using e(2) by (simp add: keeps_regs_def callee_saved_def list_all_iff returns_def)
  then have "keeps_regs c d'" using k(3) d'(2) keeps_regs_trans by blast
  moreover have "get_tv ?f tp = (sec, usec)" using tv by (simp add: timeval_ok_def)
  moreover have "\<forall>a. \<not> in_frame (frame_of c) a \<and> \<not> in_tv tp a \<longrightarrow> ?f a = mem n a"
    using tv saved_outside [of ?d] d(1) oblivious_keeps [OF gettimeofday_oblivious gt] by (auto simp: timeval_ok_def)
  ultimately show "\<exists>e f x. gtod tp c = Done status e \<and> keeps_regs c e
      \<and> errno_var e = errno_var c \<and> dev e = remap f x n \<and> get_tv f tp = (sec, usec)
      \<and> (\<forall>a. \<not> in_frame (frame_of c) a \<and> \<not> in_tv tp a \<longrightarrow> f a = mem n a)"
    using d' e(3,4) st by (intro exI [of _ d'] exI [of _ ?f] exI [of _ ECALL_IN_MCAUSE]) simp
qed

end
