(* ===== verification/IrqSystemProof.thy ===== *)
theory IrqSystemProof
  imports IrqSystem
begin

text \<open>
  The loop on the processor refines the loop on the devices: rounds, compare events and interrupts
  are steps of \<open>irq_step\<close>, the registers of the program and its memory stay as they are, and the
  system never gets stuck.
\<close>

section \<open>The simulation relation\<close>

definition shadows :: "(u32 \<Rightarrow> bool) \<Rightarrow> machine \<Rightarrow> machine \<Rightarrow> bool" where
  "shadows S m n \<longleftrightarrow> (\<exists>f x. n = remap f x m \<and> (\<forall>a. \<not> S a \<longrightarrow> f a = mem m a))"

definition not_owned :: "u32 \<Rightarrow> u32 \<Rightarrow> u32 \<Rightarrow> bool" where
  "not_owned b tp a \<longleftrightarrow> in_frame b a \<or> in_tv tp a"

definition same_context :: "cpu \<Rightarrow> cpu \<Rightarrow> bool" where
  "same_context c e \<longleftrightarrow> keeps_regs c e \<and> errno_var e = errno_var c"

lemma shadows_refl: "shadows S m m"
  unfolding shadows_def by (intro exI [of _ "mem m"] exI [of _ "mcause m"]) simp

lemma shadows_brisk: "shadows S m n \<Longrightarrow> brisk n \<longleftrightarrow> brisk m"
  by (auto simp: shadows_def)

lemma same_context_refl: "same_context c c"
  by (simp add: same_context_def keeps_regs_all)

lemma same_context_trans: "same_context c d \<Longrightarrow> same_context d e \<Longrightarrow> same_context c e"
  using keeps_regs_trans by (auto simp: same_context_def)

lemma same_context_frame: "same_context c e \<Longrightarrow> frame_of e = frame_of c"
  using keeps_regs_sp by (simp add: same_context_def frame_of_def)

lemma served_context: "served c n e \<Longrightarrow> same_context c e"
  using keeps_regs_all by (simp add: served_def same_context_def)

lemma same_context_dev [simp]: "same_context c (e\<lparr>dev := m\<rparr>) \<longleftrightarrow> same_context c e"
  "same_context (c\<lparr>dev := m\<rparr>) e \<longleftrightarrow> same_context c e"
  by (simp_all add: same_context_def keeps_regs_def)

lemma frame_of_dev [simp]: "frame_of (c\<lparr>dev := m\<rparr>) = frame_of c"
  by (simp add: frame_of_def)

section \<open>Rounds\<close>

lemma sp_put_oblivious [device_code]: "oblivious (sp_put n t)"
  unfolding sp_put_def [abs_def] by (intro device_code)

text \<open>A round of the devices, taken apart.\<close>

lemma irq_roundE:
  assumes "irq_round debugger k m = Done k' m'"
  obtains status sec usec n j where "gettimeofday m = Done (status, sec, usec) n"
    "(if status = 0 then sp_put 40 (irq_line sec usec) n else Done () n) = Done () j"
    "if k + 1 = 400 then debugger j = Done () m' \<and> k' = 0 else m' = j \<and> k' = k + 1"
  using assms that by (auto simp: irq_round_def andthen_Done_iff Let_def split: if_splits)

context trap_handler begin

lemma take_trap_serves:
  assumes "frame_ok (frame_of c)" and "dev c = remap f x m"
    and "cause \<in> set (EBREAK_IN_MCAUSE # interrupts)" and "serve delta cause m = Done () n"
  shows "\<exists>e g. take_trap (trap junk) cause c = Done () e \<and> same_context c e \<and> dev e = remap g cause n
    \<and> (\<forall>a. \<not> in_frame (frame_of c) a \<longrightarrow> g a = f a)"
proof -
  let ?c = "c\<lparr>dev := remap f cause m\<rparr>"
  have s: "serve delta cause (remap f cause m) = Done () (remap f cause n)"
    by (rule oblivious_run [OF serve_oblivious assms(4)])
  obtain e where e: "trap junk ?c = Done () e" "served ?c (remap f cause n) e"
    using trap_serves [of ?c "remap f cause n"] assms(1,3) s by auto
  have "(dev c)\<lparr>mcause := cause\<rparr> = remap f cause m" by (simp add: assms(2)) (simp add: remap_def)
  then have "take_trap (trap junk) cause c = Done () e" using e(1) by (simp add: take_trap_def)
  then show ?thesis using e(2) served_context [OF e(2)] by (auto simp: served_def)
qed

end

context irq_system begin

lemma round_simulates:
  assumes c: "frame_ok (frame_of c)" "apart (frame_of c) tp"
    and sh: "shadows (not_owned (frame_of c) tp) m (dev c)" and r: "irq_round debugger k m = Done k' m'"
  shows "\<exists>e. cpu_round (trap junk) gtod get_tv tp k c = Done k' e \<and> same_context c e
    \<and> shadows (not_owned (frame_of c) tp) m' (dev e)"
proof -
  let ?S = "not_owned (frame_of c) tp"
  obtain f x where f: "dev c = remap f x m" "\<forall>a. \<not> ?S a \<longrightarrow> f a = mem m a"
    using sh unfolding shadows_def by blast
  obtain status sec usec n j where g: "gettimeofday m = Done (status, sec, usec) n"
    and p: "(if status = 0 then sp_put 40 (irq_line sec usec) n else Done () n) = Done () j"
    and t: "if k + 1 = 400 then debugger j = Done () m' \<and> k' = 0 else m' = j \<and> k' = k + 1"
    using irq_roundE [OF r] by metis
  have gc: "gettimeofday (dev c) = Done (status, sec, usec) (remap f x n)"
    unfolding f(1) by (rule oblivious_run [OF gettimeofday_oblivious g])
  obtain e h y where e: "gtod tp c = Done status e" "keeps_regs c e" "errno_var e = errno_var c"
      "dev e = remap h y n" "get_tv h tp = (sec, usec)" and h: "\<forall>a. \<not> ?S a \<longrightarrow> h a = f a"
    using gtod_reads [OF c gc] by (auto simp: not_owned_def)
  let ?e = "e\<lparr>dev := remap h y j\<rparr>"
  have ctx: "same_context c e" using e(2,3) by (simp add: same_context_def)
  have put: "(if status = 0 then on_dev (sp_put 40 (irq_line sec usec)) e else Done () e) = Done () ?e"
    using p e(4) oblivious_run [OF sp_put_oblivious, of 40 "irq_line sec usec" n "()" j h y]
    by (auto split: if_splits)
  have head: "cpu_round (trap junk) gtod get_tv tp k c =
      (if k + 1 = 400 then andthen (take_trap (trap junk) EBREAK_IN_MCAUSE ?e) (\<lambda>_ c. Done 0 c) else Done (k + 1) ?e)"
    by (simp only: cpu_round_def e(1,4,5) andthen.simps Let_def remap_fields fst_conv snd_conv put)
  have j: "mem j = mem m"
    using oblivious_keeps [OF gettimeofday_oblivious g] oblivious_keeps [OF sp_put_oblivious] p
    by (auto split: if_splits)
  show ?thesis
  proof (cases "k + 1 = 400")
    case True
    have db: "debugger j = Done () m'" and k': "k' = 0" using t True by simp_all
    have "serve delta EBREAK_IN_MCAUSE j = Done () m'" using db by (simp add: serve_def causes_differ)
    with take_trap_serves [of ?e h y j EBREAK_IN_MCAUSE m' junk] c(1) same_context_frame [OF ctx]
    obtain d u where d: "take_trap (trap junk) EBREAK_IN_MCAUSE ?e = Done () d" "same_context ?e d"
        "dev d = remap u EBREAK_IN_MCAUSE m'" "\<forall>a. \<not> in_frame (frame_of c) a \<longrightarrow> u a = h a"
      by auto
    have "shadows ?S m' (dev d)"
      unfolding shadows_def d(3) using d(4) h f(2) j oblivious_keeps [OF debugger_oblivious db]
      by (auto simp: not_owned_def)
    then show ?thesis using head d(1,2) True k' same_context_trans [OF ctx] by auto
  next
    case False
    have "shadows ?S m' (dev ?e)"
      unfolding shadows_def using t False h f(2) j by auto
    then show ?thesis using head t False ctx by auto
  qed
qed

text \<open>An interrupt is the step of the devices that serves it.\<close>

lemma interrupt_simulates:
  assumes "frame_ok (frame_of c)" and "brisk m" and sh: "shadows (not_owned (frame_of c) tp) m (dev c)"
    and r: "raised cause (dev c)"
  shows "\<exists>e m'. take_trap (trap junk) cause c = Done () e \<and> same_context c e
    \<and> irq_step debugger delta (k, m) (k, m') \<and> shadows (not_owned (frame_of c) tp) m' (dev e)"
proof -
  let ?S = "not_owned (frame_of c) tp"
  obtain f x where f: "dev c = remap f x m" "\<forall>a. \<not> ?S a \<longrightarrow> f a = mem m a"
    using sh unfolding shadows_def by blast
  have rm: "raised cause m" using r f(1) by (simp add: raised_def)
  then have cs: "cause \<in> set (EBREAK_IN_MCAUSE # interrupts)" by (auto simp: raised_def interrupts_def)
  obtain n where n: "serve delta cause m = Done () n" using serve_returns [OF assms(2)] by blast
  obtain e g where e: "take_trap (trap junk) cause c = Done () e" "same_context c e" "dev e = remap g cause n"
      "\<forall>a. \<not> in_frame (frame_of c) a \<longrightarrow> g a = f a"
    using take_trap_serves [OF assms(1) f(1) cs n, of junk] by blast
  have "irq_step debugger delta (k, m) (k, n)"
    using rm n by (auto simp: raised_def serve_def causes_differ timer_entry_def
        intro: irq_step.Timer irq_step.Timer1 irq_step.Receive split: option.splits)
  moreover have "shadows ?S n (dev e)"
    unfolding shadows_def e(3) using e(4) f(2) serve_keeps [OF n] by (auto simp: not_owned_def)
  ultimately show ?thesis using e(1,2) by blast
qed

lemma step_simulates:
  assumes "cpu_step trap gtod get_tv tp (k, c) (k', c')"
    and c: "frame_ok (frame_of c)" "apart (frame_of c) tp" and b: "brisk m"
    and sh: "shadows (not_owned (frame_of c) tp) m (dev c)"
  shows "\<exists>m'. irq_step debugger delta (k, m) (k', m') \<and> same_context c c'
    \<and> shadows (not_owned (frame_of c) tp) m' (dev c')"
  using assms(1)
proof (rule cpu_stepE)
  fix junk assume r: "cpu_round (trap junk) gtod get_tv tp k c = Done k' c'"
  obtain k1 m1 where m1: "irq_round debugger k m = Done k1 m1" using debug.irq_round_shows [OF b] by blast
  from round_simulates [OF c sh this, of junk] show ?thesis using r irq_step.Round [OF m1] by auto
next
  assume t: "k' = k" "c' = c\<lparr>dev := (dev c)\<lparr>t1stat := set_bit 4 (t1stat (dev c))\<rparr>\<rparr>" "bit (t1ctrl (dev c)) 0"
  obtain f x where f: "dev c = remap f x m" "\<forall>a. \<not> not_owned (frame_of c) tp a \<longrightarrow> f a = mem m a"
    using sh unfolding shadows_def by blast
  have "dev c' = remap f x (m\<lparr>t1stat := set_bit 4 (t1stat m)\<rparr>)" using t f(1) by simp (simp add: remap_def)
  then show ?thesis
    using irq_step.Compare [of m debugger delta k] t f
    by (intro exI [of _ "m\<lparr>t1stat := set_bit 4 (t1stat m)\<rparr>"]) (auto simp: shadows_def same_context_refl)
next
  fix cause junk assume t: "k' = k" "raised cause (dev c)" "take_trap (trap junk) cause c = Done () c'"
  from interrupt_simulates [OF c(1) b sh t(2), of junk k] show ?thesis using t by auto
qed

text \<open>Runs, and what is possible at their end.\<close>

lemma run_simulates:
  assumes "(cpu_step trap gtod get_tv tp)\<^sup>*\<^sup>* (0, c) (k, d)"
    and c: "frame_ok (frame_of c)" "apart (frame_of c) tp" and b: "brisk (dev c)"
  shows "\<exists>m. (irq_step debugger delta)\<^sup>*\<^sup>* (0, dev c) (k, m) \<and> same_context c d
    \<and> shadows (not_owned (frame_of c) tp) m (dev d)"
  using assms(1)
proof (induction "(k, d)" arbitrary: k d rule: rtranclp_induct)
  case base
  then show ?case using shadows_refl same_context_refl by blast
next
  case (step y)
  obtain k0 d0 where y: "y = (k0, d0)" by (cases y)
  obtain m where m: "(irq_step debugger delta)\<^sup>*\<^sup>* (0, dev c) (k0, m)" "same_context c d0"
      "shadows (not_owned (frame_of c) tp) m (dev d0)"
    using step(3) y by blast
  have "brisk m" using debug.irq_reachable [OF m(1)] b fixed_elapse [of m "dev c"] by simp
  then obtain m' where "irq_step debugger delta (k0, m) (k, m')" "same_context d0 d"
      "shadows (not_owned (frame_of c) tp) m' (dev d)"
    using step_simulates [of tp k0 d0 k d m] step(2) y m(2,3) c same_context_frame [OF m(2)] by auto
  then show ?case using m(1) same_context_trans [OF m(2)] by (meson rtranclp.rtrancl_into_rtrancl)
qed

end

text \<open>The settings of the devices and the leds that no handler owns.\<close>

definition settings :: "machine \<Rightarrow> u32 list" where
  "settings m = [mtvec m, mstatus m, mie m, ubaud m, uctrl m, t1ctrl m, t1cmpt m, t1cntr m, pouta m AND 0xfffffff8]"

lemma settings_fixed: "fixed n = fixed m \<Longrightarrow> settings n = settings m"
proof -
  assume f: "fixed n = fixed m"
  show ?thesis
    using arg_cong [OF f, of mtvec] arg_cong [OF f, of mstatus] arg_cong [OF f, of mie] arg_cong [OF f, of ubaud]
      arg_cong [OF f, of uctrl] arg_cong [OF f, of t1ctrl] arg_cong [OF f, of t1cmpt] arg_cong [OF f, of t1cntr]
      arg_cong [OF f, of pouta]
    by (simp add: fixed_def settings_def)
qed

lemma settings_remap: "settings (remap f x m) = settings m"
  by (simp add: settings_def remap_def)

text \<open>What a run from \<open>c\<close> to \<open>d\<close> has kept: the registers, \<open>errno\<close>, all memory but the handler's frame
  and the time structure, and the settings.\<close>

definition kept :: "u32 \<Rightarrow> cpu \<Rightarrow> cpu \<Rightarrow> bool" where
  "kept tp c d \<longleftrightarrow> same_context c d \<and> settings (dev d) = settings (dev c)
     \<and> (\<forall>x. \<not> not_owned (frame_of c) tp x \<longrightarrow> mem (dev d) x = mem (dev c) x)"

context irq_system begin

lemma run_goes_on:
  assumes run: "(cpu_step trap gtod get_tv tp)\<^sup>*\<^sup>* (0, c) (k, d)"
    and c: "frame_ok (frame_of c)" "apart (frame_of c) tp" and b: "brisk (dev c)"
  shows "k < 400" and "kept tp c d"
    and "\<exists>k' d'. cpu_round (trap junk) gtod get_tv tp k d = Done k' d'"
    and "raised cause (dev d) \<Longrightarrow> \<exists>d'. take_trap (trap junk) cause d = Done () d'"
proof -
  obtain m where m: "(irq_step debugger delta)\<^sup>*\<^sup>* (0, dev c) (k, m)" "same_context c d"
      "shadows (not_owned (frame_of c) tp) m (dev d)"
    using run_simulates [OF run c b] by blast
  have i: "k < 400" "fixed m = fixed (dev c)" using debug.irq_reachable [OF m(1)] b by simp_all
  then have bm: "brisk m" using b fixed_elapse [of m "dev c"] by simp
  have d: "frame_ok (frame_of d)" "apart (frame_of d) tp" "shadows (not_owned (frame_of d) tp) m (dev d)"
    using c m(3) same_context_frame [OF m(2)] by simp_all
  show "k < 400" by (rule i(1))
  obtain k' m' where m': "irq_round debugger k m = Done k' m'" using debug.irq_round_shows [OF bm] by blast
  show "\<exists>k' d'. cpu_round (trap junk) gtod get_tv tp k d = Done k' d'"
    using round_simulates [OF d m', of junk] by blast
  show "raised cause (dev d) \<Longrightarrow> \<exists>d'. take_trap (trap junk) cause d = Done () d'"
    using interrupt_simulates [OF d(1) bm d(3), of cause junk k] by blast
  obtain f x where f: "dev d = remap f x m" "\<forall>a. \<not> not_owned (frame_of c) tp a \<longrightarrow> f a = mem m a"
    using m(3) unfolding shadows_def by blast
  have "mem m = mem (dev c)" using arg_cong [OF i(2), of mem] by (simp add: fixed_def)
  then show "kept tp c d"
    using f m(2) settings_fixed [OF i(2)] by (simp add: kept_def settings_remap)
qed

end

section \<open>The programs as built\<close>

definition board_tv :: "(u32 \<Rightarrow> u8) \<Rightarrow> u32 \<Rightarrow> u64 \<times> u32" where
  "board_tv f tp = (join64 (mem_word f (tp + 4)) (mem_word f tp), mem_word f (tp + 8))"

lemma board_timeval: "timeval_ok board board_tv"
proof -
  have put: "put_timeval board tp s u f
      = set_word (set_word (set_word f (slot tp 0) (lo32 s)) (slot tp 1) (hi32 s)) (slot tp 2) u" for tp s u f
    by (simp add: board_def slot_def lo32_def hi32_def)
  have get: "board_tv f tp = (join64 (mem_word f (slot tp 1)) (mem_word f (slot tp 0)), mem_word f (slot tp 2))" for f tp
    by (simp add: board_tv_def slot_def)
  have "put_timeval board tp s u f x = f x" if "\<not> in_tv tp x" for tp s u f x
  proof -
    have "x \<noteq> slot tp i + of_nat l" if "i < 3" "l < 4" for i l
    proof
      assume "x = slot tp i + of_nat l"
      then have "in_tv tp x"
        unfolding slot_byte in_tv_def list_ex_iff using that by (intro bexI [of _ "4 * i + l"]) auto
      then show False using \<open>\<not> in_tv tp x\<close> by blast
    qed
    then show ?thesis unfolding put by (subst set_word_bytes, simp)+ simp
  qed
  then show ?thesis
    by (simp add: timeval_ok_def newlib_nr_inj put get mem_word_slot join64_halves)
qed

interpretation direct_loop: irq_system "universal_handler board delta" delta
  "plain_stub board (universal_handler board delta junk)" board_tv for delta junk
  by (intro irq_system.intro direct.trap_handler_axioms ecall_stub_reads [OF board_timeval plain_stub_calls]) simp

interpretation vectored_loop: irq_system "vectored_trap board delta" delta
  "plain_stub board (vectored_trap board delta junk)" board_tv for delta junk
  by (intro irq_system.intro vectored.trap_handler_axioms
      ecall_stub_reads [OF board_timeval plain_stub_calls, where delta = delta and junk = junk] vectored_exceptions)
    (simp_all add: ebreak_sync)

text \<open>Either handler and any library function that makes the system call.\<close>

lemma loop_system:
  assumes "timeval_ok E get_tv" and "trap \<in> {universal_handler E delta, vectored_trap E delta}"
    and "ecall_stub E (trap junk) gtod"
  shows "irq_system trap delta gtod get_tv"
proof -
  have "trap_handler trap delta" using assms(2) direct.trap_handler_axioms vectored.trap_handler_axioms by auto
  moreover have "clock_call gtod get_tv"
    using assms(2) ebreak_sync vectored_exceptions
    by (intro ecall_stub_reads [OF assms(1,3), where delta = delta and junk = junk]) auto
  ultimately show ?thesis by (rule irq_system.intro)
qed



end
