(* ===== verification/Reset.thy ===== *)
theory Reset
  imports IrqSystemProof
begin

text \<open>
  From reset to the display: the start-up file, the set-up and the greeting of \<open>main\<close>, and the loop with
  the trap handler and the start-up's stack underneath, for both interrupt programs.
\<close>

section \<open>The head of the main program\<close>

text \<open>The part of \<open>main\<close> in front of its loop.\<close>

definition main_head :: "(machine \<Rightarrow> machine) \<Rightarrow> string list \<Rightarrow> cpu \<Rightarrow> (cpu, unit) outcome" where
  "main_head setup argv c = on_dev (\<lambda>m. irq_intro argv (setup m)) c"

lemma main_head_runs:
  assumes "brisk (dev c)" and "\<forall>a \<in> set argv. 0 \<notin> set (bytes a)"
    and "(setup, w, period) \<in> {(direct_setup v, v, 24999999), (vectored_setup v, v OR 1, 499999)}"
  shows "\<exists>n. main_head setup argv c = Done () (c\<lparr>dev := n\<rparr>) \<and> brisk n \<and> irq_configured w period n
    \<and> line_out n = line_out (dev c) @ irq_head argv \<and> mem n = mem (dev c)"
proof -
  let ?s = "setup (dev c)"
  obtain n where n: "irq_intro argv ?s = Done () n" "timed [] (irq_head argv) ?s n"
    using irq_intro_timed [OF assms(2)] by blast
  have s: "brisk ?s" "line_out ?s = line_out (dev c)" "irq_configured w period ?s" "mem ?s = mem (dev c)"
    using assms(1,3) setup_configures [of v "dev c"] by (auto simp: setup_keeps)
  have k: "core n = core ?s" using n(2) serial_core [of "[]" "irq_head argv" ?s n] by (simp add: timed_def)
  have "irq_configured w period n" using s(3) core_fields [OF k] by (simp add: irq_configured_def)
  then show ?thesis
    using n s timed_out [OF n(2)] brisk_later [of ?s n] core_fields(1) [OF k]
    by (intro exI [of _ n]) (simp add: main_head_def on_dev_eq timed_def)
qed

section \<open>The loop\<close>

text \<open>The loop from the state \<open>c\<close>: whatever the compiled code leaves in the registers, whichever library
  function makes the system call, and however the interrupts fall, a run keeps what \<open>kept\<close> says and
  its counter bound, and goes on.\<close>

definition survives :: "sysenv \<Rightarrow> ((u32 \<Rightarrow> u8) \<Rightarrow> u32 \<Rightarrow> u64 \<times> u32) \<Rightarrow> ((nat \<Rightarrow> u32) \<Rightarrow> cpu \<Rightarrow> (cpu, unit) outcome)
    \<Rightarrow> u32 \<Rightarrow> cpu \<Rightarrow> bool" where
  "survives E get_tv trap tp c \<longleftrightarrow> (\<forall>junk gtod k d. ecall_stub E (trap junk) gtod
     \<longrightarrow> (cpu_step trap gtod get_tv tp)\<^sup>*\<^sup>* (0, c) (k, d)
     \<longrightarrow> k < 400 \<and> kept tp c d \<and> (\<exists>k' d'. cpu_round (trap junk) gtod get_tv tp k d = Done k' d'))"

lemma loop_survives:
  assumes "timeval_ok E get_tv" and "trap \<in> {universal_handler E delta, vectored_trap E delta}"
    and "frame_ok (frame_of c)" and "apart (frame_of c) tp" and "brisk (dev c)"
  shows "survives E get_tv trap tp c"
  unfolding survives_def
proof (intro allI impI)
  fix junk gtod k d
  assume g: "ecall_stub E (trap junk) gtod" and run: "(cpu_step trap gtod get_tv tp)\<^sup>*\<^sup>* (0, c) (k, d)"
  show "k < 400 \<and> kept tp c d \<and> (\<exists>k' d'. cpu_round (trap junk) gtod get_tv tp k d = Done k' d')"
    using irq_system.run_goes_on [OF loop_system [OF assms(1,2) g] run assms(3-5)] by blast
qed



end
