(* ===== verification/GpioDemos.thy ===== *)
theory GpioDemos
  imports Usart
begin

text \<open>
  The programs that use the switches, the leds and the displays directly: \<open>CODE/hex_display\<close>,
  \<open>CODE/ioadd\<close>, \<open>CODE/testio\<close>, \<open>CODE/structio\<close>, \<open>CODE/flash\<close> and \<open>CODE/usart\<close>. All but the last are
  loops without exit; a definition is one round.
\<close>

section \<open>The programs\<close>

definition hex :: "u8 list" where
  "hex = [0x40, 0x79, 0x24, 0x30,
          0x19, 0x12, 0x02, 0x78,
          0x00, 0x10, 0x08, 0x03,
          0x46, 0x21, 0x06, 0x0e]"

definition hex_display_round :: "machine \<Rightarrow> machine" where
  "hex_display_round m = (case io_read PIN m of (v, m) \<Rightarrow>
     let value = v AND 0xff;
         out1 = hex ! unat (drop_bit 4 (value AND 0xf0));
         out0 = hex ! unat (value AND 0x0f)
     in io_write POUT (push_bit 24 (ucast out1) OR push_bit 16 (ucast out0)) m)"

definition ioadd_round :: "machine \<Rightarrow> machine" where
  "ioadd_round m = (case io_read PIN m of (value, m) \<Rightarrow>
     let value = (value AND 0x1f) + (drop_bit 5 value AND 0x1f) in io_write POUT value m)"

definition testio_round :: "machine \<Rightarrow> machine" where
  "testio_round m = (case io_read PIN m of (v, m) \<Rightarrow> io_write POUT v m)"

definition structio_round :: "machine \<Rightarrow> machine" where
  "structio_round m = (case io_read PIN m of (value, m) \<Rightarrow> io_write POUT value m)"

text \<open>\<open>for (counter = 0; counter < 5000000; counter ++);\<close>\<close>

function flash_delay :: "u32 \<Rightarrow> u32" where
  "flash_delay counter = (if counter < 5000000 then flash_delay (counter + 1) else counter)"
  by pat_completeness auto
termination
proof (relation "measure (\<lambda>counter. 5000000 - unat counter)")
  fix c :: u32
  assume "c < 5000000"
  then have "unat c < 5000000" by (simp add: word_less_nat_alt)
  moreover from this have "unat (c + 1) = Suc (unat c)" by (simp add: unat_word_ariths)
  ultimately show "(c + 1, c) \<in> measure (\<lambda>counter. 5000000 - unat counter)" by simp
qed simp

declare flash_delay.simps [simp del]

definition flash_round :: "u32 \<times> machine \<Rightarrow> u32 \<times> machine" where
  "flash_round s = (case s of (counter, m) \<Rightarrow>
     let m = io_write POUT 0xffffffff m;
         counter = flash_delay 0
     in (case io_read POUT m of (v, m) \<Rightarrow>
     let m = io_write POUT (NOT v) m;
         counter = flash_delay 0
     in (counter, m)))"

definition usart_demo :: "machine \<Rightarrow> (machine, u32) outcome" where
  "usart_demo m =
     (let m = io_write UBAUD (F_CPU div BAUD_RATE - 1) m;
          m = io_write UCTRL 0x00 m
      in (case io_read PIN m of (v, m) \<Rightarrow>
      let m = io_write UDATA (v AND 0xff) m in
      case wait_stat 0x10 m of None \<Rightarrow> Stuck m | Some m \<Rightarrow>
      case wait_stat 0x04 m of None \<Rightarrow> Stuck m | Some m \<Rightarrow>
      case io_read UDATA m of (v, m) \<Rightarrow> Done 0 (io_write POUT v m)))"

section \<open>The seven-segment displays\<close>

text \<open>The segments of a display, and the digits as they are drawn with them. A segment is lit
  when its bit is clear.\<close>

datatype segment = Top | Top_Right | Bottom_Right | Bottom | Bottom_Left | Top_Left | Middle

fun segment_bit :: "segment \<Rightarrow> nat" where
  "segment_bit Top = 0"
| "segment_bit Top_Right = 1"
| "segment_bit Bottom_Right = 2"
| "segment_bit Bottom = 3"
| "segment_bit Bottom_Left = 4"
| "segment_bit Top_Left = 5"
| "segment_bit Middle = 6"

definition segments :: "segment list" where
  "segments = [Top, Top_Right, Bottom_Right, Bottom, Bottom_Left, Top_Left, Middle]"

definition lit :: "u32 \<Rightarrow> segment list" where
  "lit w = filter (\<lambda>s. \<not> bit w (segment_bit s)) segments"

definition glyphs :: "segment list list" where
  "glyphs =
    [[Top, Top_Right, Bottom_Right, Bottom, Bottom_Left, Top_Left],
     [Top_Right, Bottom_Right],
     [Top, Top_Right, Bottom, Bottom_Left, Middle],
     [Top, Top_Right, Bottom_Right, Bottom, Middle],
     [Top_Right, Bottom_Right, Top_Left, Middle],
     [Top, Bottom_Right, Bottom, Top_Left, Middle],
     [Top, Bottom_Right, Bottom, Bottom_Left, Top_Left, Middle],
     [Top, Top_Right, Bottom_Right],
     [Top, Top_Right, Bottom_Right, Bottom, Bottom_Left, Top_Left, Middle],
     [Top, Top_Right, Bottom_Right, Bottom, Top_Left, Middle],
     [Top, Top_Right, Bottom_Right, Bottom_Left, Top_Left, Middle],
     [Bottom_Right, Bottom, Bottom_Left, Top_Left, Middle],
     [Top, Bottom, Bottom_Left, Top_Left],
     [Top_Right, Bottom_Right, Bottom, Bottom_Left, Middle],
     [Top, Bottom, Bottom_Left, Top_Left, Middle],
     [Top, Bottom_Left, Top_Left, Middle]]"

lemma all_segments: "set segments = UNIV"
  by (auto simp: segments_def intro: segment.exhaust)

lemma glyphs_distinct: "distinct glyphs"
  by (simp add: glyphs_def)

lemma length_glyphs: "length glyphs = 16"
  by (simp add: glyphs_def)

lemma hex_draws: "n < 16 \<Longrightarrow> lit (ucast (hex ! n)) = glyphs ! n"
proof -
  have "map (\<lambda>v. lit (ucast v)) hex = glyphs"
    by (simp add: hex_def lit_def segments_def glyphs_def bit_simps)
  moreover have "length hex = 16" by (simp add: hex_def)
  ultimately show "n < 16 \<Longrightarrow> ?thesis" by (metis nth_map)
qed

lemma segment_bit_less: "segment_bit s < 7"
  by (cases s) simp_all

lemma lit_cong: "(\<And>n. n < 7 \<Longrightarrow> bit v n = bit w n) \<Longrightarrow> lit v = lit w"
  by (simp add: lit_def segment_bit_less)

lemma lit_digits:
  fixes a b :: u8
  defines "w \<equiv> push_bit 24 (ucast a) OR push_bit 16 (ucast b) :: u32"
  shows "lit (drop_bit 24 w) = lit (ucast a)" and "lit (drop_bit 16 w) = lit (ucast b)"
  by (rule lit_cong; auto simp: w_def bit_simps dest: bit_imp_le_length)+

lemma hex_display_digits:
  "pouta (hex_display_round m) = push_bit 24 (ucast (hex ! (unat (pins m (ticks m)) mod 256 div 16)))
     OR push_bit 16 (ucast (hex ! (unat (pins m (ticks m)) mod 16)))"
proof -
  let ?v = "pins m (ticks m)"
  have m: "(0xff :: u32) = mask 8" "(0x0f :: u32) = mask 4" "drop_bit 4 (x AND 0xf0) = drop_bit 4 (take_bit 8 x)" for x :: u32
  proof -
    show "(0xff :: u32) = mask 8" "(0x0f :: u32) = mask 4" by (simp_all add: mask_eq_exp_minus_1)
    have f: "(0xf0 :: u32) = push_bit 4 (mask 4)" by (simp add: mask_eq_exp_minus_1 push_bit_eq_mult)
    show "drop_bit 4 (x AND 0xf0) = drop_bit 4 (take_bit 8 x)"
      unfolding f by (rule bit_word_eqI) (auto simp: bit_simps)
  qed
  have "(?v AND 0xff) AND 0x0f = take_bit 4 ?v"
    unfolding m(1,2) by (rule bit_word_eqI) (auto simp: bit_simps)
  then have "unat ((?v AND 0xff) AND 0x0f) = unat ?v mod 16"
    by (simp add: unat_mod take_bit_eq_mod)
  moreover have "drop_bit 4 ((?v AND 0xff) AND 0xf0) = drop_bit 4 (take_bit 8 ?v)"
    unfolding m(3) unfolding m(1) by (rule bit_word_eqI) (auto simp: bit_simps)
  then have "unat (drop_bit 4 ((?v AND 0xff) AND 0xf0)) = unat ?v mod 256 div 16"
    by (simp add: unat_mod unat_div take_bit_eq_mod drop_bit_eq_div)
  ultimately show ?thesis
    by (simp only: hex_display_round_def io_read_def prod.case Let_def io_value.simps io_write.simps) simp
qed

section \<open>The other programs\<close>

text \<open>The sum of two five-bit numbers fits the ten leds.\<close>

lemma ioadd_sum:
  "unat (pouta (ioadd_round m)) = unat (pins m (ticks m)) mod 32 + unat (pins m (ticks m)) div 32 mod 32"
proof -
  have low: "(x AND 0x1f :: u32) = take_bit 5 x" for x
    by (simp add: take_bit_eq_mask mask_eq_exp_minus_1)
  have "unat (take_bit 5 x :: u32) = unat x mod 32" for x
    by (simp add: take_bit_eq_mod unat_mod)
  moreover have "a mod 32 + b mod 32 < 2 ^ 32" for a b :: nat
    using mod_less_divisor [of 32 a] mod_less_divisor [of 32 b] by simp
  ultimately show ?thesis
    by (simp add: ioadd_round_def io_read_def low unat_word_ariths Let_def drop_bit_eq_div unat_div mod_mod_cancel)
qed

lemma flash_delay_ends: "c \<le> 5000000 \<Longrightarrow> flash_delay c = 5000000"
proof (induction c rule: flash_delay.induct)
  case (1 c)
  show ?case
  proof (cases "c < 5000000")
    case True
    then have "c + 1 \<le> 5000000" using inc_le by blast
    then show ?thesis using "1.IH" True by (simp add: flash_delay.simps [of c])
  next
    case False
    then show ?thesis using "1.prems" by (simp add: flash_delay.simps [of 5000000])
  qed
qed

lemma flash_round_off: "pouta (snd (flash_round (c, m))) = 0 \<and> fst (flash_round (c, m)) = 5000000"
  by (simp add: flash_round_def io_read_def flash_delay_ends Let_def)

lemma usart_demo_runs:
  assumes "pending m = c # cs"
  shows "\<exists>n. usart_demo m = Done 0 n \<and> ucast (pouta n) = c \<and> pending n = cs
    \<and> line_out n = line_out m @ [ucast (pins m (ticks m))]"
proof -
  let ?m = "io_write UCTRL 0 (io_write UBAUD (F_CPU div BAUD_RATE - 1) m)"
  let ?v = "pins m (ticks m)"
  have low: "ucast (ucast (?v AND 255) :: u8) = ?v AND (255 :: u32)" "(ucast (?v AND 255) :: u8) = ucast ?v"
    unfolding ucast_and_255 by simp_all
  obtain j where p: "usart_putc (?v AND 255) (tick ?m) = Done () j" "serial [] [ucast (?v AND 255)] (tick ?m) j"
    using usart_putc_serial by blast
  then have w: "wait_stat 0x10 (io_write UDATA (?v AND 255) (tick ?m)) = Some j"
    by (auto simp: usart_putc_def Let_def low(1) split: option.splits)
  have "pending j = c # cs" "line_out j = line_out m @ [ucast ?v]"
    using serial_pending [OF p(2)] serial_out [OF p(2)] assms low(2) by simp_all
  then obtain k where k: "usart_getc j = Done (ucast c) k" "serial [c] [] j k"
    using usart_getc_serial by blast
  obtain l where l: "wait_stat 0x04 j = Some l" "k = snd (io_read UDATA l)" "udata l AND 255 = ucast c"
    using k(1) by (auto simp: usart_getc_def io_read_def split: option.splits)
  have "(ucast (udata l) :: u8) = ucast (udata l AND 255)"
    unfolding ucast_and_255 by simp
  then have c: "ucast (udata l) = c" unfolding l(3) by simp
  have "usart_demo m = Done 0 (io_write POUT (udata l) k)"
    using w l(1,2) by (simp add: usart_demo_def io_read_def Let_def)
  then show ?thesis
    using serial_pending [OF k(2)] serial_out [OF k(2)] \<open>pending j = c # cs\<close>
      \<open>line_out j = line_out m @ [ucast ?v]\<close> c by simp
qed

lemma usart_demo_waits: "pending m = [] \<Longrightarrow> \<exists>n. usart_demo m = Stuck n"
proof -
  assume p: "pending m = []"
  let ?m = "io_write UCTRL 0 (io_write UBAUD (F_CPU div BAUD_RATE - 1) m)"
  let ?n = "io_write UDATA (pins m (ticks m) AND 255) (tick ?m)"
  obtain j where j: "wait_stat 16 ?n = Some j" "serial [] [] ?n j"
    using wait_tx [of ?n] by auto
  have "pending (io_write UDATA v n) = pending n" for v n
    by (simp add: pending_def bit_unset_bit_iff)
  then have "pending ?n = pending (tick ?m)" .
  also have "\<dots> = []" using p by simp
  finally have "pending j = []" using serial_pending [OF j(2)] by simp
  then have "wait_stat 4 j = None" by (rule wait_rx_None)
  then have "usart_demo m = Stuck j" using j(1) by (simp add: usart_demo_def io_read_def Let_def)
  then show ?thesis by blast
qed

text \<open>C40: A round of the display program lights, on the two displays, exactly the segments of the
  hexadecimal digits of the switches, and the sixteen digits look different.\<close>

theorem hex_display_shows_switches:
  fixes m :: machine
  defines "v \<equiv> unat (pins m (ticks m)) mod 256"
  shows "lit (drop_bit 24 (pouta (hex_display_round m))) = glyphs ! (v div 16)
    \<and> lit (drop_bit 16 (pouta (hex_display_round m))) = glyphs ! (v mod 16)
    \<and> (i < 16 \<and> j < 16 \<and> glyphs ! i = glyphs ! j \<longrightarrow> i = j)"
proof -
  have "v div 16 < 16" "v mod 16 < 16" "unat (pins m (ticks m)) mod 16 = v mod 16"
    by (simp_all add: v_def mod_mod_cancel)
  moreover have "i < 16 \<and> j < 16 \<and> glyphs ! i = glyphs ! j \<longrightarrow> i = j"
    using nth_eq_iff_index_eq [OF glyphs_distinct, of i j] by (auto simp: length_glyphs)
  ultimately show ?thesis
    unfolding hex_display_digits v_def [symmetric] lit_digits
    using hex_draws [of "v div 16"] hex_draws [of "v mod 16"] by (simp add: lit_digits)
qed

theorem hex_display_shows_switches_witness:
  "lit (drop_bit 16 (pouta (hex_display_round ((power_on [])\<lparr>pins := \<lambda>_. 0x1f5\<rparr>)))) = glyphs ! 5"
  using hex_display_shows_switches [of "(power_on [])\<lparr>pins := \<lambda>_. 0x1f5\<rparr>" 0 0] by simp

end
