(* ===== verification/CDemos.thy ===== *)
theory CDemos
  imports Platform "HOL-Library.Multiset"
begin

text \<open>
  The small programs that exercise the compiler and the C library: \<open>CODE/qsort_int\<close>,
  \<open>CODE/malloc\<close>, \<open>CODE/string\<close>, \<open>CODE/global\<close>, \<open>CODE/mult\<close>, \<open>CODE/shift\<close> and \<open>CODE/add64\<close>. The C
  library is a parameter. The type \<open>int\<close> gets the order it has in C as an instance of \<open>linorder\<close>.
\<close>

section \<open>Sorting integers\<close>

datatype cint = Cint u32

primrec int_of :: "cint \<Rightarrow> int" where
  "int_of (Cint x) = sint x"

instantiation cint :: linorder
begin

definition less_eq_cint :: "cint \<Rightarrow> cint \<Rightarrow> bool" where
  "less_eq_cint x y \<longleftrightarrow> int_of x \<le> int_of y"

definition less_cint :: "cint \<Rightarrow> cint \<Rightarrow> bool" where
  "less_cint x y \<longleftrightarrow> int_of x < int_of y"

instance
proof
  fix x y z :: cint
  show "x < y \<longleftrightarrow> x \<le> y \<and> \<not> y \<le> x" "x \<le> x" "x \<le> y \<or> y \<le> x"
    by (auto simp: less_eq_cint_def less_cint_def)
  show "x \<le> y \<Longrightarrow> y \<le> z \<Longrightarrow> x \<le> z" by (simp add: less_eq_cint_def)
  show "x \<le> y \<Longrightarrow> y \<le> x \<Longrightarrow> x = y"
    by (cases x; cases y) (auto simp: less_eq_cint_def dest: arg_cong [where f = "word_of_int :: int \<Rightarrow> u32"])
qed

end

definition compare :: "cint \<Rightarrow> cint \<Rightarrow> int" where
  "compare num1 num2 = (if num1 > num2 then 1 else if num1 = num2 then 0 else -1)"

definition arr :: "cint list" where
  "arr = map Cint [0x50, 0x30, 0x20, 0x10, 0x60, 0xa0, 0x40, 0xb0]"

definition qsort_main :: "(cint list \<Rightarrow> (cint \<Rightarrow> cint \<Rightarrow> int) \<Rightarrow> cint list) \<Rightarrow> cint list \<times> u32" where
  "qsort_main qsort = (let arr = qsort arr compare in (arr, 0))"

text \<open>What \<open>qsort\<close> asks of its comparison, and what it then promises.\<close>

definition comparator :: "('a \<Rightarrow> 'a \<Rightarrow> int) \<Rightarrow> bool" where
  "comparator cmp \<longleftrightarrow> (\<forall>a b. sgn (cmp a b) = - sgn (cmp b a))
     \<and> (\<forall>a b c. cmp a b \<le> 0 \<longrightarrow> cmp b c \<le> 0 \<longrightarrow> cmp a c \<le> 0)"

definition sorts :: "('a list \<Rightarrow> ('a \<Rightarrow> 'a \<Rightarrow> int) \<Rightarrow> 'a list) \<Rightarrow> bool" where
  "sorts qsort \<longleftrightarrow> (\<forall>xs cmp. comparator cmp \<longrightarrow>
     mset (qsort xs cmp) = mset xs \<and> sorted_wrt (\<lambda>a b. cmp a b \<le> 0) (qsort xs cmp))"

lemma compare_le: "compare a b \<le> 0 \<longleftrightarrow> a \<le> b"
  by (auto simp: compare_def not_less)

lemma comparator_compare: "comparator compare"
  unfolding comparator_def by (auto simp: compare_le) (auto simp: compare_def)

lemma qsort_sorts:
  assumes "sorts qsort"
  shows "qsort xs compare = sort xs"
proof -
  have "mset (qsort xs compare) = mset xs \<and> sorted_wrt (\<lambda>a b. compare a b \<le> 0) (qsort xs compare)"
    using assms comparator_compare unfolding sorts_def by blast
  then have "mset (qsort xs compare) = mset xs" "sorted (qsort xs compare)"
    by (simp_all add: compare_le)
  then show ?thesis by (metis properties_for_sort)
qed

lemma qsort_main_result:
  "sorts qsort \<Longrightarrow> qsort_main qsort = (map Cint [0x10, 0x20, 0x30, 0x40, 0x50, 0x60, 0xa0, 0xb0], 0)"
  by (simp add: qsort_main_def qsort_sorts arr_def Let_def sort_key_def less_eq_cint_def)

section \<open>Arithmetic\<close>

definition mult_x :: u32 where
  "mult_x = 4"

definition mult :: u32 where
  "mult = (let a = 1000; b = 3; m = a * b in m)"

text \<open>\<open>>>\<close> on a negative number is the arithmetic shift of the compiler used.\<close>

definition shift_main :: "u32 \<times> u32" where
  "shift_main = (let x = 1; y = - 31; x = push_bit 4 x; y = signed_drop_bit 4 y in (x, y))"

text \<open>Addition of \<open>long long\<close>: undefined on overflow.\<close>

definition add_ll :: "u64 \<Rightarrow> u64 \<Rightarrow> u64 option" where
  "add_ll a b = (if - (2 ^ 63) \<le> sint a + sint b \<and> sint a + sint b < 2 ^ 63 then Some (a + b) else None)"

definition add64_main :: "u64 option" where
  "add64_main = (let a = 0x7fffffffffffffff; b = 7 in add_ll a b)"

lemma add_ll_exact: "add_ll a b = Some r \<Longrightarrow> sint r = sint a + sint b"
  by (auto simp: add_ll_def sint_word_ariths signed_take_bit_int_eq_self_iff split: if_splits)

lemma arithmetic_results: "mult = 3000" "shift_main = (16, - 2)" "add64_main = None"
proof -
  have "signed_drop_bit 4 (- 31 :: u32) = - 2"
    by (rule signed_word_eqI) (simp add: sint_signed_drop_bit_eq)
  then show "shift_main = (16, - 2)" by (simp add: shift_main_def Let_def)
qed (simp_all add: mult_def add64_main_def add_ll_def Let_def)

section \<open>Global variables\<close>

record globals =
  ary :: "u32 list"
  gx :: u32
  gy :: u32
  gw :: u32
  gc :: u32
  jaja :: u32
  gerrno :: u32

definition global_init :: globals where
  "global_init = \<lparr>ary = [2, 4, 5, 6, 9] @ replicate 15 0, gx = 0xffff, gy = 0, gw = 0, gc = 10,
     jaja = - 2, gerrno = 0\<rparr>"

definition global_main :: "u8 list \<Rightarrow> globals \<Rightarrow> (globals \<times> u8 list, u32) outcome" where
  "global_main buf g =
     (let buf = buf[0 := 65];
          g = g\<lparr>gerrno := - 1\<rparr>;
          g = g\<lparr>gx := gx g + 1\<rparr>;
          g = g\<lparr>gy := 0x12345678\<rparr>;
          g = g\<lparr>gw := 0x90abcdef\<rparr>;
          g = g\<lparr>gx := gc g\<rparr>;
          g = g\<lparr>gerrno := 0\<rparr>;
          g = g\<lparr>jaja := jaja g + 1\<rparr>
      in Done 0 (g, buf))"

section \<open>Strings\<close>

text \<open>The functions of \<open>string.h\<close> on arrays; \<open>None\<close> is a copy that does not fit. The value of
  \<open>strcmp\<close> is the library's, C fixes its sign only.\<close>

definition strcpy :: "u8 list \<Rightarrow> u8 list \<Rightarrow> u8 list option" where
  "strcpy to src = (let t = c_str src @ [0] in
     if length t \<le> length to then Some (t @ drop (length t) to) else None)"

definition strcat :: "u8 list \<Rightarrow> u8 list \<Rightarrow> u8 list option" where
  "strcat to src = (let t = c_str to @ c_str src @ [0] in
     if 0 \<in> set to \<and> length t \<le> length to then Some (t @ drop (length t) to) else None)"

definition string_main :: "(u8 list \<Rightarrow> u8 list \<Rightarrow> u32) \<Rightarrow> u8 list \<Rightarrow> (u8 list \<times> u32) option" where
  "string_main strcmp to =
     (let str = bytes ''Hello this is a string'' @ [0];
          x = of_nat (length (c_str str)) :: u32
      in case strcpy to str of None \<Rightarrow> None | Some to \<Rightarrow>
      (case strcat to (bytes ''! And it works!'' @ [0]) of None \<Rightarrow> None | Some to \<Rightarrow>
      (let x = strcmp (bytes ''Hello'' @ [0]) str in Some (to, x))))"

lemma string_main_result:
  assumes "length to = 100"
  shows "\<exists>to'. string_main strcmp to = Some (to', strcmp (bytes ''Hello'' @ [0]) (bytes ''Hello this is a string'' @ [0]))
    \<and> c_str to' = bytes ''Hello this is a string! And it works!'' \<and> length to' = 100"
  using assms by (simp add: string_main_def strcpy_def strcat_def c_str_def Let_def)

section \<open>Blocks of memory\<close>

text \<open>The heap functions of the C library, on the machine (\<open>realloc\<close> copies, \<open>calloc\<close> clears) and
  the allocator's own state.\<close>

record 'h heap_ops =
  op_malloc :: "u32 \<Rightarrow> machine \<times> 'h \<Rightarrow> u32 \<times> machine \<times> 'h"
  op_free :: "u32 \<Rightarrow> machine \<times> 'h \<Rightarrow> machine \<times> 'h"
  op_realloc :: "u32 \<Rightarrow> u32 \<Rightarrow> machine \<times> 'h \<Rightarrow> u32 \<times> machine \<times> 'h"
  op_calloc :: "u32 \<Rightarrow> u32 \<Rightarrow> machine \<times> 'h \<Rightarrow> u32 \<times> machine \<times> 'h"

fun on_mem :: "(machine \<Rightarrow> (machine, 'a) outcome) \<Rightarrow> machine \<times> 'h \<Rightarrow> (machine \<times> 'h, 'a) outcome" where
  "on_mem f (m, h) = (case f m of
       Done a m \<Rightarrow> Done a (m, h)
     | Stuck m \<Rightarrow> Stuck (m, h)
     | Fault e m \<Rightarrow> Fault e (m, h)
     | Jumped a m \<Rightarrow> Jumped a (m, h))"

text \<open>\<open>for (int i = 0; i < n; i++) p[i] = ...;\<close> on an array of \<open>char\<close> and of \<open>int\<close>.\<close>

fun fill_chars :: "u32 \<Rightarrow> u8 list \<Rightarrow> machine \<Rightarrow> (machine, unit) outcome" where
  "fill_chars p [] m = Done () m"
| "fill_chars p (c # cs) m = andthen (store8 p c m) (\<lambda>_ m. fill_chars (p + 1) cs m)"

fun fill_ints :: "u32 \<Rightarrow> u32 list \<Rightarrow> machine \<Rightarrow> (machine, unit) outcome" where
  "fill_ints p [] m = Done () m"
| "fill_ints p (v # vs) m = andthen (store32 p v m) (\<lambda>_ m. fill_ints (p + 4) vs m)"

definition malloc_main :: "'h heap_ops \<Rightarrow> machine \<times> 'h \<Rightarrow> (machine \<times> 'h, u32) outcome" where
  "malloc_main H s =
     (case op_malloc H 100 s of (pchar, s) \<Rightarrow>
      andthen (on_mem (fill_chars pchar (replicate 100 65)) s) (\<lambda>_ s.
      case op_malloc H 50 (op_free H pchar s) of (pchar, s) \<Rightarrow>
      andthen (on_mem (fill_chars pchar (map (\<lambda>i. 65 + of_nat i) [0..<50])) s) (\<lambda>_ s.
      case op_malloc H 100 (op_free H pchar s) of (pint, s) \<Rightarrow>
      andthen (on_mem (fill_ints pint (replicate 25 (- 1))) s) (\<lambda>_ s.
      case op_realloc H pint 120 s of (pint, s) \<Rightarrow>
      andthen (on_mem (fill_ints pint (replicate 25 (- 1000))) s) (\<lambda>_ s.
      case op_calloc H 25 4 (op_free H pint s) of (pintca, s) \<Rightarrow>
      andthen (on_mem (fill_ints pintca (replicate 25 0x11111111)) s) (\<lambda>_ s. Done 0 s))))))"

text \<open>No result is compared with \<open>NULL\<close>: without memory the first store is to address 0, which
  does not take bytes.\<close>

lemma malloc_main_no_memory:
  "op_malloc H 100 s = (0, m, h) \<Longrightarrow> malloc_main H s = Fault (Store_Misaligned 0) (m, h)"
  by (simp add: malloc_main_def store8_def region_def numeral_eq_Suc)

text \<open>In RAM the loops go through.\<close>

definition in_ram :: "u32 \<Rightarrow> nat \<Rightarrow> bool" where
  "in_ram p n \<longleftrightarrow> list_all (\<lambda>i. region (p + of_nat i) = 2) [0..<n]"

lemma in_ram_Suc: "in_ram p (Suc n) \<longleftrightarrow> region p = 2 \<and> in_ram (p + 1) n"
  unfolding in_ram_def by (rule list_all_upt_word)

lemma fill_chars_ram: "in_ram p (length cs) \<Longrightarrow> \<exists>f. fill_chars p cs m = Done () (m\<lparr>mem := f\<rparr>)"
proof (induction cs arbitrary: p m)
  case Nil
  then show ?case by (intro exI [of _ "mem m"]) simp
next
  case (Cons c cs)
  have r: "region p = 2" "in_ram (p + 1) (length cs)" using Cons.prems by (simp_all add: in_ram_Suc)
  show ?case using Cons.IH [OF r(2), of "m\<lparr>mem := (mem m)(p := c)\<rparr>"] r(1) by (auto simp: store8_def)
qed

lemma fill_ints_ram:
  "in_ram p (4 * length vs) \<Longrightarrow> p AND 3 = 0 \<Longrightarrow> \<exists>f. fill_ints p vs m = Done () (m\<lparr>mem := f\<rparr>)"
proof (induction vs arbitrary: p m)
  case Nil
  then show ?case by (intro exI [of _ "mem m"]) simp
next
  case (Cons v vs)
  have r: "region p = 2" "in_ram (p + 4) (4 * length vs)"
  proof -
    have "in_ram p (Suc (Suc (Suc (Suc (4 * length vs)))))" using Cons.prems(1) by (simp add: numeral_eq_Suc)
    then show "region p = 2" "in_ram (p + 4) (4 * length vs)"
      unfolding in_ram_Suc by (simp_all add: add.assoc)
  qed
  have "store32 p v m = Done () (m\<lparr>mem := set_word (mem m) p v\<rparr>)"
    using r(1) Cons.prems(2) by (intro store32_mem) (simp_all add: writable_def)
  then show ?case
    using Cons.IH [OF r(2) aligned_next [OF Cons.prems(2)], of "m\<lparr>mem := set_word (mem m) p v\<rparr>"] by auto
qed

end
