(* ===== verification/FloatDemos.thy ===== *)
theory FloatDemos
  imports Complex_Main Interval
begin

text \<open>
  The floating point programs: \<open>CODE/float\<close>, \<open>CODE/double\<close>, \<open>CODE/exp\<close>, \<open>CODE/basel_problem\<close>,
  \<open>CODE/riemann_left\<close>, \<open>CODE/trig\<close>, and the tests of formatted output \<open>CODE/usart_sprintf\<close>,
  \<open>CODE/usart_printf\<close> and \<open>CODE/sprintf\<close>. Arithmetic, the mathematical functions and the text of
  a floating point number are those of the compiler's run-time library and of the C library:
  they are the parameter of type \<open>arith\<close>, one for each of \<open>float\<close> and \<open>double\<close>. The lemmas evaluate
  the programs in the arithmetic of the real numbers, and bound the texts in the buffers.
\<close>

section \<open>Arithmetic\<close>

record 'f arith =
  plus_f :: "'f \<Rightarrow> 'f \<Rightarrow> 'f"
  minus_f :: "'f \<Rightarrow> 'f \<Rightarrow> 'f"
  times_f :: "'f \<Rightarrow> 'f \<Rightarrow> 'f"
  div_f :: "'f \<Rightarrow> 'f \<Rightarrow> 'f"
  from_int :: "int \<Rightarrow> 'f"
  literal :: "string \<Rightarrow> 'f"
  sin_f :: "'f \<Rightarrow> 'f"
  asin_f :: "'f \<Rightarrow> 'f"
  tan_f :: "'f \<Rightarrow> 'f"
  log_f :: "'f \<Rightarrow> 'f"

section \<open>The programs\<close>

text \<open>The values a volatile variable takes, one after the other.\<close>

definition float_main :: "'f arith \<Rightarrow> 'f list" where
  "float_main A =
     (let f = literal A ''1.0'';
          f1 = plus_f A f (literal A ''2.0'');
          f2 = div_f A f1 (literal A ''-3.0'');
          f3 = times_f A f2 (literal A ''-25.0'')
      in [f, f1, f2, f3])"

definition double_main :: "'d arith \<Rightarrow> 'd list" where
  "double_main A =
     (let x = literal A ''1.0'';
          x1 = plus_f A x x;
          x2 = times_f A x1 (literal A ''-3.0'');
          x3 = div_f A x2 (literal A ''3.0'');
          x4 = literal A ''0.6'';
          x5 = minus_f A x4 (literal A ''0.31'')
      in [x, x1, x2, x3, x4, x5])"

text \<open>\<open>for (i = 1; i < 20; i++)\<close>, with \<open>e\<close> and \<open>fac\<close>.\<close>

fun exp_loop :: "'f arith \<Rightarrow> nat \<Rightarrow> nat \<Rightarrow> 'f \<times> 'f \<Rightarrow> 'f \<times> 'f" where
  "exp_loop A 0 i s = s"
| "exp_loop A (Suc n) i (e, fac) =
     (let e = plus_f A e (div_f A (literal A ''1.0'') fac);
          fac = times_f A fac (from_int A (int i))
      in exp_loop A n (i + 1) (e, fac))"

definition exp_main :: "'f arith \<Rightarrow> 'f \<times> 'f" where
  "exp_main A = exp_loop A (20 - 1) 1 (literal A ''0.0'', literal A ''1.0'')"

text \<open>\<open>for (k = 1; k <= n; k++)\<close>.\<close>

fun basel_loop :: "'f arith \<Rightarrow> nat \<Rightarrow> nat \<Rightarrow> 'f \<Rightarrow> 'f" where
  "basel_loop A 0 k basel = basel"
| "basel_loop A (Suc n) k basel =
     basel_loop A n (k + 1) (plus_f A basel (div_f A (literal A ''1.0'') (from_int A (int k * int k))))"

definition basel_main :: "'f arith \<Rightarrow> 'f" where
  "basel_main A = basel_loop A 1000 1 (literal A ''0.0'')"

definition riemann_f :: "'f arith \<Rightarrow> 'f \<Rightarrow> 'f" where
  "riemann_f A x = (let y = sin_f A x in times_f A y y)"

fun riemann_loop :: "'f arith \<Rightarrow> 'f \<Rightarrow> 'f \<Rightarrow> nat \<Rightarrow> nat \<Rightarrow> 'f \<Rightarrow> 'f" where
  "riemann_loop A a deltax 0 k s = s"
| "riemann_loop A a deltax (Suc n) k s =
     riemann_loop A a deltax n (k + 1)
       (plus_f A s (times_f A (riemann_f A (plus_f A a (times_f A (from_int A (int k)) deltax))) deltax))"

definition riemann_main :: "'f arith \<Rightarrow> 'f" where
  "riemann_main A =
     (let n = 10;
          a = literal A ''0.0'';
          b = literal A ''6.28318530717958647692'';
          deltax = div_f A (minus_f A b a) (from_int A (int n))
      in riemann_loop A a deltax n 0 (literal A ''0.0''))"

text \<open>Texts of numbers: \<open>fix p x\<close> is \<open>x\<close> with \<open>p\<close> digits after the point. A \<open>float\<close> argument is
  passed as a \<open>double\<close>.\<close>

definition sprintf_puts :: "nat \<Rightarrow> u8 list \<Rightarrow> machine \<Rightarrow> (machine, unit) outcome" where
  "sprintf_puts n t m = (if length t < n then usart_puts (Some (t @ [0])) m else Fault Out_Of_Bounds m)"

definition trig_text :: "(nat \<Rightarrow> 'd \<Rightarrow> u8 list) \<Rightarrow> string \<Rightarrow> 'd \<Rightarrow> nat \<Rightarrow> 'd \<Rightarrow> u8 list" where
  "trig_text fix nm w p x = bytes nm @ [40] @ fix 6 w @ bytes '') = '' @ fix p x @ [13, 10]"

fun puts_all :: "u8 list list \<Rightarrow> machine \<Rightarrow> (machine, unit) outcome" where
  "puts_all [] m = Done () m"
| "puts_all (t # ts) m = andthen (sprintf_puts 60 t m) (\<lambda>_ m. puts_all ts m)"

definition trig_main :: "'f arith \<Rightarrow> 'd arith \<Rightarrow> ('f \<Rightarrow> 'd) \<Rightarrow> (nat \<Rightarrow> 'd \<Rightarrow> u8 list) \<Rightarrow> machine
    \<Rightarrow> (machine, int) outcome" where
  "trig_main A D widen fix m =
     andthen (puts (''Some float and double math calculations'' @ [CR, LF]) (usart_init m)) (\<lambda>_ m.
     let w = literal A ''1.0''; y = literal D ''1.0'' in
     andthen (puts_all
       [trig_text fix ''sinf'' (widen w) 10 (widen (sin_f A w)),
        trig_text fix ''asinf'' (widen w) 10 (widen (asin_f A w)),
        trig_text fix ''logf'' (widen w) 10 (widen (log_f A w)),
        trig_text fix ''sin'' (widen w) 20 (sin_f D y),
        trig_text fix ''asin'' (widen w) 20 (asin_f D y),
        trig_text fix ''tan'' (widen w) 20 (tan_f D (widen w)),
        trig_text fix ''log'' (widen w) 20 (log_f D y)] m) (\<lambda>_ m. Done 0 m))"

definition printf_text :: "'f arith \<Rightarrow> 'd arith \<Rightarrow> ('f \<Rightarrow> 'd) \<Rightarrow> (nat \<Rightarrow> 'd \<Rightarrow> u8 list) \<Rightarrow> u32 \<Rightarrow> u8 list" where
  "printf_text A D widen fix pc =
     (let j = 2; k = literal A ''1.2''; l = literal D ''0.6''; m = 0x7fffffffffffffff
      in int_str j @ [32] @ ptr_str pc @ [32] @ fix 20 (widen k) @ [32] @ fix 20 l @ [32] @ int_str m @ [13, 10])"

definition usart_sprintf_main :: "'f arith \<Rightarrow> 'd arith \<Rightarrow> ('f \<Rightarrow> 'd) \<Rightarrow> (nat \<Rightarrow> 'd \<Rightarrow> u8 list) \<Rightarrow> u32
    \<Rightarrow> machine \<Rightarrow> (machine, int) outcome" where
  "usart_sprintf_main A D widen fix pc m =
     andthen (sprintf_puts 100 (printf_text A D widen fix pc) (usart_init m)) (\<lambda>_ m. Done 0 m)"

text \<open>\<open>printf\<close> hands its text to \<open>_write\<close>, and that to the program's \<open>__io_putchar\<close>.\<close>

definition pf_io_putchar :: "u32 \<Rightarrow> machine \<Rightarrow> (machine, u32) outcome" where
  "pf_io_putchar ch m = andthen (usart_putc ch m) (\<lambda>_ m. Done 1 m)"

fun print_chars :: "u8 list \<Rightarrow> machine \<Rightarrow> (machine, unit) outcome" where
  "print_chars [] m = Done () m"
| "print_chars (c # cs) m = andthen (pf_io_putchar (ucast c) m) (\<lambda>_ m. print_chars cs m)"

definition usart_printf_main :: "'f arith \<Rightarrow> 'd arith \<Rightarrow> ('f \<Rightarrow> 'd) \<Rightarrow> (nat \<Rightarrow> 'd \<Rightarrow> u8 list) \<Rightarrow> u32
    \<Rightarrow> machine \<Rightarrow> (machine, int) outcome" where
  "usart_printf_main A D widen fix pc m =
     andthen (print_chars (printf_text A D widen fix pc) (usart_init m)) (\<lambda>_ m. Done 0 m)"

text \<open>\<open>char str[60]\<close>, filled with \<open>A\<close>; \<open>None\<close> is a text that does not fit.\<close>

definition sprintf_str :: "u8 list" where
  "sprintf_str = replicate 48 65 @ replicate 12 0"

definition sprintf_main :: "'d arith \<Rightarrow> (nat \<Rightarrow> 'd \<Rightarrow> u8 list) \<Rightarrow> u8 list \<Rightarrow> u8 list option" where
  "sprintf_main D fix str =
     (let t = bytes ''| '' @ int_str 1234 @ bytes '' | '' @ fix 6 (literal D ''1.2'') @ bytes '' | ''
            @ dec_str 0x7fffffffffff @ bytes '' |'' @ [0]
      in if length t \<le> length str then Some (t @ drop (length t) str) else None)"

text \<open>The host programs that print the representation of a \<open>double\<close>; \<open>bits\<close> reads the union.\<close>

definition union_line :: "(nat \<Rightarrow> 'd \<Rightarrow> u8 list) \<Rightarrow> ('d \<Rightarrow> u64) \<Rightarrow> nat \<Rightarrow> 'd \<Rightarrow> u8 list" where
  "union_line fix bits p x = fix p x @ bytes '' = '' @ pad 48 16 (hex_str (unat (bits x))) @ [10]"

definition test_double_main :: "'d arith \<Rightarrow> (nat \<Rightarrow> 'd \<Rightarrow> u8 list) \<Rightarrow> ('d \<Rightarrow> u64) \<Rightarrow> u8 list" where
  "test_double_main D fix bits =
     (let x = literal D ''1.0''; t1 = union_line fix bits 16 x;
          x = plus_f D x x; t2 = union_line fix bits 16 x;
          x = times_f D x (literal D ''-3.0''); t3 = union_line fix bits 16 x;
          x = div_f D x (literal D ''3.0''); t4 = union_line fix bits 16 x;
          x = literal D ''0.6''; t5 = union_line fix bits 20 x;
          x = minus_f D x (literal D ''0.31''); t6 = union_line fix bits 20 x
      in t1 @ t2 @ t3 @ t4 @ t5 @ t6)"

definition test_trig_main :: "'d arith \<Rightarrow> (nat \<Rightarrow> 'd \<Rightarrow> u8 list) \<Rightarrow> ('d \<Rightarrow> u64) \<Rightarrow> u8 list" where
  "test_trig_main D fix bits =
     (let x = literal D ''1.0'';
          x = sin_f D x; t1 = union_line fix bits 16 x;
          x = literal D ''1.0'';
          x = asin_f D x; t2 = union_line fix bits 16 x;
          x = literal D ''1.0'';
          x = log_f D x; t3 = union_line fix bits 16 x
      in t1 @ t2 @ t3)"

section \<open>In the arithmetic of the reals\<close>

text \<open>A decimal literal: an optional sign, digits, a point, digits.\<close>

fun decimal_of :: "real \<Rightarrow> string \<Rightarrow> real" where
  "decimal_of v [] = v"
| "decimal_of v (c # cs) = (if c = CHR ''.''
     then foldl (\<lambda>x d. x * 10 + (of_char d - 48)) v cs / 10 ^ length cs
     else decimal_of (v * 10 + (of_char c - 48)) cs)"

definition real_literal :: "string \<Rightarrow> real" where
  "real_literal s = (case s of c # cs \<Rightarrow> if c = CHR ''-'' then - decimal_of 0 cs else decimal_of 0 s | [] \<Rightarrow> 0)"

definition exact :: "real arith" where
  "exact = \<lparr>plus_f = (+), minus_f = (-), times_f = (*), div_f = (/), from_int = of_int,
     literal = real_literal, sin_f = sin, asin_f = arcsin, tan_f = tan, log_f = ln\<rparr>"

lemma exact_simps [simp]:
  "plus_f exact = (+)" "minus_f exact = (-)" "times_f exact = (*)" "div_f exact = (/)"
  "from_int exact = of_int" "literal exact = real_literal" "sin_f exact = sin" "log_f exact = ln"
  by (simp_all add: exact_def)

lemma literals [simp]:
  "real_literal ''0.0'' = 0" "real_literal ''1.0'' = 1" "real_literal ''2.0'' = 2" "real_literal ''3.0'' = 3"
  "real_literal ''-3.0'' = - 3" "real_literal ''-25.0'' = - 25" "real_literal ''0.6'' = 6 / 10"
  "real_literal ''0.31'' = 31 / 100"
  by (simp_all add: real_literal_def)

lemma float_main_exact: "float_main exact = [1, 3, - 1, 25]"
  by (simp add: float_main_def Let_def)

lemma double_main_exact: "double_main exact = [1, 2, - 6, - 2, 0.6, 0.29]"
  by (simp add: double_main_def Let_def)

text \<open>Euler's number, the Basel problem and the Riemann sum: the loops add up what they should.\<close>

lemma exp_loop_exact:
  "exp_loop exact n (Suc j) (\<Sum>k<j. 1 / fact k, fact j) = (\<Sum>k<j + n. 1 / fact k, fact (j + n))"
proof (induction n arbitrary: j)
  case (Suc n)
  have "exp_loop exact (Suc n) (Suc j) (\<Sum>k<j. 1 / fact k, fact j)
      = exp_loop exact n (Suc (Suc j)) (\<Sum>k<Suc j. 1 / fact k, fact (Suc j))"
    by (simp add: mult.commute)
  then show ?case using Suc.IH [of "Suc j"] by simp
qed simp

lemma exp_main_exact: "exp_main exact = (\<Sum>k<19. 1 / fact k, fact 19)"
  using exp_loop_exact [of 19 0] by (simp add: exp_main_def)

lemma basel_loop_exact: "basel_loop exact n k s = s + (\<Sum>j = k..<k + n. 1 / (real j)\<^sup>2)"
proof (induction n arbitrary: k s)
  case (Suc n)
  have "(\<Sum>j = k..<k + Suc n. 1 / (real j)\<^sup>2) = 1 / (real k)\<^sup>2 + (\<Sum>j = Suc k..<Suc k + n. 1 / (real j)\<^sup>2)"
    by (simp add: sum.atLeast_Suc_lessThan)
  then show ?case using Suc.IH [of "k + 1"] by (simp add: power2_eq_square)
qed simp

lemma basel_main_exact: "basel_main exact = (\<Sum>j = 1..1000. 1 / (real j)\<^sup>2)"
proof -
  have "{1..<1001} = {1..1000 :: nat}" by auto
  then show ?thesis by (simp add: basel_main_def basel_loop_exact)
qed

lemma riemann_loop_exact:
  "riemann_loop exact a d n k s = s + (\<Sum>j = k..<k + n. (sin (a + real j * d))\<^sup>2 * d)"
proof (induction n arbitrary: k s)
  case (Suc n)
  have "(\<Sum>j = k..<k + Suc n. (sin (a + real j * d))\<^sup>2 * d)
      = (sin (a + real k * d))\<^sup>2 * d + (\<Sum>j = Suc k..<Suc k + n. (sin (a + real j * d))\<^sup>2 * d)"
    by (simp add: sum.atLeast_Suc_lessThan)
  then show ?case using Suc.IH [of "k + 1"] by (simp add: riemann_f_def Let_def power2_eq_square)
qed simp

lemma riemann_main_exact:
  "riemann_main exact = (\<Sum>k<10. (sin (real k * (real_literal ''6.28318530717958647692'' / 10)))\<^sup>2
     * (real_literal ''6.28318530717958647692'' / 10))"
  by (simp add: riemann_main_def riemann_loop_exact Let_def atLeast0LessThan)

section \<open>The texts fit\<close>

text \<open>\<open>fix\<close> prints numbers of one digit before the point.\<close>

definition short_fix :: "(nat \<Rightarrow> 'd \<Rightarrow> u8 list) \<Rightarrow> bool" where
  "short_fix fix \<longleftrightarrow> (\<forall>p x. length (fix p x) \<le> p + 3 \<and> 0 \<notin> set (fix p x))"

lemma trig_text_fits:
  assumes "short_fix fix" and "length nm \<le> 5" and "0 \<notin> set (bytes nm)" and "p \<le> 20"
  shows "0 \<notin> set (trig_text fix nm w p x)" and "length (trig_text fix nm w p x) < 60"
proof -
  have "length (fix 6 w) \<le> 6 + 3 \<and> 0 \<notin> set (fix 6 w)" "length (fix p x) \<le> p + 3 \<and> 0 \<notin> set (fix p x)"
    using assms(1) unfolding short_fix_def by blast+
  then show "0 \<notin> set (trig_text fix nm w p x)" "length (trig_text fix nm w p x) < 60"
    using assms(2-4) by (auto simp: trig_text_def)
qed

lemma puts_all_timed:
  "list_all (\<lambda>t. 0 \<notin> set t \<and> length t < 60) ts \<Longrightarrow> \<exists>k. puts_all ts m = Done () k \<and> timed [] (concat ts) m k"
proof (induction ts arbitrary: m)
  case (Cons t ts)
  have t: "0 \<notin> set t" "length t < 60" using Cons.prems by simp_all
  obtain j where j: "usart_puts (Some (t @ [0])) m = Done () j" "timed [] t m j"
    using puts_timed [OF t(1)] by blast
  obtain k where "puts_all ts j = Done () k" "timed [] (concat ts) j k"
    using Cons by auto
  then show ?case using j t timed_says [OF j(2)] by (auto simp: sprintf_puts_def)
qed auto

lemma trig_main_returns:
  assumes "short_fix fix"
  shows "\<exists>k os. trig_main A D widen fix m = Done 0 k
    \<and> line_out k = line_out m @ bytes (''Some float and double math calculations'' @ [CR, LF]) @ os"
proof -
  let ?s = "''Some float and double math calculations'' @ [CR, LF]"
  obtain j where j: "puts ?s (usart_init m) = Done () j" "timed [] (bytes ?s) (usart_init m) j"
    using literal_timed [of ?s "usart_init m"] by auto
  let ?w = "literal A ''1.0''" and ?y = "literal D ''1.0''"
  let ?ts = "[trig_text fix ''sinf'' (widen ?w) 10 (widen (sin_f A ?w)), trig_text fix ''asinf'' (widen ?w) 10 (widen (asin_f A ?w)),
    trig_text fix ''logf'' (widen ?w) 10 (widen (log_f A ?w)), trig_text fix ''sin'' (widen ?w) 20 (sin_f D ?y),
    trig_text fix ''asin'' (widen ?w) 20 (asin_f D ?y), trig_text fix ''tan'' (widen ?w) 20 (tan_f D (widen ?w)),
    trig_text fix ''log'' (widen ?w) 20 (log_f D ?y)]"
  have "list_all (\<lambda>t. 0 \<notin> set t \<and> length t < 60) ?ts"
    by (simp add: trig_text_fits [OF assms])
  then obtain k where k: "puts_all ?ts j = Done () k" "timed [] (concat ?ts) j k"
    using puts_all_timed by blast
  have "trig_main A D widen fix m = Done 0 k"
    by (simp only: trig_main_def Let_def j(1) k(1) andthen.simps)
  moreover have "line_out (usart_init m) = line_out m" by (simp add: usart_init_def)
  ultimately show ?thesis
    using timed_out [OF k(2)] timed_out [OF j(2)] by (metis append.assoc)
qed

lemma printf_text_fits:
  assumes "short_fix fix"
  shows "length (printf_text A D widen fix pc) < 100"
proof -
  have f: "length (fix 20 x) \<le> 20 + 3" for x using assms unfolding short_fix_def by blast
  have p: "length (ptr_str pc) \<le> 10"
  proof -
    have "unat pc < 16 ^ 8" using unsigned_less [of pc, where 'a = nat] by simp
    then have "length (hex_str (unat pc)) \<le> 8" by (rule length_num_str) simp_all
    then show ?thesis by (simp add: ptr_str_def)
  qed
  have n: "length (int_str 2) \<le> 1" "length (int_str 0x7fffffffffffffff) \<le> 19"
    using length_num_str [of 2 10 1] length_num_str [of "0x7fffffffffffffff" 10 19] by (simp_all add: int_str_def)
  show ?thesis
    using f [of "widen (literal A ''1.2'')"] f [of "literal D ''0.6''"] p n by (simp add: printf_text_def Let_def)
qed

lemma print_chars_timed: "\<exists>k. print_chars cs m = Done () k \<and> timed [] cs m k"
proof (induction cs arbitrary: m)
  case (Cons c cs)
  obtain j where j: "usart_putc (ucast c) m = Done () j" "timed [] [c] m j"
    using usart_putc_timed [of "ucast c" m] by auto
  obtain k where "print_chars cs j = Done () k" "timed [] cs j k" using Cons by blast
  then show ?case using j timed_says [OF j(2)] by (auto simp: pf_io_putchar_def)
qed auto

text \<open>The two programs print the same text.\<close>

lemma printf_and_sprintf_agree:
  assumes "short_fix fix" and "0 \<notin> set (printf_text A D widen fix pc)"
  shows "\<exists>k j. usart_printf_main A D widen fix pc m = Done 0 k \<and> usart_sprintf_main A D widen fix pc m = Done 0 j
    \<and> line_out k = line_out m @ printf_text A D widen fix pc \<and> line_out j = line_out k"
proof -
  let ?t = "printf_text A D widen fix pc"
  obtain k where k: "print_chars ?t (usart_init m) = Done () k" "timed [] ?t (usart_init m) k"
    using print_chars_timed by blast
  obtain j where j: "usart_puts (Some (?t @ [0])) (usart_init m) = Done () j" "timed [] ?t (usart_init m) j"
    using puts_timed [OF assms(2)] by blast
  have "line_out (usart_init m) = line_out m" by (simp add: usart_init_def)
  then show ?thesis
    using k j timed_out [OF k(2)] timed_out [OF j(2)] printf_text_fits [OF assms(1), of A D widen pc]
    by (simp add: usart_printf_main_def usart_sprintf_main_def sprintf_puts_def)
qed

end
