(* ===== verification/LibTests.thy ===== *)
theory LibTests
  imports FloatDemos CDemos Syscalls
begin

text \<open>
  Two tests that go through a library: \<open>CODE/syscalls/test.c\<close>, which calls the heap, the output and the
  floating point functions once each, and \<open>CODE/usart_cpp/usart.cpp\<close>, the C++ variant of the driver,
  a singleton with a virtual \<open>putchar\<close>.
\<close>

section \<open>Library calls\<close>

text \<open>\<open>hallo\<close> is the address of the literal; the result holds the values of the volatile \<open>pi\<close>.\<close>

definition libcalls_main :: "sysenv \<Rightarrow> 'h heap_ops \<Rightarrow> 'f arith \<Rightarrow> u32 \<Rightarrow> machine \<times> 'h
    \<Rightarrow> (machine \<times> 'h, 'f list \<times> int) outcome" where
  "libcalls_main E H A hallo s =
     (case op_malloc H 100 s of (p, s) \<Rightarrow>
      andthen (on_mem (store8 p 65) s) (\<lambda>_ s.
      andthen (on_mem (lib_write E hallo 5) s) (\<lambda>_ s.
      let pi = literal A ''3.14159'';
          pi1 = times_f A (literal A ''10.0'') pi;
          pi2 = div_f A pi1 (literal A ''100.0'')
      in Done ([pi, pi1, pi2], 0) s)))"

text \<open>The program does not define \<open>__io_putchar\<close>: \<open>write\<close> reads its buffer and drops it.\<close>

lemma write_chars_weak:
  assumes "putchar E = weak_io_putchar" and "list_all (\<lambda>i. region (p + of_nat i) \<noteq> 15) [0..<n]"
  shows "write_chars E n p m = Done () m"
  using assms(2)
proof (induction n arbitrary: p)
  case (Suc n)
  have "region p \<noteq> 15" "list_all (\<lambda>i. region ((p + 1) + of_nat i) \<noteq> 15) [0..<n]"
    using Suc.prems list_all_upt_word [of "\<lambda>x. region x \<noteq> 15" p n] by blast+
  then show ?case using Suc.IH [of "p + 1"] by (simp add: load8_def assms(1) weak_io_putchar_def)
qed simp

lemma libcalls_main_returns:
  assumes "putchar E = weak_io_putchar" and "list_all (\<lambda>i. region (hallo + of_nat i) \<noteq> 15) [0..<5]"
    and "op_malloc H 100 s = (p, m, h)" and "region p = 2"
  shows "libcalls_main E H exact hallo s
    = Done ([3.14159, 31.4159, 0.314159], 0) (m\<lparr>mem := (mem m)(p := 65)\<rparr>, h)"
proof -
  have "nat (sint (5 :: u32)) = 5" by simp
  then have "lib_write E hallo 5 k = Done 5 k" for k
    using write_chars_weak [OF assms(1,2)] by (simp add: lib_write_chars)
  then show ?thesis
    using assms(3,4) by (simp add: libcalls_main_def store8_def real_literal_def Let_def)
qed

section \<open>The driver in C++\<close>

text \<open>The static object in \<open>getUsart1\<close> is constructed at the first call: the flag says whether it has
  been.\<close>

definition Usart1_new :: "machine \<Rightarrow> machine" where
  "Usart1_new m = io_write UBAUD (50000000 div 9600 - 1) m"

definition getUsart1 :: "machine \<times> bool \<Rightarrow> machine \<times> bool" where
  "getUsart1 s = (case s of (m, made) \<Rightarrow> if made then (m, made) else (Usart1_new m, True))"

definition Usart1_putchar :: "u8 \<Rightarrow> machine \<Rightarrow> (machine, unit) outcome" where
  "Usart1_putchar c m = (let m = io_write UDATA (ucast c) m in
     case wait_stat 0x10 m of None \<Rightarrow> Stuck m | Some m \<Rightarrow> Done () m)"

text \<open>\<open>print\<close> of the base class, with the \<open>putchar\<close> of the object.\<close>

fun print_loop :: "(u8 \<Rightarrow> machine \<Rightarrow> (machine, unit) outcome) \<Rightarrow> u8 list \<Rightarrow> machine \<Rightarrow> (machine, unit) outcome" where
  "print_loop put [] m = Fault Out_Of_Bounds m"
| "print_loop put (c # cs) m = (if c = 0 then Done () m else andthen (put c m) (\<lambda>_ m. print_loop put cs m))"

definition Usart_print :: "(u8 \<Rightarrow> machine \<Rightarrow> (machine, unit) outcome) \<Rightarrow> u8 list option \<Rightarrow> machine
    \<Rightarrow> (machine, unit) outcome" where
  "Usart_print put s m = (case s of None \<Rightarrow> Done () m | Some cs \<Rightarrow> print_loop put cs m)"

definition cpp_main :: "machine \<times> bool \<Rightarrow> (machine \<times> bool, int) outcome" where
  "cpp_main s = (let s = getUsart1 s in
     andthen (on_mem (Usart_print Usart1_putchar (Some (cstr (''Hello'' @ [CR, LF])))) s) (\<lambda>_ s. Done 0 s))"

text \<open>The C++ driver is the C driver.\<close>

lemma Usart1_putchar_usart: "Usart1_putchar c = usart_putc (ucast c)"
  by (rule ext) (simp add: Usart1_putchar_def usart_putc_def)

lemma Usart_print_usart: "Usart_print Usart1_putchar s = usart_puts s"
proof -
  have "print_loop Usart1_putchar cs = puts_by usart_putc cs" for cs
  proof (induction cs)
    case (Cons c cs)
    show ?case by (rule ext) (simp add: Cons.IH Usart1_putchar_usart [of c])
  qed (simp add: fun_eq_iff)
  then show ?thesis by (simp add: Usart_print_def usart_puts_def fun_eq_iff split: option.splits)
qed

text \<open>One object: the baud rate is set once.\<close>

lemma getUsart1_once: "getUsart1 (getUsart1 s) = getUsart1 s"
  by (simp add: getUsart1_def split: prod.splits)

lemma Usart1_new_init: "Usart1_new m = usart_init m"
  by (simp add: Usart1_new_def usart_init_def F_CPU_def BAUD_RATE_def)

lemma cpp_main_says_hello:
  "\<exists>k. cpp_main (m, False) = Done 0 (k, True) \<and> line_out k = line_out m @ bytes (''Hello'' @ [CR, LF])"
proof -
  obtain k where "puts (''Hello'' @ [CR, LF]) (usart_init m) = Done () k"
    "timed [] (bytes (''Hello'' @ [CR, LF])) (usart_init m) k"
    using literal_timed [of "''Hello'' @ [CR, LF]" "usart_init m"] by auto
  then show ?thesis
    using timed_out by (simp add: cpp_main_def getUsart1_def Usart_print_usart Usart1_new_init usart_init_def)
qed

end
