(* ===== verification/Spec2Isabelle.thy ===== *)
theory Spec2Isabelle
  imports BootProof Vectored Startup Syscalls MonitorProof SrecMifProof SrecVhdlProof UploadProof
    LinkedListProof Reset GpioDemos CDemos FloatDemos LibTests
begin

text \<open>
  Verification of the C software of riscv-minimal, a small RISC-V processor for an FPGA board.

  \<^bold>\<open>The program.\<close> The directory \<open>CODE\<close> of the repository holds the programs of the processor and the
  tools of the host. A boot loader (\<open>bootloader\<close>) waits for a file of S-records on the serial line,
  writes it to memory and starts it, or offers a small monitor. The host tool \<open>upload\<close> sends it such a
  file; \<open>srec2mif\<close> and \<open>srec2vhdl\<close> make the contents of the ROM from one. The programs of the target
  run on a start-up file, a library of system calls and, in two of them, a trap handler with timer
  and USART interrupts (\<open>interrupt_direct\<close>, \<open>interrupt_vectored\<close>). A stand-alone \<open>monitor\<close>, a list
  program, clocks, and small tests of switches, displays, compiler and C library complete the
  collection. All of them talk to the same memory-mapped devices, and most to a terminal through the
  same polling USART driver.

  \<^bold>\<open>The model.\<close> The machine is a record of its memory, the device registers and CSRs, and an environment:
  the characters that will arrive and when, how long a transmission takes, the input pins and how many
  microseconds pass at each access (\<open>Platform\<close>). C code is a function on the machine into \<open>outcome\<close>: it
  returns (\<open>Done\<close>), polls for ever (\<open>Stuck\<close>), faults (\<open>Fault\<close>, which includes leaving an array) or hands
  control to an address (\<open>Jumped\<close>); \<open>andthen\<close> is sequencing. Machine integers are words, so that wrap-around
  is that of the code. A loop that polls is a \<open>partial_function (option)\<close>, with \<open>None\<close> for never returning;
  a loop that consumes input terminates by the characters still to come; \<open>while (1)\<close> without exit is given
  by its number of rounds, and the theorems hold for every number. Host programs work on a record of
  files and output streams (\<open>HostC\<close>); there, \<open>None\<close> is an access outside an array.

  \<^bold>\<open>Theories and sources.\<close>
  \<^item> \<open>Prelude\<close>, \<open>Ctype\<close>, \<open>Format\<close>: types, outcomes, byte strings, character classes, printf conversions.
  \<^item> \<open>Platform\<close> (\<open>io.h\<close>), \<open>Serial\<close>: machine, registers, memory, and the serial line seen from a program; the
    locales \<open>byte_sink\<close>, \<open>byte_source\<close> and \<open>char_device\<close> of a character driver.
  \<^item> \<open>Usart\<close>, \<open>LineInput\<close>, \<open>Util\<close> (\<open>bootloader/usart.c\<close>, \<open>util.c\<close>): the driver, an instance of \<open>char_device\<close>,
    the line editor and the hexadecimal utilities. The other programs carry copies of these functions.
  \<^item> \<open>SrecText\<close>, \<open>BootUpload\<close>, \<open>BootMain\<close>, \<open>BootProof\<close> (\<open>bootloader/bootloader.c\<close>): the text of S-records and the
    memory image they describe, the receiver, the monitor, the whole boot loader.
  \<^item> \<open>SysTime\<close>, \<open>Clock\<close>: reading the 64-bit clock in halves, setting the compare register, the passage of time.
  \<^item> \<open>Handlers\<close>, \<open>Trap\<close>, \<open>TrapProof\<close>, \<open>Oblivious\<close>, \<open>Vectored\<close> (\<open>interrupt_direct\<close>, \<open>interrupt_vectored\<close>: \<open>handlers.c\<close>,
    \<open>interrupt.h\<close>, \<open>universal_handler.c\<close>): interrupt handlers, the register frame, dispatch, system calls.
  \<^item> \<open>Syscalls\<close>, \<open>Startup\<close> (\<open>syscalls/syscalls\<close>, \<open>crt/startup.c\<close>, \<open>bl_startup.c\<close>, the two \<open>startup.c\<close>).
  \<^item> \<open>Monitor\<close>, \<open>MonitorProof\<close> (\<open>monitor/monitor.c\<close>).
  \<^item> \<open>HostC\<close>, \<open>HostHex\<close>, \<open>SrecMif\<close>, \<open>SrecMifProof\<close>, \<open>SrecVhdl\<close>, \<open>SrecVhdlProof\<close>, \<open>Upload\<close>, \<open>UploadProof\<close>: the tools.
  \<^item> \<open>LinkedList\<close>, \<open>LinkedListProof\<close> (\<open>linked_list\<close>): nodes in a store; \<open>malloc\<close> is the locale \<open>allocator\<close>, with
    an instance on the model of \<open>_sbrk\<close>.
  \<^item> \<open>Interval\<close>, \<open>ShowTime\<close>, \<open>ShowTimeProof\<close> (\<open>interval\<close>, \<open>clock\<close>, the \<open>main.c\<close> of the interrupt programs): the
    programs that live on the clock; \<open>irq_step\<close> lets interrupts in between their rounds.
  \<^item> \<open>IrqSystem\<close>, \<open>IrqSystemProof\<close>, \<open>Reset\<close>: the same loop on the processor, where time, breakpoint and
    interrupts go through the trap handler (locales \<open>trap_handler\<close>, \<open>clock_call\<close>, \<open>irq_system\<close>, with both
    handlers as instances), its refinement of \<open>irq_step\<close>, and the way there from reset.
  \<^item> \<open>GpioDemos\<close>, \<open>CDemos\<close>, \<open>FloatDemos\<close>, \<open>LibTests\<close>: the small programs and the C++ variant of the driver.

  \<^bold>\<open>What is shown.\<close>
  \<^item> Boot loader: a well-formed file followed by J is what runs, from reset, with exactly the image of the
    file in memory; without a key the application is started; after \<open>#\<close> the monitor runs, which never
    faults or leaves its buffer whatever is typed, and whose commands read back what they write.
  \<^item> Upload and boot loader together: the transfer ends and leaves the image in memory. The converters agree
    with the boot loader on that image; so do the hexadecimal parsers of host and target.
  \<^item> Trap handlers: an interrupt is invisible to the program it interrupts; system calls do what they say on
    every branch; both variants agree but for the interval of their timer interrupt. The clock is never torn,
    and the compare register never fires early. Which value of the clock a handler has read is said by the
    number of accesses (ticks) before it: \<open>read_tick\<close>, \<open>clock_after\<close>, and \<open>timed\<close> for whole programs. The relation
    \<open>serial\<close> is about traffic only and leaves the clock open; no statement takes a time from it.
  \<^item> Start-up, heap and library: memory as the linker script wants it, heap blocks disjoint and below the stack.
  \<^item> Line editor: \<open>usart_gets\<close> refines an editor on lists and leaves a well-formed string.
  \<^item> Clock programs: they go on for ever, whatever interrupts come, and print times the clock had. Code that
    works on devices only is \<open>oblivious\<close> of memory; with this the loop with real trap handlers refines the
    loop on the devices, and start-up, main, handlers and system call compose from reset on.
  \<^item> Error behaviour, where the code has a flaw: \<open>monitor_write_overrun\<close>, \<open>sbrk_gives_back\<close>,
    \<open>upload_jump_exit_code\<close>, \<open>vhdl_below_first\<close>, \<open>mif_short_count\<close>.

  \<^bold>\<open>Bounds and assumptions.\<close> Reading the clock assumes that an access takes less than \<open>2 ^ 29\<close> microseconds
  (\<open>brisk\<close>): then two rounds of the loop are enough. The heap theorems are for a memory map below 2 GB.
  A trap returns behind the ECALL or EBREAK that caused it and with interrupts enabled again: that is done
  by the processor, not by the handlers. The boot loader waits for ten times \<open>2 ^ 20\<close> polls of a loop, as the
  code does; the documentation gives about five seconds for it. File sizes are bounded by the buffers of the
  tools only. The library's \<open>gettimeofday\<close> in the interrupt programs is any function that makes the system
  call, writes no memory of its own and keeps the calling convention (\<open>ecall_stub\<close>), and \<open>cfsetospeed\<close> and \<open>cfsetispeed\<close> set the speeds and
  touch no other flag (\<open>speed_calls_ok\<close>). C library functions that are parameters (\<open>malloc\<close>, \<open>qsort\<close>, floating point
  arithmetic, \<open>exit\<close>, \<open>__libc_init_array\<close>) come with the laws used, as locales or named hypotheses.

  \<^bold>\<open>Not modelled.\<close> The VHDL of the processor, which is not C; the assembler tests; the compiled code of
  the trap handlers between their assembler blocks other than by its effect (it may leave anything in the
  registers); interrupts inside a round of the clock programs (a trap is transparent, and its effect on the
  devices is that between rounds); errors of read and write on an open serial port, the translation of received
  characters the port may still do (\<open>serial_mode\<close> says which flags \<open>upload\<close> leaves alone) and the passage of
  time in \<open>upload\<close>; the rounding of floating point numbers. The copies of driver, start-up and system call files in
  the program directories are the files modelled; they have no definitions of their own.
\<close>

end
